(* ===== verification/Prelude.thy ===== *)
theory Prelude
  imports Main "HOL-Library.Word"
begin

text \<open>
  Vocabulary shared by every component: bytes, C strings, the big-endian images of machine
  integers, and the error-and-state functions in which the stateful C code is written.

  A C function that reads or writes program state and returns an error code becomes a function
  from the state to a pair of a result (\<open>Inl\<close> the error code, \<open>Inr\<close> the outputs) and the new
  state.  The combinators below name the control flow of the source: \<open>bind_io\<close> is sequencing
  with an early return on error, \<open>or_raise\<close> translates an error code of a callee into one of
  the caller, \<open>on_error\<close> is the cleanup block that a \<open>goto cleanup\<close> jumps to, and \<open>try_io\<close> is a
  call whose return value is inspected instead of propagated.
\<close>

unbundle bit_operations_syntax

named_theorems io_def \<open>the combinators, unfolded to run a program on a state\<close>
named_theorems io_inv \<open>inversion of a run of a composed program\<close>

section \<open>Bytes and C strings\<close>

type_synonym byte = "8 word"
type_synonym bytes = "byte list"

text \<open>The bytes of a string literal of the source (without the terminating NUL).\<close>

definition ascii :: "string \<Rightarrow> bytes" where
  "ascii s = map of_char s"

text \<open>A character buffer read as a C string ends at its first NUL.\<close>

definition cstr :: "bytes \<Rightarrow> bytes" where
  "cstr b = takeWhile (\<lambda>c. c \<noteq> 0) b"

abbreviation colon :: byte where "colon \<equiv> 58"
abbreviation newline :: byte where "newline \<equiv> 10"
abbreviation slash :: byte where "slash \<equiv> 47"

lemma length_ascii [simp]: "length (ascii s) = length s"
  by (simp add: ascii_def)

lemma cstr_no_nul [simp]: "0 \<notin> set (cstr b)"
  by (auto simp: cstr_def dest: set_takeWhileD)

lemma cstr_id: "0 \<notin> set b \<Longrightarrow> cstr b = b"
  by (induction b) (auto simp: cstr_def)

lemma cstr_idem [simp]: "cstr (cstr b) = cstr b"
  by (rule cstr_id) simp

lemma length_cstr: "length (cstr b) \<le> length b"
  by (simp add: cstr_def length_takeWhile_le)

lemma cstr_append_nul: "0 \<notin> set b \<Longrightarrow> cstr (b @ 0 # c) = b"
  by (induction b) (auto simp: cstr_def)

lemma cstr_eq_Nil_iff: "cstr b = [] \<longleftrightarrow> b = [] \<or> hd b = 0"
  by (cases b) (auto simp: cstr_def)

section \<open>Machine integers as bytes\<close>

text \<open>The most significant byte first: the order \<open>htonl\<close> and \<open>htons\<close> produce in memory.\<close>

definition be32 :: "32 word \<Rightarrow> bytes" where
  "be32 w = [ucast (drop_bit 24 w AND 255), ucast (drop_bit 16 w AND 255),
             ucast (drop_bit 8 w AND 255), ucast (w AND 255)]"

definition be16 :: "16 word \<Rightarrow> bytes" where
  "be16 w = [ucast (drop_bit 8 w AND 255), ucast (w AND 255)]"

definition u32_of :: "byte \<Rightarrow> byte \<Rightarrow> byte \<Rightarrow> byte \<Rightarrow> 32 word" where
  "u32_of a b c d =
     push_bit 24 (ucast a) OR push_bit 16 (ucast b) OR push_bit 8 (ucast c) OR ucast d"

definition u16_of :: "byte \<Rightarrow> byte \<Rightarrow> 16 word" where
  "u16_of a b = push_bit 8 (ucast a) OR ucast b"

text \<open>Reading them back; the callers always pass exactly four (two) bytes.\<close>

fun de32 :: "bytes \<Rightarrow> 32 word" where
  "de32 [a, b, c, d] = u32_of a b c d"
| "de32 _ = 0"

fun de16 :: "bytes \<Rightarrow> 16 word" where
  "de16 [a, b] = u16_of a b"
| "de16 _ = 0"

lemma mask_255: "(255 :: 'a::len word) = mask 8"
  by (simp add: mask_eq_exp_minus_1)

lemma length_be32 [simp]: "length (be32 w) = 4"
  by (simp add: be32_def)

lemma length_be16 [simp]: "length (be16 w) = 2"
  by (simp add: be16_def)

lemma de32_be32 [simp]: "de32 (be32 w) = w"
proof (rule bit_word_eqI)
  fix n assume "n < LENGTH(32)"
  then consider "n < 8" | "8 \<le> n" "n < 16" | "16 \<le> n" "n < 24" | "24 \<le> n" "n < 32"
    by fastforce
  then show "bit (de32 (be32 w)) n = bit w n"
    by cases (auto simp: be32_def u32_of_def mask_255 bit_simps)
qed

lemma de16_be16 [simp]: "de16 (be16 w) = w"
proof (rule bit_word_eqI)
  fix n assume "n < LENGTH(16)"
  then consider "n < 8" | "8 \<le> n" "n < 16" by fastforce
  then show "bit (de16 (be16 w)) n = bit w n"
    by cases (auto simp: be16_def u16_of_def mask_255 bit_simps)
qed

lemma byte_high_bits: "8 \<le> n \<Longrightarrow> \<not> bit (b :: byte) n"
  using bit_imp_le_length [of b n] by auto

lemma be32_u32_of: "be32 (u32_of a b c d) = [a, b, c, d]"
  unfolding be32_def u32_of_def mask_255
  by (auto intro!: bit_word_eqI simp: bit_simps byte_high_bits)

lemma be16_u16_of: "be16 (u16_of a b) = [a, b]"
  unfolding be16_def u16_of_def mask_255
  by (auto intro!: bit_word_eqI simp: bit_simps byte_high_bits)

lemma length_4_conv: "length xs = 4 \<longleftrightarrow> (\<exists>a b c d. xs = [a, b, c, d])"
  by (auto simp: numeral_eq_Suc length_Suc_conv)

lemma length_2_conv: "length xs = 2 \<longleftrightarrow> (\<exists>a b. xs = [a, b])"
  by (auto simp: numeral_eq_Suc length_Suc_conv)

lemma be32_de32 [simp]: "length b = 4 \<Longrightarrow> be32 (de32 b) = b"
  by (auto simp: length_4_conv be32_u32_of)

lemma be16_de16 [simp]: "length b = 2 \<Longrightarrow> be16 (de16 b) = b"
  by (auto simp: length_2_conv be16_u16_of)

lemma be32_inject [simp]: "be32 v = be32 w \<longleftrightarrow> v = w"
  by (metis de32_be32)

text \<open>
  The conversion of a length to a 32-bit integer, as the cast \<open>(uint32_t)n\<close>.
\<close>

lemma unat_of_nat_32: "n < 2 ^ 32 \<Longrightarrow> unat (word_of_nat n :: 32 word) = n"
  by (simp add: unat_of_nat)

lemma unat_of_nat_8: "n < 256 \<Longrightarrow> unat (word_of_nat n :: 8 word) = n"
  by (simp add: unat_of_nat)

lemma unat_32_bound: "unat (w :: 32 word) \<le> 4294967295"
  using unsigned_less [where ?'b = 32 and ?'a = nat, of w] by simp

lemma unat_8_bound: "unat (w :: 8 word) \<le> 255"
  using unsigned_less [where ?'b = 8 and ?'a = nat, of w] by simp

section \<open>Lists\<close>

lemma take_drop_split: "take a xs @ take b (drop a xs) = take (a + b) xs"
  by (simp add: take_add)

lemma four_parts:
  "take a xs @ take b (drop a xs) @ take c (drop (a + b) xs) @ drop (a + b + c) xs = xs"
proof -
  have "take a xs @ take b (drop a xs) @ take c (drop (a + b) xs) = take (a + b + c) xs"
    by (simp add: take_add)
  then show ?thesis by (metis append_assoc append_take_drop_id)
qed

lemma take_append_exact [simp]: "length xs = n \<Longrightarrow> take n (xs @ ys) = xs"
  by simp

lemma drop_append_exact [simp]: "length xs = n \<Longrightarrow> drop n (xs @ ys) = ys"
  by simp

section \<open>Programs with state and error codes\<close>

type_synonym ('s, 'e, 'a) io = "'s \<Rightarrow> ('e + 'a) \<times> 's"

definition ret :: "'a \<Rightarrow> ('s, 'e, 'a) io" where
  [io_def]: "ret x = (\<lambda>s. (Inr x, s))"

definition raise :: "'e \<Rightarrow> ('s, 'e, 'a) io" where
  [io_def]: "raise e = (\<lambda>s. (Inl e, s))"

definition bind_io :: "('s, 'e, 'a) io \<Rightarrow> ('a \<Rightarrow> ('s, 'e, 'b) io) \<Rightarrow> ('s, 'e, 'b) io" where
  [io_def]: "bind_io m f = (\<lambda>s. case m s of (Inl e, t) \<Rightarrow> (Inl e, t) | (Inr x, t) \<Rightarrow> f x t)"

definition then_io :: "('s, 'e, 'a) io \<Rightarrow> ('s, 'e, 'b) io \<Rightarrow> ('s, 'e, 'b) io" where
  [io_def]: "then_io m k = bind_io m (\<lambda>_. k)"

definition or_raise :: "'e \<Rightarrow> ('s, 'f, 'a) io \<Rightarrow> ('s, 'e, 'a) io" where
  [io_def]: "or_raise e m = (\<lambda>s. case m s of (Inl _, t) \<Rightarrow> (Inl e, t) | (Inr x, t) \<Rightarrow> (Inr x, t))"

definition on_error :: "('s, 'e, 'a) io \<Rightarrow> ('s, 'e, 'b) io \<Rightarrow> ('s, 'e, 'a) io" where
  [io_def]: "on_error m h =
     (\<lambda>s. case m s of (Inl e, t) \<Rightarrow> (Inl e, snd (h t)) | (Inr x, t) \<Rightarrow> (Inr x, t))"

definition try_io :: "('s, 'f, 'a) io \<Rightarrow> ('s, 'e, 'f + 'a) io" where
  [io_def]: "try_io m = (\<lambda>s. case m s of (r, t) \<Rightarrow> (Inr r, t))"

definition get_io :: "('s \<Rightarrow> 'a) \<Rightarrow> ('s, 'e, 'a) io" where
  [io_def]: "get_io f = (\<lambda>s. (Inr (f s), s))"

definition put_io :: "('s \<Rightarrow> 's) \<Rightarrow> ('s, 'e, unit) io" where
  [io_def]: "put_io f = (\<lambda>s. (Inr (), f s))"

definition check_io :: "bool \<Rightarrow> 'e \<Rightarrow> ('s, 'e, unit) io" where
  [io_def]: "check_io b e = (if b then ret () else raise e)"

text \<open>The result of a pure function that fails by returning -1.\<close>

definition from_option :: "'e \<Rightarrow> 'a option \<Rightarrow> ('s, 'e, 'a) io" where
  [io_def]: "from_option e z = (case z of None \<Rightarrow> raise e | Some x \<Rightarrow> ret x)"

text \<open>A program run on each element of a list, and a program repeated so many times.\<close>

primrec each_io :: "('a \<Rightarrow> ('s, 'e, unit) io) \<Rightarrow> 'a list \<Rightarrow> ('s, 'e, unit) io" where
  "each_io f [] = ret ()"
| "each_io f (x # xs) = then_io (f x) (each_io f xs)"

primrec repeat_io :: "nat \<Rightarrow> ('s, 'e, 'a) io \<Rightarrow> ('s, 'e, 'a list) io" where
  "repeat_io 0 m = ret []"
| "repeat_io (Suc n) m = bind_io m (\<lambda>x. bind_io (repeat_io n m) (\<lambda>xs. ret (x # xs)))"

text \<open>Inversion: what a completed run says about its parts.\<close>

lemma ret_run [io_inv]: "ret x s = (r, t) \<longleftrightarrow> r = Inr x \<and> t = s"
  by (auto simp: io_def)

lemma raise_run [io_inv]: "raise e s = (r, t) \<longleftrightarrow> r = Inl e \<and> t = s"
  by (auto simp: io_def)

lemma bind_io_Inr [io_inv]:
  "bind_io m f s = (Inr y, t) \<longleftrightarrow> (\<exists>x u. m s = (Inr x, u) \<and> f x u = (Inr y, t))"
  by (auto simp: io_def split: prod.splits sum.splits)

lemma bind_io_Inl [io_inv]:
  "bind_io m f s = (Inl e, t) \<longleftrightarrow>
     m s = (Inl e, t) \<or> (\<exists>x u. m s = (Inr x, u) \<and> f x u = (Inl e, t))"
  by (auto simp: io_def split: prod.splits sum.splits)

lemma then_io_Inr [io_inv]:
  "then_io m k s = (Inr y, t) \<longleftrightarrow> (\<exists>x u. m s = (Inr x, u) \<and> k u = (Inr y, t))"
  by (simp add: then_io_def io_inv)

lemma then_io_Inl [io_inv]:
  "then_io m k s = (Inl e, t) \<longleftrightarrow>
     m s = (Inl e, t) \<or> (\<exists>x u. m s = (Inr x, u) \<and> k u = (Inl e, t))"
  by (simp add: then_io_def io_inv)

lemma or_raise_Inr [io_inv]: "or_raise e m s = (Inr y, t) \<longleftrightarrow> m s = (Inr y, t)"
  by (auto simp: io_def split: prod.splits sum.splits)

lemma or_raise_Inl [io_inv]: "or_raise e m s = (Inl f, t) \<longleftrightarrow> f = e \<and> (\<exists>g. m s = (Inl g, t))"
  by (auto simp: io_def split: prod.splits sum.splits)

lemma on_error_Inr [io_inv]: "on_error m h s = (Inr y, t) \<longleftrightarrow> m s = (Inr y, t)"
  by (auto simp: io_def split: prod.splits sum.splits)

lemma on_error_Inl [io_inv]:
  "on_error m h s = (Inl e, t) \<longleftrightarrow> (\<exists>u. m s = (Inl e, u) \<and> t = snd (h u))"
  by (auto simp: io_def split: prod.splits sum.splits)

lemma try_io_run [io_inv]: "try_io m s = (Inr r, t) \<longleftrightarrow> m s = (r, t)"
  by (auto simp: io_def split: prod.splits)

lemma try_io_Inl [io_inv]: "try_io m s = (Inl e, t) \<longleftrightarrow> False"
  by (auto simp: io_def split: prod.splits)

lemma get_io_run [io_inv]: "get_io f s = (r, t) \<longleftrightarrow> r = Inr (f s) \<and> t = s"
  by (auto simp: io_def)

lemma put_io_run [io_inv]: "put_io f s = (r, t) \<longleftrightarrow> r = Inr () \<and> t = f s"
  by (auto simp: io_def)

lemma snd_put_io [simp]: "snd (put_io f s) = f s"
  by (simp add: put_io_def)

lemma check_io_Inr [io_inv]: "check_io b e s = (Inr y, t) \<longleftrightarrow> b \<and> t = s"
  by (auto simp: io_def)

lemma check_io_Inl [io_inv]: "check_io b e s = (Inl f, t) \<longleftrightarrow> \<not> b \<and> f = e \<and> t = s"
  by (auto simp: io_def)

lemma from_option_Inr [io_inv]: "from_option e z s = (Inr y, t) \<longleftrightarrow> z = Some y \<and> t = s"
  by (auto simp: io_def split: option.splits)

lemma from_option_Inl [io_inv]: "from_option e z s = (Inl f, t) \<longleftrightarrow> z = None \<and> f = e \<and> t = s"
  by (auto simp: io_def split: option.splits)

text \<open>Running a composed program whose first part is known to succeed (or fail).\<close>

lemma bind_io_ok: "m s = (Inr x, t) \<Longrightarrow> bind_io m f s = f x t"
  by (simp add: io_def)

lemma bind_io_err: "m s = (Inl e, t) \<Longrightarrow> bind_io m f s = (Inl e, t)"
  by (simp add: io_def)

lemma then_io_ok: "m s = (Inr x, t) \<Longrightarrow> then_io m k s = k t"
  by (simp add: io_def)

lemma then_io_err: "m s = (Inl e, t) \<Longrightarrow> then_io m k s = (Inl e, t)"
  by (simp add: io_def)

lemma or_raise_ok: "m s = (Inr x, t) \<Longrightarrow> or_raise e m s = (Inr x, t)"
  by (simp add: io_def)

lemma or_raise_err: "m s = (Inl f, t) \<Longrightarrow> or_raise e m s = (Inl e, t)"
  by (simp add: io_def)

lemmas io_ok = bind_io_ok then_io_ok or_raise_ok
lemmas io_err = bind_io_err then_io_err or_raise_err

section \<open>What a program may do to the state\<close>

text \<open>
  \<open>within R m\<close>: whatever \<open>m\<close> returns, its final state is related by \<open>R\<close> to its initial one.
  With \<open>R s t = (f s = f t)\<close> this is a frame condition, with \<open>R s t = (I s \<longrightarrow> I t)\<close>
  the preservation of an invariant, and with an order a monotonicity property.  For every
  reflexive and transitive \<open>R\<close> it is closed under the combinators; the locale proves this once.
\<close>

definition within :: "('s \<Rightarrow> 's \<Rightarrow> bool) \<Rightarrow> ('s, 'e, 'a) io \<Rightarrow> bool" where
  "within R m \<longleftrightarrow> (\<forall>s. R s (snd (m s)))"

lemma withinI: "(\<And>s r t. m s = (r, t) \<Longrightarrow> R s t) \<Longrightarrow> within R m"
  unfolding within_def by (metis prod.collapse)

lemma withinD: "within R m \<Longrightarrow> m s = (r, t) \<Longrightarrow> R s t"
  unfolding within_def by (metis snd_conv)

lemma within_mono: "within R m \<Longrightarrow> (\<And>s t. R s t \<Longrightarrow> S s t) \<Longrightarrow> within S m"
  unfolding within_def by blast

locale state_frame =
  fixes R :: "'s \<Rightarrow> 's \<Rightarrow> bool"
  assumes frame_refl: "R s s"
    and frame_trans: "R s t \<Longrightarrow> R t u \<Longrightarrow> R s u"
begin

lemma within_ret [simp, intro]: "within R (ret x)"
  by (simp add: within_def io_def frame_refl)

lemma within_raise [simp, intro]: "within R (raise e)"
  by (simp add: within_def io_def frame_refl)

lemma within_get [simp, intro]: "within R (get_io f)"
  by (simp add: within_def io_def frame_refl)

lemma within_check [simp, intro]: "within R (check_io b e)"
  by (simp add: check_io_def)

lemma within_from_option [simp, intro]: "within R (from_option e z)"
  by (simp add: from_option_def split: option.split)

lemma within_put: "(\<And>s. R s (f s)) \<Longrightarrow> within R (put_io f)"
  by (simp add: within_def io_def)

lemma within_bind [intro]:
  assumes "within R m" and "\<And>x. within R (f x)"
  shows "within R (bind_io m f)"
proof (rule withinI)
  fix s r t assume run: "bind_io m f s = (r, t)"
  obtain r1 u where m: "m s = (r1, u)" by fastforce
  then have su: "R s u" using assms(1) by (rule withinD [rotated])
  show "R s t"
  proof (cases r1)
    case (Inl e)
    with run m su show ?thesis by (simp add: io_def)
  next
    case (Inr x)
    with run m have "f x u = (r, t)" by (simp add: io_def)
    then have "R u t" using assms(2) by (rule withinD [rotated])
    with su show ?thesis by (rule frame_trans)
  qed
qed

lemma within_then [intro]: "within R m \<Longrightarrow> within R k \<Longrightarrow> within R (then_io m k)"
  by (auto simp: then_io_def)

lemma within_or_raise [intro]: "within R m \<Longrightarrow> within R (or_raise e m)"
  by (auto simp: within_def io_def split: prod.split sum.split) (metis snd_conv)+

lemma within_try [intro]: "within R m \<Longrightarrow> within R (try_io m)"
  by (auto simp: within_def io_def split: prod.split) (metis snd_conv)

lemma within_on_error [intro]:
  assumes m: "within R m" and h: "within R h"
  shows "within R (on_error m h)"
proof (rule withinI)
  fix s r t assume "on_error m h s = (r, t)"
  then show "R s t"
    using m h by (cases r) (auto simp: io_inv within_def dest!: withinD[OF m] intro: frame_trans)
qed

lemma within_if [intro]: "within R m \<Longrightarrow> within R k \<Longrightarrow> within R (if b then m else k)"
  by simp

lemma within_case_option [intro]:
  "within R m \<Longrightarrow> (\<And>x. within R (k x)) \<Longrightarrow> within R (case z of None \<Rightarrow> m | Some x \<Rightarrow> k x)"
  by (cases z) auto

lemma within_case_sum [intro]:
  "(\<And>x. within R (m x)) \<Longrightarrow> (\<And>x. within R (k x)) \<Longrightarrow>
     within R (case z of Inl x \<Rightarrow> m x | Inr x \<Rightarrow> k x)"
  by (cases z) auto

lemma within_case_prod [intro]:
  "(\<And>x y. within R (k x y)) \<Longrightarrow> within R (case z of (x, y) \<Rightarrow> k x y)"
  by (cases z) auto

end

text \<open>The two shapes used throughout: an unchanged view of the state, and an invariant.\<close>

interpretation frame_same: state_frame "\<lambda>s t. f s = f t" for f
  by unfold_locales auto

interpretation frame_inv: state_frame "\<lambda>s t. I s \<longrightarrow> I t" for I
  by unfold_locales auto

abbreviation preserves :: "('s \<Rightarrow> 'b) \<Rightarrow> ('s, 'e, 'a) io \<Rightarrow> bool" where
  "preserves f m \<equiv> within (\<lambda>s t. f s = f t) m"

abbreviation keeps :: "('s \<Rightarrow> bool) \<Rightarrow> ('s, 'e, 'a) io \<Rightarrow> bool" where
  "keeps I m \<equiv> within (\<lambda>s t. I s \<longrightarrow> I t) m"

end
