(* ===== verification/World.thy ===== *)
theory World
  imports Prelude "HOL-Library.AList"
begin

text \<open>
  Everything the program uses that is not under \<^verbatim>\<open>src/\<close>: the OpenSSL functions and the host's
  byte order (\<open>platform\<close>, a parameter of the model), and the part of the C library and of the
  operating system it calls (\<open>env\<close>: files, directories, the connected socket, the random
  source, and an oracle saying which library call fails).

  Every fallible call of the source consults the fault oracle \<open>w_fault\<close> at the next tick, so a
  theorem about an arbitrary \<open>env\<close> covers every combination of failing calls, and a theorem
  about a \<open>calm\<close> one is about runs in which the library works.
\<close>

section \<open>OpenSSL and the host\<close>

text \<open>
  One field per OpenSSL operation the source composes its calls into.  Keys are opaque byte
  strings.  No property of these functions is built in; what a theorem needs is a named
  hypothesis about them (\<open>gcm_spec\<close>, \<open>ecdh_spec\<close>, \<dots>).
\<close>

record platform =
  little_endian :: bool
  openssl3 :: bool
  pbkdf2 :: "bytes \<Rightarrow> bytes \<Rightarrow> nat \<Rightarrow> nat \<Rightarrow> bytes"
  gcm_encrypt :: "bytes \<Rightarrow> bytes \<Rightarrow> bytes \<Rightarrow> bytes \<Rightarrow> bytes \<times> bytes"
  gcm_decrypt :: "bytes \<Rightarrow> bytes \<Rightarrow> bytes \<Rightarrow> bytes \<Rightarrow> bytes \<Rightarrow> bytes option"
  sha256 :: "bytes \<Rightarrow> bytes"
  hmac_sha256 :: "bytes \<Rightarrow> bytes \<Rightarrow> bytes"
  hkdf_sha256 :: "bytes \<Rightarrow> bytes \<Rightarrow> bytes \<Rightarrow> nat \<Rightarrow> bytes"
  ec_keygen :: "bytes \<Rightarrow> bytes"
  ec_public_der :: "bytes \<Rightarrow> bytes"
  ec_derive :: "bytes \<Rightarrow> bytes \<Rightarrow> bytes option"
  pem_private :: "bytes \<Rightarrow> bytes option"
  pem_public :: "bytes \<Rightarrow> bytes option"
  digest_sign :: "bytes \<Rightarrow> bytes \<Rightarrow> bytes"
  digest_verify :: "bytes \<Rightarrow> bytes \<Rightarrow> bytes \<Rightarrow> bool"
  rsa_keygen :: "bytes \<Rightarrow> bytes"
  pem_of_public :: "bytes \<Rightarrow> bytes"
  pem_of_private :: "bytes \<Rightarrow> bytes"
  pss_sign :: "bytes \<Rightarrow> bytes \<Rightarrow> bytes \<Rightarrow> bytes"

text \<open>HKDF as RFC 5869 defines it over a keyed hash with 32-byte results.\<close>

primrec hkdf_block :: "(bytes \<Rightarrow> bytes \<Rightarrow> bytes) \<Rightarrow> bytes \<Rightarrow> bytes \<Rightarrow> nat \<Rightarrow> bytes" where
  "hkdf_block hmac prk info 0 = []"
| "hkdf_block hmac prk info (Suc i) =
     hmac prk (hkdf_block hmac prk info i @ info @ [of_nat (Suc i)])"

definition rfc5869 :: "(bytes \<Rightarrow> bytes \<Rightarrow> bytes) \<Rightarrow> bytes \<Rightarrow> bytes \<Rightarrow> bytes \<Rightarrow> nat \<Rightarrow> bytes" where
  "rfc5869 hmac salt ikm info len =
     take len (concat (map (hkdf_block hmac (hmac salt ikm) info) [1 ..< Suc ((len + 31) div 32)]))"

text \<open>
  A platform that can be computed with, to run the model on concrete inputs.  Nothing about it
  is secure; it satisfies the contracts the theorems ask of the cryptographic functions.
\<close>

definition sample_platform :: platform where
  "sample_platform = \<lparr>little_endian = True, openssl3 = True,
     pbkdf2 = (\<lambda>pw salt it n. take n (pw @ salt @ replicate n 0)),
     gcm_encrypt = (\<lambda>key iv aad pt. (pt, take 16 (key @ replicate 16 0))),
     gcm_decrypt = (\<lambda>key iv aad ct tag. if tag = take 16 (key @ replicate 16 0) then Some ct else None),
     sha256 = (\<lambda>b. take 32 (b @ replicate 32 0)),
     hmac_sha256 = (\<lambda>k m. take 32 (k @ m @ replicate 32 0)),
     hkdf_sha256 = (\<lambda>salt ikm info n. rfc5869 (\<lambda>k m. take 32 (k @ m @ replicate 32 0)) salt ikm info n),
     ec_keygen = (\<lambda>seed. seed), ec_public_der = (\<lambda>k. k),
     ec_derive = (\<lambda>k p. Some (map2 (XOR) k p)),
     pem_private = Some, pem_public = Some,
     digest_sign = (\<lambda>k m. k @ m), digest_verify = (\<lambda>k m sig. sig = k @ m),
     rsa_keygen = (\<lambda>seed. seed), pem_of_public = (\<lambda>k. k), pem_of_private = (\<lambda>k. k),
     pss_sign = (\<lambda>k salt doc. k @ salt @ doc)\<rparr>"

text \<open>
  The memory image of an integer on the host, and \<open>htonl\<close>/\<open>ntohl\<close>/\<open>htons\<close>/\<open>ntohs\<close>: the
  integer whose memory image is the big-endian image of the argument.
\<close>

definition store32 :: "'p platform_scheme \<Rightarrow> 32 word \<Rightarrow> bytes" where
  "store32 P w = (if little_endian P then rev (be32 w) else be32 w)"

definition load32 :: "'p platform_scheme \<Rightarrow> bytes \<Rightarrow> 32 word" where
  "load32 P b = (if little_endian P then de32 (rev b) else de32 b)"

definition store16 :: "'p platform_scheme \<Rightarrow> 16 word \<Rightarrow> bytes" where
  "store16 P w = (if little_endian P then rev (be16 w) else be16 w)"

definition load16 :: "'p platform_scheme \<Rightarrow> bytes \<Rightarrow> 16 word" where
  "load16 P b = (if little_endian P then de16 (rev b) else de16 b)"

definition htonl :: "'p platform_scheme \<Rightarrow> 32 word \<Rightarrow> 32 word" where
  "htonl P w = load32 P (be32 w)"

definition ntohl :: "'p platform_scheme \<Rightarrow> 32 word \<Rightarrow> 32 word" where
  "ntohl P w = de32 (store32 P w)"

definition htons :: "'p platform_scheme \<Rightarrow> 16 word \<Rightarrow> 16 word" where
  "htons P w = load16 P (be16 w)"

definition ntohs :: "'p platform_scheme \<Rightarrow> 16 word \<Rightarrow> 16 word" where
  "ntohs P w = de16 (store16 P w)"

lemma length_store32 [simp]: "length (store32 P w) = 4"
  by (simp add: store32_def)

lemma length_store16 [simp]: "length (store16 P w) = 2"
  by (simp add: store16_def)

lemma store_load32 [simp]: "length b = 4 \<Longrightarrow> store32 P (load32 P b) = b"
  by (simp add: store32_def load32_def)

lemma load_store32 [simp]: "load32 P (store32 P w) = w"
  by (simp add: store32_def load32_def)

lemma store_load16 [simp]: "length b = 2 \<Longrightarrow> store16 P (load16 P b) = b"
  by (simp add: store16_def load16_def)

lemma load_store16 [simp]: "load16 P (store16 P w) = w"
  by (simp add: store16_def load16_def)

lemma store32_htonl [simp]: "store32 P (htonl P w) = be32 w"
  by (simp add: htonl_def)

lemma store16_htons [simp]: "store16 P (htons P w) = be16 w"
  by (simp add: htons_def)

lemma ntohl_htonl [simp]: "ntohl P (htonl P w) = w"
  by (simp add: ntohl_def)

lemma ntohs_htons [simp]: "ntohs P (htons P w) = w"
  by (simp add: ntohs_def)

lemma htonl_ntohl [simp]: "htonl P (ntohl P w) = w"
  by (simp add: ntohl_def htonl_def)

lemma ntohl_load32: "length b = 4 \<Longrightarrow> ntohl P (load32 P b) = de32 b"
  by (simp add: ntohl_def)

lemma ntohs_load16: "length b = 2 \<Longrightarrow> ntohs P (load16 P b) = de16 b"
  by (simp add: ntohs_def)

section \<open>The C library and the operating system\<close>

datatype errno =
  EINVAL | EIO | ECONNRESET | EOVERFLOW | ENOMEM | EEXIST | ENOENT | ENOTEMPTY | EINTR
  | EHOSTUNREACH | EADDRNOTAVAIL | EOTHER

text \<open>
  What the next \<open>recv\<close> or \<open>send\<close> on the connection meets: an interrupting signal, an error,
  data that has arrived, or room for so many bytes.  An exhausted list of receive events is a
  closed connection; an exhausted list of send events takes everything offered.
\<close>

datatype recv_event = R_intr | R_err | R_data bytes
datatype send_event = S_intr | S_err | S_room nat

record env =
  w_fault :: "nat \<Rightarrow> bool"
  w_part :: "nat \<Rightarrow> nat"
  w_tick :: nat
  w_tape :: "nat \<Rightarrow> byte"
  w_rpos :: nat
  w_files :: "(bytes \<times> bytes) list"
  w_dirs :: "bytes list"
  w_rx :: "recv_event list"
  w_plan :: "send_event list"
  w_tx :: bytes

text \<open>A state in which nothing fails, with given files and data waiting on the socket.\<close>

definition sample_env :: "(bytes \<times> bytes) list \<Rightarrow> recv_event list \<Rightarrow> env" where
  "sample_env files rx = \<lparr>w_fault = (\<lambda>_. False), w_part = (\<lambda>_. 0), w_tick = 0, w_tape = of_nat,
     w_rpos = 0, w_files = files, w_dirs = [], w_rx = rx, w_plan = [], w_tx = []\<rparr>"

text \<open>When two updates of one state agree.\<close>

lemma env_update_eq [simp]:
  "s\<lparr>w_tick := a\<rparr> = s\<lparr>w_tick := b\<rparr> \<longleftrightarrow> a = b"
  "s\<lparr>w_tick := a, w_rpos := p\<rparr> = s\<lparr>w_tick := b, w_rpos := q\<rparr> \<longleftrightarrow> a = b \<and> p = q"
  "s\<lparr>w_rx := x\<rparr> = s\<lparr>w_rx := y\<rparr> \<longleftrightarrow> x = y"
  "s\<lparr>w_tick := a, w_rx := x\<rparr> = s\<lparr>w_tick := b, w_rx := y\<rparr> \<longleftrightarrow> a = b \<and> x = y"
  "s\<lparr>w_plan := e, w_tx := u\<rparr> = s\<lparr>w_plan := f, w_tx := v\<rparr> \<longleftrightarrow> e = f \<and> u = v"
  "s\<lparr>w_tick := a, w_plan := e, w_tx := u\<rparr> = s\<lparr>w_tick := b, w_plan := f, w_tx := v\<rparr> \<longleftrightarrow>
     a = b \<and> e = f \<and> u = v"
  by (cases s; simp)+

definition calm :: "'r env_scheme \<Rightarrow> bool" where
  "calm s \<longleftrightarrow> (\<forall>n. \<not> w_fault s n)"

lemma calm_update [simp]:
  "calm (s\<lparr>w_tick := a\<rparr>) = calm s" "calm (s\<lparr>w_rpos := a\<rparr>) = calm s"
  "calm (s\<lparr>w_files := f\<rparr>) = calm s" "calm (s\<lparr>w_dirs := d\<rparr>) = calm s"
  "calm (s\<lparr>w_rx := x\<rparr>) = calm s" "calm (s\<lparr>w_plan := p\<rparr>) = calm s"
  "calm (s\<lparr>w_tx := b\<rparr>) = calm s"
  by (simp_all add: calm_def)

text \<open>A library call that either works or fails, changing nothing the program can see.\<close>

definition lib_call :: "'e \<Rightarrow> ('r env_scheme, 'e, unit) io" where
  "lib_call e = (\<lambda>s. (if w_fault s (w_tick s) then Inl e else Inr (),
                      s\<lparr>w_tick := Suc (w_tick s)\<rparr>))"

text \<open>A sequence of them, abandoned at the first failure.\<close>

primrec lib_calls :: "nat \<Rightarrow> 'e \<Rightarrow> ('r env_scheme, 'e, unit) io" where
  "lib_calls 0 e = ret ()"
| "lib_calls (Suc n) e = then_io (lib_call e) (lib_calls n e)"

lemma lib_call_calm [simp]: "calm s \<Longrightarrow> lib_call e s = (Inr (), s\<lparr>w_tick := Suc (w_tick s)\<rparr>)"
  by (simp add: lib_call_def calm_def)

lemma lib_calls_calm [simp]: "calm s \<Longrightarrow> lib_calls n e s = (Inr (), s\<lparr>w_tick := w_tick s + n\<rparr>)"
  by (induction n arbitrary: s) (simp_all add: ret_run then_io_ok)

lemma lib_call_run: "lib_call e s = (r, t) \<Longrightarrow> t = s\<lparr>w_tick := Suc (w_tick s)\<rparr>"
  by (auto simp: lib_call_def)

lemma lib_call_Inl: "lib_call e s = (Inl f, t) \<Longrightarrow> f = e"
  by (auto simp: lib_call_def split: if_splits)

lemma lib_calls_run: "lib_calls n e s = (r, t) \<Longrightarrow> \<exists>k. t = s\<lparr>w_tick := k\<rparr>"
proof (induction n arbitrary: s r t)
  case 0
  then show ?case by (auto simp: ret_run intro: exI [of _ "w_tick s"])
next
  case (Suc n)
  then show ?case
    by (cases r) (auto simp: io_inv dest!: lib_call_run Suc.IH)
qed

lemma lib_calls_Inl: "lib_calls n e s = (Inl f, t) \<Longrightarrow> f = e"
  by (induction n arbitrary: s) (auto simp: io_inv dest: lib_call_Inl)

subsection \<open>Randomness\<close>

definition rand_bytes :: "'e \<Rightarrow> nat \<Rightarrow> ('r env_scheme, 'e, bytes) io" where
  "rand_bytes e n = then_io (lib_call e)
     (\<lambda>s. (Inr (map (w_tape s) [w_rpos s ..< w_rpos s + n]), s\<lparr>w_rpos := w_rpos s + n\<rparr>))"

lemma rand_bytes_calm:
  "calm s \<Longrightarrow> rand_bytes e n s =
     (Inr (map (w_tape s) [w_rpos s ..< w_rpos s + n]),
      s\<lparr>w_tick := Suc (w_tick s), w_rpos := w_rpos s + n\<rparr>)"
  by (simp add: rand_bytes_def then_io_ok)

lemma rand_bytes_run:
  "rand_bytes e n s = (r, t) \<Longrightarrow> \<exists>k p. t = s\<lparr>w_tick := k, w_rpos := p\<rparr>"
  by (rule exI [of _ "w_tick t"], rule exI [of _ "w_rpos t"], cases r)
     (auto simp: rand_bytes_def io_inv dest!: lib_call_run)

text \<open>
  Bytes that come from the random source: the ones at its position in the first state, which is
  past them in the second, so that no later call hands them out again.
\<close>

definition drawn :: "'r env_scheme \<Rightarrow> nat \<Rightarrow> bytes \<Rightarrow> bool" where
  "drawn s p b \<longleftrightarrow> b = map (w_tape s) [w_rpos s ..< w_rpos s + length b] \<and> w_rpos s + length b \<le> p"

lemma rand_bytes_drawn:
  "rand_bytes e n s = (Inr b, t) \<Longrightarrow> \<exists>k p. t = s\<lparr>w_tick := k, w_rpos := p\<rparr> \<and> drawn s p b"
  by (rule exI [of _ "w_tick t"], rule exI [of _ "w_rpos t"])
     (auto simp: rand_bytes_def io_inv drawn_def dest!: lib_call_run)

lemma drawn_cong: "drawn s p b \<Longrightarrow> w_tape s = w_tape s' \<Longrightarrow> w_rpos s = w_rpos s' \<Longrightarrow> p \<le> p' \<Longrightarrow> drawn s' p' b"
  by (auto simp: drawn_def)

lemma rand_bytes_length: "rand_bytes e n s = (Inr b, t) \<Longrightarrow> length b = n"
  by (auto simp: rand_bytes_def io_inv)

lemma rand_bytes_Inl: "rand_bytes e n s = (Inl f, t) \<Longrightarrow> f = e"
  by (auto simp: rand_bytes_def io_inv dest: lib_call_Inl)

subsection \<open>Files\<close>

definition file_at :: "'r env_scheme \<Rightarrow> bytes \<Rightarrow> bytes option" where
  "file_at s p = map_of (w_files s) p"

definition set_file :: "bytes \<Rightarrow> bytes \<Rightarrow> 'r env_scheme \<Rightarrow> 'r env_scheme" where
  "set_file p c s = s\<lparr>w_files := AList.update p c (w_files s)\<rparr>"

definition del_file :: "bytes \<Rightarrow> 'r env_scheme \<Rightarrow> 'r env_scheme" where
  "del_file p s = s\<lparr>w_files := AList.delete p (w_files s)\<rparr>"

lemma file_at_set_file: "file_at (set_file p c s) q = (if q = p then Some c else file_at s q)"
  by (simp add: file_at_def set_file_def update_conv')

lemma file_at_del_file: "file_at (del_file p s) q = (if q = p then None else file_at s q)"
  by (simp add: file_at_def del_file_def delete_conv')

lemmas file_at_simps [simp] = file_at_set_file file_at_del_file

lemma file_at_other [simp]:
  "file_at (s\<lparr>w_tick := a\<rparr>) q = file_at s q" "file_at (s\<lparr>w_rpos := a\<rparr>) q = file_at s q"
  "file_at (s\<lparr>w_dirs := d\<rparr>) q = file_at s q" "file_at (s\<lparr>w_rx := x\<rparr>) q = file_at s q"
  "file_at (s\<lparr>w_plan := p\<rparr>) q = file_at s q" "file_at (s\<lparr>w_tx := b\<rparr>) q = file_at s q"
  by (simp_all add: file_at_def)

lemma calm_file [simp]: "calm (set_file p c s) = calm s" "calm (del_file p s) = calm s"
  by (simp_all add: calm_def set_file_def del_file_def)

text \<open>\<open>access(path, F_OK) == 0\<close>\<close>

definition path_exists :: "'r env_scheme \<Rightarrow> bytes \<Rightarrow> bool" where
  "path_exists s p \<longleftrightarrow> file_at s p \<noteq> None \<or> p \<in> set (w_dirs s)"

text \<open>\<open>fopen(path, "r")\<close> and reading it to the end: the contents of the file.\<close>

definition open_read :: "'e \<Rightarrow> bytes \<Rightarrow> ('r env_scheme, 'e, bytes) io" where
  "open_read e p = then_io (lib_call e)
     (bind_io (get_io (\<lambda>s. file_at s p))
       (\<lambda>c. case c of None \<Rightarrow> raise e | Some data \<Rightarrow> ret data))"

text \<open>\<open>fopen(path, "w")\<close>: creates or truncates the file.\<close>

definition open_write :: "'e \<Rightarrow> bytes \<Rightarrow> ('r env_scheme, 'e, unit) io" where
  "open_write e p = then_io (lib_call e)
     (bind_io (get_io (\<lambda>s. p \<in> set (w_dirs s)))
       (\<lambda>isdir. if isdir then raise e else put_io (set_file p [])))"

text \<open>
  Writing to a file opened for writing and closing it.  When the call fails the file keeps
  some prefix of what was to be written, its length chosen by the environment.
\<close>

definition file_write :: "'e \<Rightarrow> bytes \<Rightarrow> bytes \<Rightarrow> ('r env_scheme, 'e, unit) io" where
  "file_write e p data = (\<lambda>s.
     let old = (case file_at s p of None \<Rightarrow> [] | Some c \<Rightarrow> c);
         t = s\<lparr>w_tick := Suc (w_tick s)\<rparr>
     in if w_fault s (w_tick s)
        then (Inl e, set_file p (old @ take (w_part s (w_tick s)) data) t)
        else (Inr (), set_file p (old @ data) t))"

definition file_close :: "'e \<Rightarrow> bytes \<Rightarrow> ('r env_scheme, 'e, unit) io" where
  "file_close e p = (\<lambda>s.
     let old = (case file_at s p of None \<Rightarrow> [] | Some c \<Rightarrow> c);
         t = s\<lparr>w_tick := Suc (w_tick s)\<rparr>
     in if w_fault s (w_tick s)
        then (Inl e, set_file p (take (w_part s (w_tick s)) old) t)
        else (Inr (), t))"

definition unlink :: "'e \<Rightarrow> bytes \<Rightarrow> ('r env_scheme, 'e, unit) io" where
  "unlink e p = then_io (lib_call e)
     (bind_io (get_io (\<lambda>s. file_at s p))
       (\<lambda>c. if c = None then raise e else put_io (del_file p)))"

definition rename :: "'e \<Rightarrow> bytes \<Rightarrow> bytes \<Rightarrow> ('r env_scheme, 'e, unit) io" where
  "rename e p q = then_io (lib_call e)
     (bind_io (get_io (\<lambda>s. file_at s p))
       (\<lambda>c. case c of None \<Rightarrow> raise e | Some data \<Rightarrow> put_io (set_file q data \<circ> del_file p)))"

definition mkdir :: "bytes \<Rightarrow> ('r env_scheme, errno, unit) io" where
  "mkdir p = then_io (lib_call EOTHER)
     (bind_io (get_io (\<lambda>s. path_exists s p))
       (\<lambda>ex. if ex then raise EEXIST else put_io (\<lambda>s. s\<lparr>w_dirs := p # w_dirs s\<rparr>)))"

text \<open>A directory is empty when no file's path starts with its own path and a slash.\<close>

definition dir_empty :: "'r env_scheme \<Rightarrow> bytes \<Rightarrow> bool" where
  "dir_empty s p \<longleftrightarrow>
     \<not> list_ex (\<lambda>(q, _). take (Suc (length p)) q = p @ [slash]) (w_files s)"

definition rmdir :: "bytes \<Rightarrow> ('r env_scheme, errno, unit) io" where
  "rmdir p = then_io (lib_call EOTHER)
     (bind_io (get_io (\<lambda>s. (p \<in> set (w_dirs s), dir_empty s p)))
       (\<lambda>(ex, empty). if \<not> ex then raise ENOENT else if \<not> empty then raise ENOTEMPTY
                      else put_io (\<lambda>s. s\<lparr>w_dirs := removeAll p (w_dirs s)\<rparr>)))"

subsection \<open>What the library calls may change\<close>

text \<open>
  A relation that allows a call's effect contains the call: the leaves of the frame, invariant
  and monotonicity proofs of the components.
\<close>

named_theorems prims \<open>library calls stay within a relation\<close>

lemma lib_call_within [prims]: "(\<And>s k. R s (s\<lparr>w_tick := k\<rparr>)) \<Longrightarrow> within R (lib_call e)"
  by (auto simp: within_def lib_call_def)

lemma lib_calls_within [prims]: "(\<And>s k. R s (s\<lparr>w_tick := k\<rparr>)) \<Longrightarrow> within R (lib_calls n e)"
  by (rule withinI) (auto dest: lib_calls_run)

lemma rand_bytes_within [prims]:
  "(\<And>s k p. R s (s\<lparr>w_tick := k, w_rpos := p\<rparr>)) \<Longrightarrow> within R (rand_bytes e n)"
  by (rule withinI) (auto dest: rand_bytes_run)

lemma open_read_within [prims]: "(\<And>s k. R s (s\<lparr>w_tick := k\<rparr>)) \<Longrightarrow> within R (open_read e p)"
  by (auto simp: within_def open_read_def lib_call_def io_def split: option.split)

lemma open_write_within [prims]:
  "(\<And>s k. R s (s\<lparr>w_tick := k\<rparr>)) \<Longrightarrow> (\<And>s k. R s (set_file p [] (s\<lparr>w_tick := k\<rparr>))) \<Longrightarrow>
     within R (open_write e p)"
  by (auto simp: within_def open_write_def lib_call_def io_def)

lemma file_write_within [prims]:
  "(\<And>s k c. R s (set_file p c (s\<lparr>w_tick := k\<rparr>))) \<Longrightarrow> within R (file_write e p d)"
  by (auto simp: within_def file_write_def Let_def)

lemma file_close_within [prims]:
  "(\<And>s k. R s (s\<lparr>w_tick := k\<rparr>)) \<Longrightarrow> (\<And>s k c. R s (set_file p c (s\<lparr>w_tick := k\<rparr>))) \<Longrightarrow>
     within R (file_close e p)"
  by (auto simp: within_def file_close_def Let_def)

lemma unlink_within [prims]:
  "(\<And>s k. R s (s\<lparr>w_tick := k\<rparr>)) \<Longrightarrow> (\<And>s k. R s (del_file p (s\<lparr>w_tick := k\<rparr>))) \<Longrightarrow>
     within R (unlink e p)"
  by (auto simp: within_def unlink_def lib_call_def io_def)

lemma rename_within [prims]:
  "(\<And>s k. R s (s\<lparr>w_tick := k\<rparr>)) \<Longrightarrow>
   (\<And>s k c. R s (set_file q c (del_file p (s\<lparr>w_tick := k\<rparr>)))) \<Longrightarrow> within R (rename e p q)"
  by (auto simp: within_def rename_def lib_call_def io_def split: option.split)

lemma mkdir_within [prims]:
  "(\<And>s k. R s (s\<lparr>w_tick := k\<rparr>)) \<Longrightarrow> (\<And>s k d. R s (s\<lparr>w_tick := k, w_dirs := d\<rparr>)) \<Longrightarrow>
     within R (mkdir p)"
  by (auto simp: within_def mkdir_def lib_call_def io_def)

lemma rmdir_within [prims]:
  "(\<And>s k. R s (s\<lparr>w_tick := k\<rparr>)) \<Longrightarrow> (\<And>s k d. R s (s\<lparr>w_tick := k, w_dirs := d\<rparr>)) \<Longrightarrow>
     within R (rmdir p)"
  by (auto simp: within_def rmdir_def lib_call_def io_def)

text \<open>A relation between states of the program in which library calls are not visible.\<close>

locale env_frame = state_frame R for R :: "'r env_scheme \<Rightarrow> 'r env_scheme \<Rightarrow> bool" +
  assumes frame_tick: "R s (s\<lparr>w_tick := k\<rparr>)"
begin

lemma within_lib_call [simp, intro]: "within R (lib_call e)"
  by (rule lib_call_within) (rule frame_tick)

lemma within_lib_calls [simp, intro]: "within R (lib_calls n e)"
  by (rule lib_calls_within) (rule frame_tick)

lemma within_open_read [simp, intro]: "within R (open_read e p)"
  by (rule open_read_within) (rule frame_tick)

end

text \<open>\<dots> and one in which files and random numbers are not visible either.\<close>

locale file_frame = env_frame R for R :: "'r env_scheme \<Rightarrow> 'r env_scheme \<Rightarrow> bool" +
  assumes frame_rpos: "R s (s\<lparr>w_rpos := p\<rparr>)"
    and frame_files: "R s (s\<lparr>w_files := fs\<rparr>)"
    and frame_dirs: "R s (s\<lparr>w_dirs := d\<rparr>)"
begin

lemma frame_set_file: "R s (set_file p c (s\<lparr>w_tick := k\<rparr>))"
  unfolding set_file_def by (rule frame_trans [OF frame_tick frame_files])

lemma frame_del_file: "R s (del_file p (s\<lparr>w_tick := k\<rparr>))"
  unfolding del_file_def by (rule frame_trans [OF frame_tick frame_files])

lemma within_rand [simp, intro]: "within R (rand_bytes e n)"
  by (rule rand_bytes_within) (rule frame_trans [OF frame_tick frame_rpos])

lemma within_open_write [simp, intro]: "within R (open_write e p)"
  by (intro prims frame_tick frame_set_file)

lemma within_file_write [simp, intro]: "within R (file_write e p d)"
  by (intro prims frame_set_file)

lemma within_file_close [simp, intro]: "within R (file_close e p)"
  by (intro prims frame_tick frame_set_file)

lemma within_unlink [simp, intro]: "within R (unlink e p)"
  by (intro prims frame_tick frame_del_file)

lemma within_rename [simp, intro]: "within R (rename e p q)"
proof (intro prims frame_tick)
  fix s k c
  show "R s (set_file q c (del_file p (s\<lparr>w_tick := k\<rparr>)))"
    using frame_trans [OF frame_del_file frame_files] by (simp add: set_file_def)
qed

lemma within_mkdir [simp, intro]: "within R (mkdir p)"
  by (intro prims frame_tick frame_trans [OF frame_tick frame_dirs])

lemma within_rmdir [simp, intro]: "within R (rmdir p)"
  by (intro prims frame_tick frame_trans [OF frame_tick frame_dirs])

end

interpretation same_files: env_frame "\<lambda>s t. w_files s = w_files t"
  by unfold_locales auto

interpretation same_net: file_frame
  "\<lambda>s t. (w_rx s, w_plan s, w_tx s) = (w_rx t, w_plan t, w_tx t)"
  by unfold_locales auto

lemmas file_ops = open_read_def open_write_def file_write_def file_close_def unlink_def
  rename_def mkdir_def rmdir_def

end
