(* ===== verification/CLib.thy ===== *)
theory CLib
  imports World
begin

text \<open>
  The C library's string functions as the source uses them: \<open>strtok\<close>, \<open>strtol\<close>, \<open>fgets\<close>,
  \<open>strrchr\<close> and the \<open>%d\<close> and \<open>%s\<close> conversions.  Strings are byte lists without NUL.
\<close>

section \<open>Tokens\<close>

text \<open>
  One call of \<open>strtok\<close>: skip delimiters, take the token, and step over the delimiter that
  ended it.  The remainder is what the next call with a null first argument starts from.
\<close>

definition strtok :: "bytes \<Rightarrow> bytes \<Rightarrow> (bytes \<times> bytes) option" where
  "strtok delims s =
     (let s1 = dropWhile (\<lambda>c. c \<in> set delims) s in
      if s1 = [] then None
      else let tok = takeWhile (\<lambda>c. c \<notin> set delims) s1
           in Some (tok, drop (Suc (length tok)) s1))"

text \<open>\<open>n\<close> calls in a row, failing at the first null result, and what is left after them.\<close>

fun strtok_n :: "nat \<Rightarrow> bytes \<Rightarrow> bytes \<Rightarrow> (bytes list \<times> bytes) option" where
  "strtok_n 0 delims s = Some ([], s)"
| "strtok_n (Suc n) delims s =
     (case strtok delims s of
        None \<Rightarrow> None
      | Some (tok, r) \<Rightarrow> map_option (\<lambda>(toks, r'). (tok # toks, r')) (strtok_n n delims r))"

lemma strtok_token:
  assumes "strtok d s = Some (tok, r)"
  shows "tok \<noteq> [] \<and> set tok \<inter> set d = {} \<and> set tok \<subseteq> set s \<and> set r \<subseteq> set s \<and>
    length tok + length r \<le> length s \<and> (r \<noteq> [] \<longrightarrow> length tok + length r < length s)"
proof -
  let ?s1 = "dropWhile (\<lambda>c. c \<in> set d) s"
  let ?tok = "takeWhile (\<lambda>c. c \<notin> set d) ?s1"
  from assms have ne: "?s1 \<noteq> []" and t: "tok = ?tok" and r: "r = drop (Suc (length ?tok)) ?s1"
    by (auto simp: strtok_def Let_def split: if_splits)
  have "hd ?s1 \<notin> set d" using hd_dropWhile [OF ne] by simp
  then have "tok \<noteq> []" using ne unfolding t by (cases ?s1) auto
  moreover have "set tok \<inter> set d = {}" unfolding t by (auto dest: set_takeWhileD)
  moreover have sub: "set ?s1 \<subseteq> set s" by (auto dest: set_dropWhileD)
  moreover have "set tok \<subseteq> set ?s1" unfolding t by (auto dest: set_takeWhileD)
  moreover have "set r \<subseteq> set ?s1" unfolding r by (rule set_drop_subset)
  moreover have "length ?s1 \<le> length s" by (rule length_dropWhile_le)
  moreover have "length ?tok \<le> length ?s1" by (rule length_takeWhile_le)
  ultimately show ?thesis using t r by auto
qed

lemma strtok_first:
  assumes "tok \<noteq> []" and "set tok \<inter> set d = {}" and "c \<in> set d"
  shows "strtok d (tok @ c # r) = Some (tok, r)" and "strtok d tok = Some (tok, [])"
proof -
  obtain x xs where x: "tok = x # xs" using assms(1) by (cases tok) auto
  have nd: "x \<notin> set d" using x assms(2) by auto
  then have dw: "dropWhile (\<lambda>c. c \<in> set d) (tok @ c # r) = tok @ c # r"
    "dropWhile (\<lambda>c. c \<in> set d) tok = tok"
    using x by simp_all
  have tw: "takeWhile (\<lambda>c. c \<notin> set d) (tok @ c # r) = tok" "takeWhile (\<lambda>c. c \<notin> set d) tok = tok"
    using assms(2,3) by (induction tok) auto
  show "strtok d (tok @ c # r) = Some (tok, r)"
    unfolding strtok_def Let_def dw(1) tw(1) by simp
  show "strtok d tok = Some (tok, [])"
    unfolding strtok_def Let_def dw(2) tw(2) using assms(1) by simp
qed

lemma strtok_Nil [simp]: "strtok d [] = None"
  by (simp add: strtok_def)

lemma strtok_n_length: "strtok_n n d s = Some (toks, r) \<Longrightarrow> length toks = n"
  by (induction n d s arbitrary: toks r rule: strtok_n.induct) (auto split: option.splits)

text \<open>Tokens are non-empty, free of delimiters, and together with the delimiters between them
  no longer than the string.\<close>

lemma strtok_n_tokens:
  assumes "strtok_n n d s = Some (toks, r)"
  shows "(\<forall>t \<in> set toks. t \<noteq> [] \<and> set t \<inter> set d = {} \<and> set t \<subseteq> set s) \<and> set r \<subseteq> set s \<and>
    sum_list (map length toks) + (n - 1) + length r \<le> length s"
  using assms
proof (induction n d s arbitrary: toks r rule: strtok_n.induct)
  case (1 d s)
  then show ?case by simp
next
  case (2 n d s)
  from 2(2) obtain tok s1 ts where t: "strtok d s = Some (tok, s1)"
      "strtok_n n d s1 = Some (ts, r)" "toks = tok # ts"
    by (auto split: option.splits)
  note f = strtok_token [OF t(1)]
  from 2(1) [OF t(1) refl t(2)] have ih:
    "\<forall>t \<in> set ts. t \<noteq> [] \<and> set t \<inter> set d = {} \<and> set t \<subseteq> set s1" "set r \<subseteq> set s1"
    "sum_list (map length ts) + (n - 1) + length r \<le> length s1"
    by blast+
  have "sum_list (map length toks) + n + length r \<le> length s"
  proof (cases n)
    case 0
    with t f show ?thesis by auto
  next
    case (Suc m)
    with t(2) have "s1 \<noteq> []" by (auto split: option.splits)
    with f ih t Suc show ?thesis by auto
  qed
  moreover have "\<forall>t \<in> set ts. set t \<subseteq> set s" "set r \<subseteq> set s" using f ih by blast+
  ultimately show ?case using t f ih by simp
qed

section \<open>Numbers\<close>

definition isspace :: "byte \<Rightarrow> bool" where
  "isspace c \<longleftrightarrow> c = 32 \<or> (9 \<le> c \<and> c \<le> 13)"

definition isdigit :: "byte \<Rightarrow> bool" where
  "isdigit c \<longleftrightarrow> 48 \<le> c \<and> c \<le> 57"

definition LONG_MAX :: int where "LONG_MAX = 9223372036854775807"
definition LONG_MIN :: int where "LONG_MIN = - 9223372036854775808"

fun dec_value :: "int \<Rightarrow> bytes \<Rightarrow> int" where
  "dec_value acc [] = acc"
| "dec_value acc (c # cs) = dec_value (10 * acc + (uint c - 48)) cs"

text \<open>
  \<open>strtol(s, &end, 10)\<close>: the value, the unparsed rest, and whether the value is out of range
  (\<open>errno\<close> set to \<open>ERANGE\<close>).  Without a digit nothing is parsed.
\<close>

definition strtol :: "bytes \<Rightarrow> int \<times> bytes \<times> bool" where
  "strtol s =
     (let s1 = dropWhile isspace s;
          neg = (s1 \<noteq> [] \<and> hd s1 = 45);
          s2 = (if s1 \<noteq> [] \<and> (hd s1 = 45 \<or> hd s1 = 43) then tl s1 else s1);
          digits = takeWhile isdigit s2;
          n = dec_value 0 digits;
          v = (if neg then - n else n)
      in if digits = [] then (0, s, False)
         else (v, drop (length digits) s2, v < LONG_MIN \<or> LONG_MAX < v))"

text \<open>The \<open>%d\<close> conversion.\<close>

fun show_nat :: "nat \<Rightarrow> bytes" where
  "show_nat n = (if n < 10 then [of_nat (48 + n)] else show_nat (n div 10) @ [of_nat (48 + n mod 10)])"

declare show_nat.simps [simp del]

definition show_int :: "int \<Rightarrow> bytes" where
  "show_int i = (if i < 0 then 45 # show_nat (nat (- i)) else show_nat (nat i))"

lemma show_int_01: "show_int 0 = [48]" "show_int 1 = [49]"
  by (simp_all add: show_int_def show_nat.simps)

section \<open>Lines\<close>

text \<open>\<open>fgets\<close> with room for \<open>k\<close> characters: up to and including the first newline.\<close>

fun fgets :: "nat \<Rightarrow> bytes \<Rightarrow> bytes \<times> bytes" where
  "fgets 0 s = ([], s)"
| "fgets (Suc k) [] = ([], [])"
| "fgets (Suc k) (c # s) =
     (if c = newline then ([c], s) else case fgets k s of (l, r) \<Rightarrow> (c # l, r))"

lemma fgets_split: "fgets k s = (l, r) \<Longrightarrow> s = l @ r \<and> length l \<le> k"
  by (induction k s arbitrary: l r rule: fgets.induct) (auto split: if_splits prod.splits)

lemma fgets_shorter: "(l, r) = fgets (Suc k) s \<Longrightarrow> s \<noteq> [] \<Longrightarrow> length r < length s"
  by (cases s) (auto split: if_splits prod.splits dest!: fgets_split)

text \<open>
  Reading a file line by line into a buffer of \<open>Suc (Suc k)\<close> characters: each chunk as \<open>fgets\<close>
  stores it, read as a C string and cut at its newline.
\<close>

function read_lines :: "nat \<Rightarrow> bytes \<Rightarrow> bytes list" where
  "read_lines k s =
     (if s = [] then []
      else case fgets (Suc k) s of
        (l, r) \<Rightarrow> takeWhile (\<lambda>c. c \<noteq> newline) (cstr l) # read_lines k r)"
  by pat_completeness auto
termination
  by (relation "measure (\<lambda>(k, s). length s)") (auto simp del: fgets.simps dest: fgets_shorter)

declare read_lines.simps [simp del]

lemma read_lines_Nil [simp]: "read_lines k [] = []"
  by (simp add: read_lines.simps)

lemma read_lines_chars:
  assumes "l \<in> set (read_lines k s)"
  shows "newline \<notin> set l \<and> 0 \<notin> set l \<and> length l \<le> Suc k"
  using assms
proof (induction k s rule: read_lines.induct)
  case (1 k s)
  show ?case
  proof (cases "s = []")
    case True
    with "1.prems" show ?thesis by (simp add: read_lines.simps)
  next
    case False
    obtain a r where f: "fgets (Suc k) s = (a, r)" by fastforce
    show ?thesis
    proof (cases "l \<in> set (read_lines k r)")
      case True
      with 1(1) [OF False f [symmetric]] show ?thesis by simp
    next
      case nr: False
      with "1.prems" False f have l: "l = takeWhile (\<lambda>c. c \<noteq> newline) (cstr a)"
        by (simp add: read_lines.simps [of k s] del: fgets.simps)
      have "0 \<notin> set l" using cstr_no_nul [of a] by (auto simp: l dest: set_takeWhileD)
      moreover have "newline \<notin> set l" by (auto simp: l dest: set_takeWhileD)
      moreover have "length l \<le> Suc k"
        using fgets_split [OF f] length_cstr [of a] length_takeWhile_le [of "\<lambda>c. c \<noteq> newline" "cstr a"]
        by (simp add: l)
      ultimately show ?thesis by simp
    qed
  qed
qed

lemma fgets_line:
  "newline \<notin> set l \<Longrightarrow> length l < k \<Longrightarrow> fgets k (l @ newline # r) = (l @ [newline], r)"
proof (induction l arbitrary: k)
  case Nil
  then show ?case by (cases k) auto
next
  case (Cons a l)
  then show ?case by (cases k) auto
qed

lemma fgets_full: "newline \<notin> set l \<Longrightarrow> fgets (length l) (l @ r) = (l, r)"
  by (induction l) auto

text \<open>A line that fits into the buffer is read back as it was written.\<close>

lemma read_lines_line:
  assumes "newline \<notin> set l" and "0 \<notin> set l" and "length l \<le> k"
  shows "read_lines k (l @ newline # s) = l # read_lines k s"
proof -
  have f: "fgets (Suc k) (l @ newline # s) = (l @ [newline], s)"
    using assms by (intro fgets_line) auto
  have "cstr (l @ [newline]) = l @ [newline]" using assms(2) by (intro cstr_id) auto
  moreover have "takeWhile (\<lambda>c. c \<noteq> newline) (l @ [newline]) = l"
    using assms(1) by (induction l) auto
  ultimately show ?thesis
    by (subst read_lines.simps) (simp add: f del: fgets.simps)
qed

text \<open>A line that fills the buffer exactly leaves its newline for the next call.\<close>

lemma read_lines_full_line:
  assumes "newline \<notin> set l" and "0 \<notin> set l" and "length l = Suc k"
  shows "read_lines k (l @ newline # s) = l # [] # read_lines k s"
proof -
  have f: "fgets (Suc k) (l @ newline # s) = (l, newline # s)"
    using fgets_full [OF assms(1), of "newline # s"] assms(3) by simp
  have t: "takeWhile (\<lambda>c. c \<noteq> newline) l = l"
    using assms(1) by (induction l) auto
  have e: "read_lines k (newline # s) = [] # read_lines k s"
    using read_lines_line [of "[]" k s] by simp
  show ?thesis
    by (subst read_lines.simps) (simp add: f t e cstr_id [OF assms(2)] del: fgets.simps)
qed

section \<open>Paths\<close>

text \<open>Printed lines are read back, apart from empty chunks after lines that fill the buffer.\<close>

lemma read_lines_concat:
  assumes "\<forall>l \<in> set ls. newline \<notin> set l \<and> 0 \<notin> set l \<and> l \<noteq> [] \<and> length l \<le> Suc k"
  shows "filter (\<lambda>l. l \<noteq> []) (read_lines k (concat (map (\<lambda>l. l @ [newline]) ls))) = ls"
  using assms
proof (induction ls)
  case Nil
  show ?case by simp
next
  case (Cons l ls)
  let ?r = "concat (map (\<lambda>l. l @ [newline]) ls)"
  have "read_lines k (l @ newline # ?r) = l # read_lines k ?r \<or> read_lines k (l @ newline # ?r) = l # [] # read_lines k ?r"
    using Cons.prems read_lines_line [of l k ?r] read_lines_full_line [of l k ?r]
    by (cases "length l = Suc k") auto
  with Cons show ?case by auto
qed

text \<open>\<open>strrchr(s, c)\<close>: the suffix starting at the last occurrence of \<open>c\<close>.\<close>

definition strrchr :: "bytes \<Rightarrow> byte \<Rightarrow> bytes option" where
  "strrchr s c = (if c \<in> set s then Some (c # rev (takeWhile (\<lambda>d. d \<noteq> c) (rev s))) else None)"

end
