(* ===== verification/Hex.thy ===== *)
theory Hex
  imports CLib
begin

text \<open>
  The hexadecimal codec of \<^verbatim>\<open>server/auth.c\<close>, in which the account database stores salts and
  hashes.
\<close>

definition hex_digits :: bytes where
  "hex_digits = ascii ''0123456789abcdef''"

fun hex_pairs :: "bytes \<Rightarrow> bytes" where
  "hex_pairs [] = []"
| "hex_pairs (b # bs) =
     hex_digits ! unat (drop_bit 4 b AND 15) # hex_digits ! unat (b AND 15) # hex_pairs bs"

definition auth_hex_encode :: "bytes \<Rightarrow> nat \<Rightarrow> bytes option" where
  "auth_hex_encode input out_len =
     (if out_len < length input * 2 + 1 then None else Some (hex_pairs input))"

definition auth_hex_nibble :: "byte \<Rightarrow> byte option" where
  "auth_hex_nibble c =
     (if 48 \<le> c \<and> c \<le> 57 then Some (c - 48)
      else if 97 \<le> c \<and> c \<le> 102 then Some (10 + (c - 97))
      else if 65 \<le> c \<and> c \<le> 70 then Some (10 + (c - 65))
      else None)"

fun hex_unpairs :: "bytes \<Rightarrow> bytes option" where
  "hex_unpairs (h # l # cs) =
     (case (auth_hex_nibble h, auth_hex_nibble l) of
        (Some hi, Some lo) \<Rightarrow> map_option (\<lambda>bs. (push_bit 4 hi OR lo) # bs) (hex_unpairs cs)
      | _ \<Rightarrow> None)"
| "hex_unpairs _ = Some []"

definition auth_hex_decode :: "bytes \<Rightarrow> nat \<Rightarrow> bytes option" where
  "auth_hex_decode input out_len =
     (if length input \<noteq> out_len * 2 then None else hex_unpairs input)"

text \<open>The digits written are lower-case hexadecimal digits, and each reads back as its nibble.\<close>

definition is_hex :: "byte \<Rightarrow> bool" where
  "is_hex c \<longleftrightarrow> (48 \<le> c \<and> c \<le> 57) \<or> (97 \<le> c \<and> c \<le> 102)"

lemma nibble_cases:
  assumes "n < 16"
  shows "n \<in> {0, 1, 2, 3, 4, 5, 6, 7, 8, 9, 10, 11, 12, 13, 14, 15 :: nat}"
  using assms by simp presburger

lemma hex_digit_nibble: "n < 16 \<Longrightarrow> auth_hex_nibble (hex_digits ! n) = Some (of_nat n)"
  by (drule nibble_cases) (elim insertE emptyE; simp add: hex_digits_def ascii_def auth_hex_nibble_def)

lemma hex_digit_is_hex: "n < 16 \<Longrightarrow> is_hex (hex_digits ! n)"
  by (drule nibble_cases) (elim insertE emptyE; simp add: hex_digits_def ascii_def is_hex_def)

lemma nibble_bound: "unat (b AND 15 :: byte) < 16"
proof -
  have "b AND 15 \<le> 15" by (rule word_and_le1)
  then show ?thesis by (simp add: word_le_nat_alt)
qed

lemma nibbles_join: "push_bit 4 (drop_bit 4 b AND 15) OR (b AND 15) = (b :: byte)"
proof (rule bit_word_eqI)
  fix n assume n: "n < LENGTH(8)"
  have m: "(15 :: byte) = mask 4" by (simp add: mask_eq_exp_minus_1)
  show "bit (push_bit 4 (drop_bit 4 b AND 15) OR (b AND 15)) n = bit b n"
    using n unfolding m by (cases "n < 4") (auto simp: bit_simps)
qed

lemma length_hex_pairs [simp]: "length (hex_pairs bs) = 2 * length bs"
  by (induction bs) auto

lemma hex_pairs_is_hex: "c \<in> set (hex_pairs bs) \<Longrightarrow> is_hex c"
  by (induction bs) (auto intro: hex_digit_is_hex nibble_bound)

lemma hex_unpairs_pairs [simp]: "hex_unpairs (hex_pairs bs) = Some bs"
  by (induction bs) (simp_all add: hex_digit_nibble nibble_bound nibbles_join [simplified])

lemma hex_round_trip:
  "length bs = n \<Longrightarrow> 2 * n < m \<Longrightarrow>
     \<exists>h. auth_hex_encode bs m = Some h \<and> length h = 2 * n \<and> auth_hex_decode h n = Some bs"
  by (simp add: auth_hex_encode_def auth_hex_decode_def)

lemma hex_unpairs_length: "even (length h) \<Longrightarrow> hex_unpairs h = Some bs \<Longrightarrow> 2 * length bs = length h"
  by (induction h arbitrary: bs rule: hex_unpairs.induct) (auto split: option.splits)

lemma auth_hex_decode_length: "auth_hex_decode h n = Some bs \<Longrightarrow> length bs = n \<and> length h = 2 * n"
  using hex_unpairs_length [of h bs] by (auto simp: auth_hex_decode_def split: if_splits)

text \<open>Decoding accepts exactly the hexadecimal digits of either case.\<close>

lemma auth_hex_nibble_None:
  "auth_hex_nibble c = None \<longleftrightarrow>
     \<not> (48 \<le> c \<and> c \<le> 57) \<and> \<not> (97 \<le> c \<and> c \<le> 102) \<and> \<not> (65 \<le> c \<and> c \<le> 70)"
  by (auto simp: auth_hex_nibble_def)

lemma hex_unpairs_None:
  "even (length h) \<Longrightarrow> hex_unpairs h = None \<longleftrightarrow> (\<exists>c \<in> set h. auth_hex_nibble c = None)"
  by (induction h rule: hex_unpairs.induct) (auto split: option.splits)

end
