(* ===== verification/Net.thy ===== *)
theory Net
  imports World
begin

text \<open>
  \<^verbatim>\<open>common/net.c\<close>: transferring exactly so many bytes over the connected socket, and setting
  the connection up.  The kernel's behaviour on the socket is the event lists of the \<open>env\<close>;
  \<open>rx_stream\<close> is the byte stream they carry, and \<open>byte_source\<close> the contract of \<open>recv_all\<close> on
  which the frame readers of the other components rest: how the stream is cut into segments
  and where signals interrupt the calls makes no difference.
\<close>

section \<open>Sending\<close>

fun sys_send :: "nat \<Rightarrow> send_event list \<Rightarrow> send_event \<times> send_event list" where
  "sys_send n [] = (S_room n, [])"
| "sys_send n (S_room k # es) = (S_room (min k n), es)"
| "sys_send n (e # es) = (e, es)"

lemma sys_send_measure:
  "sys_send n es = (S_room k, es') \<Longrightarrow> length es' \<le> length es"
  "sys_send n es = (S_intr, es') \<Longrightarrow> length es' < length es"
  "sys_send n es = (S_room k, es') \<Longrightarrow> k \<le> n"
  by (induction n es rule: sys_send.induct) auto

text \<open>The loop: \<open>sent\<close> bytes of \<open>buf\<close> are out; \<open>tx\<close> is what the peer has been sent.\<close>

function send_loop ::
  "bytes \<Rightarrow> nat \<Rightarrow> send_event list \<Rightarrow> bytes \<Rightarrow> (errno + unit) \<times> send_event list \<times> bytes" where
  "send_loop buf sent es tx =
     (if sent < length buf then
        (case sys_send (length buf - sent) es of
           (S_intr, es') \<Rightarrow> send_loop buf sent es' tx
         | (S_err, es') \<Rightarrow> (Inl EOTHER, es', tx)
         | (S_room n, es') \<Rightarrow>
             if n = 0 then (Inl EIO, es', tx)
             else send_loop buf (sent + n) es' (tx @ take n (drop sent buf)))
      else (Inr (), es, tx))"
  by pat_completeness auto

termination
  by (relation "measure (\<lambda>(buf, sent, es, tx). (length buf - sent) + length es)")
     (auto dest!: sys_send_measure(2) [OF sym] sys_send_measure(1) [OF sym])

declare send_loop.simps [simp del]

definition send_all :: "int \<Rightarrow> bytes \<Rightarrow> ('r env_scheme, errno, unit) io" where
  "send_all fd buf =
     (if fd < 0 then raise EINVAL
      else (\<lambda>s. case send_loop buf 0 (w_plan s) (w_tx s) of
             (r, es, tx) \<Rightarrow> (r, s\<lparr>w_plan := es, w_tx := tx\<rparr>)))"

lemma send_loop_spec:
  assumes "sent \<le> length buf" and "send_loop buf sent es tx = (r, es', tx')"
  shows "\<exists>n. tx' = tx @ take n (drop sent buf) \<and> (r = Inr () \<longleftrightarrow> length buf \<le> sent + n)"
  using assms
proof (induction buf sent es tx arbitrary: r es' tx' rule: send_loop.induct)
  case (1 buf sent es tx)
  show ?case
  proof (cases "sent < length buf")
    case False
    with 1 show ?thesis by (auto simp: send_loop.simps [of buf "length buf"] intro: exI [of _ 0])
  next
    case less: True
    obtain e es1 where e: "sys_send (length buf - sent) es = (e, es1)" by fastforce
    note run = 1(4)[unfolded send_loop.simps [of buf sent es tx]]
    show ?thesis
    proof (cases e)
      case S_intr
      with less e run 1(1) [OF less e [symmetric] S_intr, of r es' tx'] 1(3)
      show ?thesis by simp
    next
      case S_err
      with less e run show ?thesis by (auto intro: exI [of _ 0])
    next
      case (S_room n)
      show ?thesis
      proof (cases "n = 0")
        case True
        with less e run S_room show ?thesis by (auto intro: exI [of _ 0])
      next
        case False
        have "n \<le> length buf - sent" using e S_room by (auto dest: sys_send_measure(3))
        with less have "sent + n \<le> length buf" by simp
        moreover have "send_loop buf (sent + n) es1 (tx @ take n (drop sent buf)) = (r, es', tx')"
          using less e run S_room False by simp
        ultimately obtain m where
          m: "tx' = (tx @ take n (drop sent buf)) @ take m (drop (sent + n) buf)"
            "r = Inr () \<longleftrightarrow> length buf \<le> sent + n + m"
          using 1(2) [OF less e [symmetric] S_room False] by blast
        then have "tx' = tx @ take (n + m) (drop sent buf)"
          by (simp add: take_add) (simp add: add.commute)
        with m(2) show ?thesis by (metis add.assoc)
      qed
    qed
  qed
qed

text \<open>Success delivers the whole buffer; a failure leaves a prefix of it sent.\<close>

lemma send_all_run:
  assumes "send_all fd buf s = (r, t)"
  shows "\<exists>n es. t = s\<lparr>w_plan := es, w_tx := w_tx s @ take n buf\<rparr> \<and>
           (r = Inr () \<longrightarrow> 0 \<le> fd \<and> length buf \<le> n) \<and> (0 \<le> fd \<longrightarrow> r \<noteq> Inr () \<longrightarrow> n < length buf)"
proof (cases "fd < 0")
  case True
  with assms show ?thesis
    by (auto simp: send_all_def io_inv intro!: exI [of _ 0] exI [of _ "w_plan s"])
next
  case False
  obtain r' es tx where l: "send_loop buf 0 (w_plan s) (w_tx s) = (r', es, tx)"
    using prod_cases3 by blast
  with send_loop_spec [OF _ l] obtain n where
    "tx = w_tx s @ take n buf" "r' = Inr () \<longleftrightarrow> length buf \<le> n" by auto
  with assms False l show ?thesis
    by (auto simp: send_all_def)
qed

lemma send_all_Inr: "send_all fd buf s = (Inr u, t) \<Longrightarrow> \<exists>es. t = s\<lparr>w_plan := es, w_tx := w_tx s @ buf\<rparr>"
  by (drule send_all_run) auto

lemma send_all_Inl:
  "send_all fd buf s = (Inl e, t) \<Longrightarrow> 0 \<le> fd \<Longrightarrow>
     \<exists>n es. n < length buf \<and> t = s\<lparr>w_plan := es, w_tx := w_tx s @ take n buf\<rparr>"
  by (drule send_all_run) auto

lemma send_all_nonneg: "send_all fd buf s = (Inr u, t) \<Longrightarrow> 0 \<le> fd"
  by (drule send_all_run) auto

lemma send_loop_room: "sent \<le> length buf \<Longrightarrow> send_loop buf sent [] tx = (Inr (), [], tx @ drop sent buf)"
  by (simp add: send_loop.simps [of buf sent] send_loop.simps [of buf "length buf"])

lemma send_all_room:
  "0 \<le> fd \<Longrightarrow> w_plan s = [] \<Longrightarrow> send_all fd buf s = (Inr (), s\<lparr>w_tx := w_tx s @ buf\<rparr>)"
  by (simp add: send_all_def send_loop_room)

section \<open>Receiving\<close>

fun sys_recv :: "nat \<Rightarrow> recv_event list \<Rightarrow> recv_event \<times> recv_event list" where
  "sys_recv n [] = (R_data [], [])"
| "sys_recv n (R_data d # es) =
     (R_data (take n d), if length d \<le> n then es else R_data (drop n d) # es)"
| "sys_recv n (e # es) = (e, es)"

lemma sys_recv_measure:
  "sys_recv n es = (R_data d, es') \<Longrightarrow> length es' \<le> length es"
  "sys_recv n es = (R_intr, es') \<Longrightarrow> length es' < length es"
  "sys_recv n es = (R_data d, es') \<Longrightarrow> length d \<le> n"
  by (induction n es rule: sys_recv.induct) (auto split: if_splits)

function recv_loop ::
  "nat \<Rightarrow> bytes \<Rightarrow> recv_event list \<Rightarrow> (errno + bytes) \<times> recv_event list" where
  "recv_loop len acc es =
     (if length acc < len then
        (case sys_recv (len - length acc) es of
           (R_intr, es') \<Rightarrow> recv_loop len acc es'
         | (R_err, es') \<Rightarrow> (Inl EOTHER, es')
         | (R_data d, es') \<Rightarrow>
             if d = [] then (Inl ECONNRESET, es') else recv_loop len (acc @ d) es')
      else (Inr acc, es))"
  by pat_completeness auto
termination
  by (relation "measure (\<lambda>(len, acc, es). (len - length acc) + length es)")
     (auto simp: neq_Nil_conv dest!: sys_recv_measure(2) [OF sym] sys_recv_measure(1) [OF sym])

declare recv_loop.simps [simp del]

definition recv_all :: "int \<Rightarrow> nat \<Rightarrow> ('r env_scheme, errno, bytes) io" where
  "recv_all fd len =
     (if fd < 0 then raise EINVAL
      else (\<lambda>s. case recv_loop len [] (w_rx s) of (r, es) \<Rightarrow> (r, s\<lparr>w_rx := es\<rparr>)))"

text \<open>The bytes that can still be read: the data up to the first error or end of stream.\<close>

fun rx_stream :: "recv_event list \<Rightarrow> bytes" where
  "rx_stream [] = []"
| "rx_stream (R_intr # es) = rx_stream es"
| "rx_stream (R_err # es) = []"
| "rx_stream (R_data d # es) = (if d = [] then [] else d @ rx_stream es)"

text \<open>Everything the socket may still hand over, errors or not: what the readers use up.\<close>

fun rx_size :: "recv_event list \<Rightarrow> nat" where
  "rx_size [] = 0"
| "rx_size (R_data d # es) = length d + rx_size es"
| "rx_size (e # es) = rx_size es"

lemma sys_recv_stream:
  "sys_recv n es = (R_intr, es') \<Longrightarrow> rx_stream es' = rx_stream es"
  "sys_recv n es = (R_err, es') \<Longrightarrow> rx_stream es = []"
  "0 < n \<Longrightarrow> sys_recv n es = (R_data d, es') \<Longrightarrow> d = [] \<Longrightarrow> rx_stream es = []"
  "0 < n \<Longrightarrow> sys_recv n es = (R_data d, es') \<Longrightarrow> d \<noteq> [] \<Longrightarrow> rx_stream es = d @ rx_stream es'"
  by (induction n es rule: sys_recv.induct) (auto split: if_splits)

lemma sys_recv_size:
  "sys_recv n es = (e, es') \<Longrightarrow> rx_size es' + (case e of R_data d \<Rightarrow> length d | _ \<Rightarrow> 0) = rx_size es"
  by (induction n es rule: sys_recv.induct) (auto split: if_splits)

lemma recv_loop_spec:
  assumes "length acc \<le> len"
  shows "(case recv_loop len acc es of
           (Inr b, es') \<Rightarrow> len \<le> length acc + length (rx_stream es) \<and>
              b = acc @ take (len - length acc) (rx_stream es) \<and>
              rx_stream es' = drop (len - length acc) (rx_stream es) \<and>
              rx_size es' + (len - length acc) = rx_size es
         | (Inl _, es') \<Rightarrow> length acc + length (rx_stream es) < len \<and> rx_size es' \<le> rx_size es)"
  using assms
proof (induction len acc es rule: recv_loop.induct)
  case (1 len acc es)
  show ?case
  proof (cases "length acc < len")
    case False
    with "1.prems" show ?thesis by (simp add: recv_loop.simps [of len acc])
  next
    case less: True
    obtain e es1 where e: "sys_recv (len - length acc) es = (e, es1)" by fastforce
    have pos: "0 < len - length acc" using less by simp
    note size = sys_recv_size [OF e]
    show ?thesis
    proof (cases e)
      case R_intr
      have st: "rx_stream es1 = rx_stream es"
        using e R_intr by (auto dest: sys_recv_stream(1))
      show ?thesis
        using 1(1) [OF less e [symmetric] R_intr "1.prems"] less e R_intr st size
        by (auto simp: recv_loop.simps [of len acc es] split: prod.splits sum.splits)
    next
      case R_err
      with less e size sys_recv_stream(2) [of "len - length acc" es es1] show ?thesis
        by (simp add: recv_loop.simps [of len acc es])
    next
      case (R_data d)
      show ?thesis
      proof (cases "d = []")
        case True
        with less e size R_data sys_recv_stream(3) [OF pos, of es d es1] show ?thesis
          by (simp add: recv_loop.simps [of len acc es])
      next
        case False
        have st: "rx_stream es = d @ rx_stream es1"
          using e R_data False sys_recv_stream(4) [OF pos, of es d es1] by simp
        have dl: "length d \<le> len - length acc"
          using e R_data by (auto dest: sys_recv_measure(3))
        then have "length (acc @ d) \<le> len" using less by simp
        from 1(2) [OF less e [symmetric] R_data False this] less e R_data False st size dl
        show ?thesis
          by (auto simp: recv_loop.simps [of len acc es] split: prod.splits sum.splits)
      qed
    qed
  qed
qed

text \<open>
  The contract of a source of bytes: \<open>pull n\<close> returns the next \<open>n\<close> pending bytes if there are
  that many and fails otherwise, and touches nothing but the source.
\<close>

locale byte_source =
  fixes pull :: "nat \<Rightarrow> ('s, 'e, bytes) io"
    and pending :: "'s \<Rightarrow> bytes"
    and rest :: "'s \<Rightarrow> 'o"
  assumes pull_enough: "n \<le> length (pending s) \<Longrightarrow>
      \<exists>t. pull n s = (Inr (take n (pending s)), t) \<and> pending t = drop n (pending s)"
    and pull_short: "length (pending s) < n \<Longrightarrow> \<exists>e t. pull n s = (Inl e, t)"
    and pull_rest: "pull n s = (r, t) \<Longrightarrow> rest t = rest s"
begin

lemma pull_exact:
  assumes "pending s = a @ b" and "length a = n"
  shows "\<exists>t. pull n s = (Inr a, t) \<and> pending t = b \<and> rest t = rest s"
  using pull_enough [of n s] assms by (auto dest: pull_rest)

lemma pull_Inr:
  assumes "pull n s = (Inr b, t)"
  shows "length b = n \<and> pending s = b @ pending t \<and> rest t = rest s"
proof -
  have "n \<le> length (pending s)"
    using assms pull_short [of s n] by (cases "n \<le> length (pending s)") auto
  from pull_enough [OF this] assms this show ?thesis
    by (auto dest: pull_rest simp: min_absorb2)
qed

text \<open>Two reads in a row are one read of both parts.\<close>

lemma pull_two:
  assumes "pull n s = (Inr a, t)" and "pull m t = (Inr b, u)"
  shows "\<exists>v. pull (n + m) s = (Inr (a @ b), v) \<and> pending v = pending u"
proof -
  have "pending s = (a @ b) @ pending u" "length (a @ b) = n + m"
    using pull_Inr [OF assms(1)] pull_Inr [OF assms(2)] by auto
  from pull_exact [OF this] show ?thesis by auto
qed

end

text \<open>The whole state but the receive side of the socket, and but both sides of it.\<close>

definition but_rx :: "'r env_scheme \<Rightarrow> 'r env_scheme" where
  "but_rx s = s\<lparr>w_rx := []\<rparr>"

definition pending_in :: "'r env_scheme \<Rightarrow> bytes" where
  "pending_in s = rx_stream (w_rx s)"

lemma recv_all_run:
  assumes "recv_all (int fd) n s = (r, t)"
  shows "but_rx t = but_rx s"
    and "rx_size (w_rx t) \<le> rx_size (w_rx s)"
    and "r = Inr b \<Longrightarrow> n \<le> length (pending_in s) \<and> b = take n (pending_in s) \<and>
           pending_in t = drop n (pending_in s) \<and> rx_size (w_rx t) + n = rx_size (w_rx s)"
    and "r = Inl e \<Longrightarrow> length (pending_in s) < n"
  using assms recv_loop_spec [of "[]" n "w_rx s"]
  by (auto simp: recv_all_def but_rx_def pending_in_def split: prod.splits sum.splits)

interpretation sock: byte_source "recv_all (int fd)" pending_in but_rx for fd :: nat
proof
  fix n and s :: "'a env_scheme"
  obtain r t where run: "recv_all (int fd) n s = (r, t)" by fastforce
  note spec = recv_all_run [OF run]
  show "n \<le> length (pending_in s) \<Longrightarrow>
      \<exists>t. recv_all (int fd) n s = (Inr (take n (pending_in s)), t) \<and>
          pending_in t = drop n (pending_in s)"
    using run spec by (cases r) auto
  show "length (pending_in s) < n \<Longrightarrow> \<exists>e t. recv_all (int fd) n s = (Inl e, t)"
    using run spec by (cases r) auto
qed (rule recv_all_run(1))

text \<open>A relation between states that only looks at other things than the socket.\<close>

lemma recv_all_within [prims]:
  assumes "\<And>s es. R s (s\<lparr>w_rx := es\<rparr>)"
  shows "within R (recv_all fd n)"
proof -
  have "R s s" for s using assms [of s "w_rx s"] by simp
  then show ?thesis
    by (auto simp: within_def recv_all_def io_def assms split: prod.split)
qed

lemma send_all_within [prims]:
  assumes "\<And>s es b. R s (s\<lparr>w_plan := es, w_tx := b\<rparr>)"
  shows "within R (send_all fd b)"
proof -
  have "R s s" for s using assms [of s "w_tx s" "w_plan s"] by simp
  then show ?thesis
    by (auto simp: within_def send_all_def io_def assms split: prod.split)
qed

text \<open>Invariants that say nothing about the socket and the random source.\<close>

locale net_frame = env_frame R for R :: "'r env_scheme \<Rightarrow> 'r env_scheme \<Rightarrow> bool" +
  assumes frame_rpos: "R s (s\<lparr>w_rpos := p\<rparr>)"
    and frame_rx: "R s (s\<lparr>w_rx := es\<rparr>)"
    and frame_tx: "R s (s\<lparr>w_plan := pl, w_tx := b\<rparr>)"
begin

lemma frame_tick_rpos: "R s (s\<lparr>w_tick := k, w_rpos := p\<rparr>)"
  by (rule frame_trans [OF frame_tick frame_rpos])

lemma frame_tick_rx: "R s (s\<lparr>w_tick := k, w_rx := es\<rparr>)"
  by (rule frame_trans [OF frame_tick frame_rx])

lemmas net_prims = recv_all_within send_all_within rand_bytes_within frame_tick_rpos frame_tick_rx
  frame_tx frame_rx

end

interpretation net_oracle: net_frame "\<lambda>s t. w_fault s = w_fault t"
  by unfold_locales auto

text \<open>No reader gives input back.\<close>

interpretation rx_shrinks: state_frame "\<lambda>s t. rx_size (w_rx t) \<le> rx_size (w_rx s)"
  by unfold_locales auto

lemma recv_all_shrinks: "within (\<lambda>s t. rx_size (w_rx t) \<le> rx_size (w_rx s)) (recv_all (int fd) n)"
  by (rule withinI) (rule recv_all_run(2))

lemma recv_all_bad_fd: "fd < 0 \<Longrightarrow> recv_all fd n s = (Inl EINVAL, s)"
  by (simp add: recv_all_def io_inv)

lemma send_all_bad_fd: "fd < 0 \<Longrightarrow> send_all fd b s = (Inl EINVAL, s)"
  by (simp add: send_all_def io_inv)

section \<open>Properties\<close>

text \<open>C38: Receiving exactly \<open>n\<close> bytes does not depend on how the data arrives.  If the connection
  delivers at least \<open>n\<close> bytes before an error or its end, \<open>recv_all\<close> returns the first \<open>n\<close> of
  them, whatever the segments and the interrupting signals, and the rest stays to be read;
  otherwise it fails.\<close>

theorem recv_all_exact:
  "(if n \<le> length (rx_stream (w_rx s))
    then \<exists>t. recv_all (int fd) n s = (Inr (take n (rx_stream (w_rx s))), t) \<and>
             rx_stream (w_rx t) = drop n (rx_stream (w_rx s)) \<and> t = s\<lparr>w_rx := w_rx t\<rparr>
    else \<exists>e t. recv_all (int fd) n s = (Inl e, t) \<and> t = s\<lparr>w_rx := w_rx t\<rparr>)"
proof -
  have rx: "t = s\<lparr>w_rx := w_rx t\<rparr>" if "but_rx t = but_rx s" for t :: "'a env_scheme"
    using that by (cases s; cases t) (simp add: but_rx_def)
  obtain r t where run: "recv_all (int fd) n s = (r, t)" by fastforce
  note t = rx [OF sock.pull_rest [OF run]]
  show ?thesis
  proof (cases "n \<le> length (rx_stream (w_rx s))")
    case True
    with sock.pull_enough [of n s fd] run have "r = Inr (take n (rx_stream (w_rx s)))"
      "rx_stream (w_rx t) = drop n (rx_stream (w_rx s))" by (auto simp: pending_in_def)
    with True run t show ?thesis by auto
  next
    case False
    with sock.pull_short [of s n fd] run obtain e where "r = Inl e" by (auto simp: pending_in_def)
    with False run t show ?thesis by auto
  qed
qed

text \<open>\<open>send_all\<close> either puts the whole buffer on the wire or reports an error after a prefix of
  it, whatever the partial writes and signals; it never repeats, drops or reorders a byte.\<close>

theorem send_all_prefix:
  "\<exists>r n es. send_all fd buf s = (r, s\<lparr>w_plan := es, w_tx := w_tx s @ take n buf\<rparr>) \<and>
     (r = Inr () \<longrightarrow> take n buf = buf)"
proof -
  obtain r t where run: "send_all fd buf s = (r, t)" by fastforce
  from send_all_run [OF run] obtain n es where
    "t = s\<lparr>w_plan := es, w_tx := w_tx s @ take n buf\<rparr>" "r = Inr () \<longrightarrow> length buf \<le> n" by blast
  with run show ?thesis by (intro exI [of _ r] exI [of _ n] exI [of _ es]) simp
qed

theorem send_all_prefix_witness:
  "\<exists>r n es. send_all 3 [1, 2, 3] (sample_env [] []) =
     (r, (sample_env [] [])\<lparr>w_plan := es, w_tx := w_tx (sample_env [] []) @ take n [1, 2, 3]\<rparr>) \<and>
     (r = Inr () \<longrightarrow> take n [1, 2, 3] = [1, 2, 3 :: byte])"
  by (rule send_all_prefix)

end
