(* ===== verification/Dsspacket.thy ===== *)
theory Dsspacket
  imports Net
begin

text \<open>
  \<^verbatim>\<open>common/dsspacket.h\<close> and \<^verbatim>\<open>common/dsspacket.c\<close>: the enumerations of the protocol, the packed
  packet header, the additional authenticated data computed from it, and sending and receiving
  a length-prefixed packet.  \<open>framed\<close> is the contract between a frame writer and a frame reader
  over a byte source; packets satisfy it here, handshake frames in \<open>Handshake\<close>.
\<close>

section \<open>Constants and enumerations\<close>

definition REQ_NONCE_LEN :: nat where "REQ_NONCE_LEN = 16"
definition DSSPACKET_AAD_LEN :: nat where "DSSPACKET_AAD_LEN = 20"
definition DSSPACKET_MAX_PAYLOAD_LEN :: "32 word" where
  "DSSPACKET_MAX_PAYLOAD_LEN = 10 * 1024 * 1024"

datatype dss_opcode =
  OP_AUTH | OP_CHANGE_PASSWORD | OP_CREATE_KEYS | OP_SIGN_DOC | OP_GET_PUBLIC_KEY
  | OP_DELETE_KEYS | OP_LOGOUT

fun opcode_val :: "dss_opcode \<Rightarrow> byte" where
  "opcode_val OP_AUTH = 0"
| "opcode_val OP_CHANGE_PASSWORD = 1"
| "opcode_val OP_CREATE_KEYS = 2"
| "opcode_val OP_SIGN_DOC = 3"
| "opcode_val OP_GET_PUBLIC_KEY = 4"
| "opcode_val OP_DELETE_KEYS = 5"
| "opcode_val OP_LOGOUT = 6"

text \<open>The enumerator a byte equals, if any: comparing a received byte with the enumerators.\<close>

definition opcode_of :: "byte \<Rightarrow> dss_opcode option" where
  "opcode_of b = find (\<lambda>op. opcode_val op = b)
     [OP_AUTH, OP_CHANGE_PASSWORD, OP_CREATE_KEYS, OP_SIGN_DOC, OP_GET_PUBLIC_KEY,
      OP_DELETE_KEYS, OP_LOGOUT]"

datatype dss_status =
  ST_OK | ST_ERR | ST_ERR_AUTH | ST_ERR_DELETED | ST_ERR_NOT_FOUND | ST_ERR_BAD_REQ
  | ST_ERR_INTERNAL

fun status_val :: "dss_status \<Rightarrow> 16 word" where
  "status_val ST_OK = 0"
| "status_val ST_ERR = 1"
| "status_val ST_ERR_AUTH = 2"
| "status_val ST_ERR_DELETED = 3"
| "status_val ST_ERR_NOT_FOUND = 4"
| "status_val ST_ERR_BAD_REQ = 5"
| "status_val ST_ERR_INTERNAL = 6"

lemma opcode_of_val [simp]: "opcode_of (opcode_val op) = Some op"
  by (cases op) (simp_all add: opcode_of_def)

lemma opcode_of_Some: "opcode_of b = Some op \<longleftrightarrow> b = opcode_val op"
  by (cases op) (auto simp: opcode_of_def split: if_splits)

lemma status_val_inject [simp]: "status_val a = status_val b \<longleftrightarrow> a = b"
  by (cases a; cases b) simp_all

datatype dss_error = ERR_INVALID_ARG | ERR_LENGTH | ERR_IO | ERR_OOM | ERR_PROTOCOL

section \<open>The packet header\<close>

text \<open>\<open>hdr_payload_len\<close> holds the length in network byte order, as the field does.\<close>

record dss_header =
  hdr_req_nonce :: bytes
  hdr_payload_len :: "32 word"

definition sizeof_dss_header :: nat where "sizeof_dss_header = 20"

text \<open>The packed struct in memory, and a received image read as the struct.\<close>

definition hdr_image :: "'p platform_scheme \<Rightarrow> dss_header \<Rightarrow> bytes" where
  "hdr_image P h = hdr_req_nonce h @ store32 P (hdr_payload_len h)"

definition hdr_of_image :: "'p platform_scheme \<Rightarrow> bytes \<Rightarrow> dss_header" where
  "hdr_of_image P b =
     \<lparr>hdr_req_nonce = take REQ_NONCE_LEN b, hdr_payload_len = load32 P (drop REQ_NONCE_LEN b)\<rparr>"

definition hdr_wf :: "dss_header \<Rightarrow> bool" where
  "hdr_wf h \<longleftrightarrow> length (hdr_req_nonce h) = REQ_NONCE_LEN"

lemma hdr_of_image_image: "hdr_wf h \<Longrightarrow> hdr_of_image P (hdr_image P h) = h"
  by (simp add: hdr_of_image_def hdr_image_def hdr_wf_def)

lemma hdr_image_of_image:
  "length b = sizeof_dss_header \<Longrightarrow>
     hdr_image P (hdr_of_image P b) = b \<and> hdr_wf (hdr_of_image P b)"
  by (simp add: hdr_of_image_def hdr_image_def hdr_wf_def sizeof_dss_header_def REQ_NONCE_LEN_def)

lemma length_hdr_image: "hdr_wf h \<Longrightarrow> length (hdr_image P h) = sizeof_dss_header"
  by (simp add: hdr_image_def hdr_wf_def sizeof_dss_header_def REQ_NONCE_LEN_def)

text \<open>
  The shifts act on the value of the field, which already is in network byte order.
\<close>

definition dsspacket_build_aad :: "dss_header \<Rightarrow> bytes" where
  "dsspacket_build_aad hdr =
     take REQ_NONCE_LEN (hdr_req_nonce hdr) @
     [ucast (drop_bit 24 (hdr_payload_len hdr) AND 255),
      ucast (drop_bit 16 (hdr_payload_len hdr) AND 255),
      ucast (drop_bit 8 (hdr_payload_len hdr) AND 255),
      ucast (hdr_payload_len hdr AND 255)]"

lemma build_aad_be32:
  "dsspacket_build_aad h = take REQ_NONCE_LEN (hdr_req_nonce h) @ be32 (hdr_payload_len h)"
  by (simp add: dsspacket_build_aad_def be32_def)

lemma length_build_aad: "hdr_wf h \<Longrightarrow> length (dsspacket_build_aad h) = DSSPACKET_AAD_LEN"
  by (simp add: build_aad_be32 hdr_wf_def REQ_NONCE_LEN_def DSSPACKET_AAD_LEN_def)

lemma build_aad_inject:
  assumes "hdr_wf g" and "hdr_wf h"
  shows "dsspacket_build_aad g = dsspacket_build_aad h \<longleftrightarrow> g = h"
  using assms by (cases g; cases h) (auto simp: build_aad_be32 hdr_wf_def)

lemma be32_htonl: "be32 (htonl P w) = (if little_endian P then rev (be32 w) else be32 w)"
  by (simp add: htonl_def load32_def)

section \<open>Packets\<close>

definition dsspacket_send ::
  "'p platform_scheme \<Rightarrow> int \<Rightarrow> dss_header \<Rightarrow> bytes option \<Rightarrow> ('r env_scheme, dss_error, unit) io"
where
  "dsspacket_send P fd hdr payload =
     (if fd < 0 then raise ERR_INVALID_ARG
      else let payload_len = ntohl P (hdr_payload_len hdr) in
      if payload_len > DSSPACKET_MAX_PAYLOAD_LEN then raise ERR_LENGTH
      else if 0 < payload_len \<and> payload = None then raise ERR_INVALID_ARG
      else if sizeof_dss_header + unat payload_len > 2 ^ 32 - 1 then raise ERR_LENGTH
      else let total_len = of_nat sizeof_dss_header + payload_len;
               total_len_be = htonl P total_len
      in then_io (or_raise ERR_IO (send_all fd (store32 P total_len_be)))
        (then_io (or_raise ERR_IO (send_all fd (hdr_image P hdr)))
        (if 0 < payload_len
         then or_raise ERR_IO (send_all fd (take (unat payload_len) (the payload)))
         else ret ())))"

definition dsspacket_recv ::
  "'p platform_scheme \<Rightarrow> int \<Rightarrow> ('r env_scheme, dss_error, dss_header \<times> bytes option) io" where
  "dsspacket_recv P fd =
     (if fd < 0 then raise ERR_INVALID_ARG
      else bind_io (or_raise ERR_IO (recv_all fd 4)) (\<lambda>b.
      let total_len = ntohl P (load32 P b) in
      if total_len < of_nat sizeof_dss_header then raise ERR_PROTOCOL
      else if total_len - of_nat sizeof_dss_header > DSSPACKET_MAX_PAYLOAD_LEN
      then raise ERR_LENGTH
      else bind_io (or_raise ERR_IO (recv_all fd sizeof_dss_header)) (\<lambda>hb.
      let hdr = hdr_of_image P hb; payload_len = ntohl P (hdr_payload_len hdr) in
      if payload_len > DSSPACKET_MAX_PAYLOAD_LEN then raise ERR_LENGTH
      else if of_nat sizeof_dss_header + payload_len \<noteq> total_len then raise ERR_PROTOCOL
      else if payload_len = 0 then ret (hdr, None)
      else then_io (lib_call ERR_OOM)
        (bind_io (or_raise ERR_IO (recv_all fd (unat payload_len)))
          (\<lambda>payload. ret (hdr, Some payload))))))"

text \<open>A packet on the wire.\<close>

definition packet_ok :: "'p platform_scheme \<Rightarrow> dss_header \<times> bytes option \<Rightarrow> bool" where
  "packet_ok P = (\<lambda>(h, p). hdr_wf h \<and>
     ntohl P (hdr_payload_len h) \<le> DSSPACKET_MAX_PAYLOAD_LEN \<and>
     (case p of None \<Rightarrow> ntohl P (hdr_payload_len h) = 0
      | Some d \<Rightarrow> d \<noteq> [] \<and> length d = unat (ntohl P (hdr_payload_len h))))"

definition packet_wire :: "'p platform_scheme \<Rightarrow> dss_header \<times> bytes option \<Rightarrow> bytes" where
  "packet_wire P = (\<lambda>(h, p). be32 (20 + ntohl P (hdr_payload_len h)) @ hdr_image P h @
     (case p of None \<Rightarrow> [] | Some d \<Rightarrow> d))"

lemma max_payload_unat: "unat DSSPACKET_MAX_PAYLOAD_LEN = 10485760"
  by (simp add: DSSPACKET_MAX_PAYLOAD_LEN_def)

lemma payload_bound: "w \<le> DSSPACKET_MAX_PAYLOAD_LEN \<Longrightarrow> unat w \<le> 10485760"
  by (simp add: word_le_nat_alt max_payload_unat)

lemma total_len_facts:
  assumes "w \<le> DSSPACKET_MAX_PAYLOAD_LEN"
  shows "unat (20 + w :: 32 word) = 20 + unat w" and "\<not> (20 + w :: 32 word) < 20"
    and "\<not> DSSPACKET_MAX_PAYLOAD_LEN < (20 + w :: 32 word) - 20"
proof -
  have "unat w + 20 < 2 ^ LENGTH(32)" using payload_bound [OF assms] by simp
  then show u: "unat (20 + w :: 32 word) = 20 + unat w"
    by (simp add: unat_word_ariths)
  then show "\<not> (20 + w :: 32 word) < 20" by (simp add: word_less_nat_alt)
  show "\<not> DSSPACKET_MAX_PAYLOAD_LEN < (20 + w :: 32 word) - 20" using assms by simp
qed

lemma dsspacket_send_Inr:
  assumes ok: "packet_ok P (h, p)" and run: "dsspacket_send P fd h p s = (Inr u, t)"
  shows "0 \<le> fd \<and> (\<exists>es. t = s\<lparr>w_plan := es, w_tx := w_tx s @ packet_wire P (h, p)\<rparr>)"
proof -
  from run have fd: "0 \<le> fd" by (auto simp: dsspacket_send_def io_inv split: if_splits)
  from run ok fd show ?thesis
    by (auto simp: dsspacket_send_def packet_ok_def packet_wire_def io_inv sizeof_dss_header_def
        Let_def word_gt_0 dest!: send_all_Inr split: if_splits option.splits)
qed

text \<open>A failing send leaves a proper beginning of the packet on the wire.\<close>

lemma dsspacket_send_Inl:
  assumes ok: "packet_ok P (h, p)" and "0 \<le> fd" and run: "dsspacket_send P fd h p s = (Inl e, t)"
  shows "\<exists>n. n < length (packet_wire P (h, p)) \<and> w_tx t = w_tx s @ take n (packet_wire P (h, p))"
proof -
  let ?w = "ntohl P (hdr_payload_len h)"
  define a where "a = be32 (20 + ?w)"
  define b where "b = hdr_image P h"
  define d where "d = (case p of None \<Rightarrow> [] | Some d \<Rightarrow> d)"
  have wire: "packet_wire P (h, p) = a @ b @ d" by (simp add: packet_wire_def a_def b_def d_def)
  have w: "\<not> DSSPACKET_MAX_PAYLOAD_LEN < ?w" using ok by (simp add: packet_ok_def not_less)
  then have n: "\<not> 2 ^ 32 - 1 < sizeof_dss_header + unat ?w"
    using payload_bound [of ?w] by (simp add: sizeof_dss_header_def not_less)
  have d: "0 < ?w \<Longrightarrow> take (unat ?w) (the p) = d" "\<not> 0 < ?w \<Longrightarrow> d = []" "\<not> (0 < ?w \<and> p = None)"
    using ok by (auto simp: packet_ok_def d_def word_gt_0 split: option.splits)
  have "dsspacket_send P fd h p s = then_io (or_raise ERR_IO (send_all fd a)) (then_io (or_raise ERR_IO (send_all fd b))
      (if 0 < ?w then or_raise ERR_IO (send_all fd d) else ret ())) s"
    using assms(2) w n d(1,3) by (auto simp: dsspacket_send_def Let_def a_def b_def sizeof_dss_header_def)
  with run consider (a) f where "send_all fd a s = (Inl f, t)"
    | (b) s1 f where "send_all fd a s = (Inr (), s1)" "send_all fd b s1 = (Inl f, t)"
    | (d) s1 s2 f where "send_all fd a s = (Inr (), s1)" "send_all fd b s1 = (Inr (), s2)" "send_all fd d s2 = (Inl f, t)"
    by (auto simp: io_inv split: if_splits)
  then show ?thesis
  proof cases
    case a
    from send_all_Inl [OF a assms(2)] obtain n where "n < length a" "w_tx t = w_tx s @ take n a" by auto
    then show ?thesis unfolding wire by (intro exI [of _ n]) simp
  next
    case b
    from send_all_Inl [OF b(2) assms(2)] send_all_Inr [OF b(1)] obtain n where
      "n < length b" "w_tx t = w_tx s @ a @ take n b" by auto
    then show ?thesis unfolding wire by (intro exI [of _ "length a + n"]) simp
  next
    case d
    from send_all_Inl [OF d(3) assms(2)] send_all_Inr [OF d(1)] send_all_Inr [OF d(2)] obtain n where
      "n < length d" "w_tx t = w_tx s @ a @ b @ take n d" by auto
    then show ?thesis unfolding wire by (intro exI [of _ "length a + length b + n"]) simp
  qed
qed

lemma dsspacket_send_room:
  assumes ok: "packet_ok P (h, p)" and "0 \<le> fd" and "w_plan s = []"
  shows "dsspacket_send P fd h p s = (Inr (), s\<lparr>w_tx := w_tx s @ packet_wire P (h, p)\<rparr>)"
proof -
  let ?w = "ntohl P (hdr_payload_len h)"
  have w: "\<not> DSSPACKET_MAX_PAYLOAD_LEN < ?w" using ok by (simp add: packet_ok_def not_less)
  then have n: "\<not> 2 ^ 32 - 1 < sizeof_dss_header + unat ?w"
    using payload_bound [of ?w] by (simp add: sizeof_dss_header_def not_less)
  have p: "p = None \<and> ?w = 0 \<or> (\<exists>d. p = Some d \<and> 0 < ?w \<and> length d = unat ?w)"
    using ok by (cases p) (auto simp: packet_ok_def word_gt_0)
  have room: "send_all fd b v = (Inr (), v\<lparr>w_tx := w_tx v @ b\<rparr>)"
    if "w_plan v = []" for v :: "'r env_scheme" and b
    using assms(2) that by (rule send_all_room)
  from p show ?thesis
  proof (elim disjE conjE exE)
    assume "p = None" "?w = 0"
    with w n assms(2,3) show ?thesis
      by (simp add: dsspacket_send_def Let_def io_def room packet_wire_def sizeof_dss_header_def)
  next
    fix d assume "p = Some d" "0 < ?w" "length d = unat ?w"
    with w n assms(2,3) show ?thesis
      by (simp add: dsspacket_send_def Let_def io_def room packet_wire_def sizeof_dss_header_def)
  qed
qed

section \<open>Frames over a byte source\<close>

locale framed =
  fixes receive :: "('s, 'e, 'a) io"
    and wire :: "'a \<Rightarrow> bytes"
    and ok :: "'a \<Rightarrow> bool"
    and incoming :: "'s \<Rightarrow> bytes"
    and ready :: "'s \<Rightarrow> bool"
  assumes receive_wire:
      "ok x \<Longrightarrow> ready s \<Longrightarrow> incoming s = wire x @ b \<Longrightarrow>
         \<exists>t. receive s = (Inr x, t) \<and> incoming t = b \<and> ready t"
    and receive_sound:
      "receive s = (Inr x, t) \<Longrightarrow> ok x \<and> incoming s = wire x @ incoming t"
    and source: "\<exists>s. ready s \<and> incoming s = b"
begin

text \<open>Frames sent in a row are received in that order, whatever follows them.\<close>

lemma receive_all:
  assumes "\<forall>x \<in> set xs. ok x" and "ready s" and "incoming s = concat (map wire xs) @ b"
  shows "\<exists>t. repeat_io (length xs) receive s = (Inr xs, t) \<and> incoming t = b \<and> ready t"
  using assms
proof (induction xs arbitrary: s)
  case Nil
  then show ?case by (simp add: ret_run)
next
  case (Cons x xs)
  then obtain t where t: "receive s = (Inr x, t)"
      "incoming t = concat (map wire xs) @ b" "ready t"
    using receive_wire [of x s "concat (map wire xs) @ b"] by auto
  with Cons obtain v where "repeat_io (length xs) receive t = (Inr xs, v)" "incoming v = b" "ready v"
    by auto
  with t show ?case by (simp add: bind_io_ok ret_run)
qed

text \<open>No frame is the beginning of another: the wire format is uniquely decodable.\<close>

lemma wire_prefix_free:
  assumes "ok x" and "ok y" and "wire x @ a = wire y @ b"
  shows "x = y \<and> a = b"
proof -
  obtain s where s: "ready s" "incoming s = wire x @ a" using source by blast
  from receive_wire [OF assms(1) s] obtain t where
    t: "receive s = (Inr x, t)" "incoming t = a" by blast
  have "incoming s = wire y @ b" using s(2) assms(3) by (rule trans)
  from receive_wire [OF assms(2) s(1) this] obtain v where
    "receive s = (Inr y, v)" "incoming v = b" by blast
  with t show ?thesis by simp
qed

lemma wire_inject: "ok x \<Longrightarrow> ok y \<Longrightarrow> wire x = wire y \<Longrightarrow> x = y"
  using wire_prefix_free [of x y "[]" "[]"] by simp

end

lemma but_rx_calm: "but_rx t = but_rx s \<Longrightarrow> calm t = calm s"
proof -
  have "calm (but_rx v) = calm v" for v :: "'r env_scheme" by (simp add: but_rx_def)
  then show "but_rx t = but_rx s \<Longrightarrow> calm t = calm s" by metis
qed

lemma pending_in_tick [simp]: "pending_in (s\<lparr>w_tick := k\<rparr>) = pending_in s"
  by (simp add: pending_in_def)

lemma pending_source: "\<exists>s :: 'r env_scheme. calm s \<and> pending_in s = b"
proof -
  fix r :: "'r env_scheme"
  let ?s = "r\<lparr>w_fault := (\<lambda>_. False), w_rx := [R_data b]\<rparr>"
  have "calm ?s \<and> pending_in ?s = b" by (simp add: calm_def pending_in_def)
  then show ?thesis by blast
qed

lemma dsspacket_recv_wire:
  assumes ok: "packet_ok P (h, p)" and c: "calm s" and inc: "pending_in s = packet_wire P (h, p) @ b"
  shows "\<exists>t. dsspacket_recv P (int fd) s = (Inr (h, p), t) \<and> pending_in t = b \<and> calm t"
proof -
  let ?w = "ntohl P (hdr_payload_len h)"
  let ?d = "case p of None \<Rightarrow> [] | Some d \<Rightarrow> d"
  from ok have h: "hdr_wf h" "?w \<le> DSSPACKET_MAX_PAYLOAD_LEN" by (auto simp: packet_ok_def)
  obtain s1 where s1: "recv_all (int fd) 4 s = (Inr (be32 (20 + ?w)), s1)"
      "pending_in s1 = hdr_image P h @ ?d @ b" "calm s1"
    using sock.pull_exact [of s "be32 (20 + ?w)" "hdr_image P h @ ?d @ b" 4] inc c
    by (fastforce simp: packet_wire_def dest: but_rx_calm)
  obtain s2 where s2: "recv_all (int fd) sizeof_dss_header s1 = (Inr (hdr_image P h), s2)"
      "pending_in s2 = ?d @ b" "calm s2"
    using sock.pull_exact [of s1 "hdr_image P h" "?d @ b" sizeof_dss_header] s1
    by (fastforce simp: length_hdr_image [OF h(1)] dest: but_rx_calm)
  show ?thesis
  proof (cases p)
    case None
    with ok s1 s2 h total_len_facts [OF h(2)] show ?thesis
      by (simp add: dsspacket_recv_def io_def Let_def ntohl_load32 hdr_of_image_image
          sizeof_dss_header_def packet_ok_def)
  next
    case (Some d)
    with ok have d: "length d = unat ?w" "d \<noteq> []" "?w \<noteq> 0"
      by (auto simp: packet_ok_def)
    let ?s3 = "s2\<lparr>w_tick := Suc (w_tick s2)\<rparr>"
    have "pending_in ?s3 = d @ b" using s2(2) Some by simp
    from sock.pull_exact [OF this d(1)] s2(3) obtain s4 where
      s4: "recv_all (int fd) (unat ?w) ?s3 = (Inr d, s4)" "pending_in s4 = b" "calm s4"
      by (fastforce dest: but_rx_calm)
    with Some s1 s2 h d total_len_facts [OF h(2)] show ?thesis
      by (simp add: dsspacket_recv_def io_def Let_def ntohl_load32 hdr_of_image_image
          sizeof_dss_header_def not_less)
  qed
qed

lemma dsspacket_recv_sound:
  assumes "dsspacket_recv P (int fd) s = (Inr x, t)"
  shows "packet_ok P x \<and> pending_in s = packet_wire P x @ pending_in t"
proof -
  obtain h p where x: "x = (h, p)" by fastforce
  from assms obtain b s1 hb s2 where
    b: "recv_all (int fd) 4 s = (Inr b, s1)" and
    hb: "recv_all (int fd) sizeof_dss_header s1 = (Inr hb, s2)" and
    h: "h = hdr_of_image P hb" and
    len: "ntohl P (hdr_payload_len h) \<le> DSSPACKET_MAX_PAYLOAD_LEN"
      "20 + ntohl P (hdr_payload_len h) = ntohl P (load32 P b)" and
    p: "(ntohl P (hdr_payload_len h) = 0 \<and> p = None \<and> t = s2) \<or>
        (ntohl P (hdr_payload_len h) \<noteq> 0 \<and> (\<exists>d s3. lib_call ERR_OOM s2 = (Inr (), s3) \<and>
          recv_all (int fd) (unat (ntohl P (hdr_payload_len h))) s3 = (Inr d, t) \<and> p = Some d))"
    unfolding x by (auto simp: dsspacket_recv_def io_inv Let_def sizeof_dss_header_def not_less
        split: if_splits)
  note b' = sock.pull_Inr [OF b] and hb' = sock.pull_Inr [OF hb]
  have wf: "hdr_wf h" "hdr_image P h = hb"
    using hdr_image_of_image [of hb P] hb' h by auto
  have tot: "be32 (20 + ntohl P (hdr_payload_len h)) = b"
    using b' len(2) by (simp add: ntohl_load32)
  from p show ?thesis
  proof (elim disjE conjE exE)
    assume "ntohl P (hdr_payload_len h) = 0" "p = None" "t = s2"
    with b' hb' wf tot show ?thesis by (auto simp: x packet_ok_def packet_wire_def)
  next
    fix d s3
    assume n: "ntohl P (hdr_payload_len h) \<noteq> 0" and l: "lib_call ERR_OOM s2 = (Inr (), s3)"
      and r: "recv_all (int fd) (unat (ntohl P (hdr_payload_len h))) s3 = (Inr d, t)"
      and "p = Some d"
    have "pending_in s3 = pending_in s2" using lib_call_run [OF l] by simp
    with sock.pull_Inr [OF r] b' hb' wf tot n len(1) \<open>p = Some d\<close> show ?thesis
      by (auto simp: x packet_ok_def packet_wire_def unat_eq_0)
  qed
qed

interpretation packet: framed "dsspacket_recv P (int fd)" "packet_wire P" "packet_ok P"
    pending_in calm for P and fd :: nat
proof
  fix x and s :: "'b env_scheme" and b
  show "packet_ok P x \<Longrightarrow> calm s \<Longrightarrow> pending_in s = packet_wire P x @ b \<Longrightarrow>
     \<exists>t. dsspacket_recv P (int fd) s = (Inr x, t) \<and> pending_in t = b \<and> calm t"
    using dsspacket_recv_wire by (cases x) blast
qed (use dsspacket_recv_sound pending_source in blast)+

text \<open>A proper beginning of a packet is not received.\<close>

lemma partial_packet:
  assumes "packet_ok P y" and "n < length (packet_wire P y)" and "pending_in s = take n (packet_wire P y)"
  shows "dsspacket_recv P (int fd) s \<noteq> (Inr x, t)"
proof
  assume "dsspacket_recv P (int fd) s = (Inr x, t)"
  from dsspacket_recv_sound [OF this] assms(3) have x: "packet_ok P x"
    "packet_wire P x @ pending_in t = take n (packet_wire P y)" by auto
  then have "packet_wire P x @ (pending_in t @ drop n (packet_wire P y)) = packet_wire P y @ []"
    by (metis append.assoc append_Nil2 append_take_drop_id)
  from packet.wire_prefix_free [OF x(1) assms(1) this] assms(2) show False by simp
qed

text \<open>What receiving a packet leaves alone, and that every received packet uses up input.\<close>

context env_frame
begin

lemma dsspacket_recv_within:
  assumes R: "\<And>s k es. R s (s\<lparr>w_tick := k, w_rx := es\<rparr>)"
  shows "within R (dsspacket_recv P fd)"
proof -
  have 1: "R s (s\<lparr>w_tick := k\<rparr>)" for s k using R [of s "w_rx s" k] by simp
  have 2: "R s (s\<lparr>w_rx := es\<rparr>)" for s es using R [of s es "w_tick s"] by simp
  show ?thesis
    unfolding dsspacket_recv_def Let_def
    by (intro prims within_if within_bind within_then within_or_raise 1 2) auto
qed

lemma dsspacket_send_within:
  assumes R: "\<And>s es b. R s (s\<lparr>w_plan := es, w_tx := b\<rparr>)"
  shows "within R (dsspacket_send P fd h p)"
  unfolding dsspacket_send_def Let_def
  by (intro prims within_if within_bind within_then within_or_raise R) auto

end

lemma dsspacket_recv_shrinks:
  "within (\<lambda>s t. rx_size (w_rx t) \<le> rx_size (w_rx s)) (dsspacket_recv P (int fd))"
  unfolding dsspacket_recv_def Let_def
  by (intro rx_shrinks.within_if rx_shrinks.within_bind rx_shrinks.within_then
      rx_shrinks.within_or_raise recv_all_shrinks prims) auto

text \<open>Every packet received takes at least its length prefix and its header from the socket.\<close>

lemma dsspacket_recv_consumes:
  assumes "dsspacket_recv P (int fd) s = (Inr x, t)"
  shows "rx_size (w_rx t) + 24 \<le> rx_size (w_rx s)"
proof -
  from assms obtain b s1 hb s2 where
    b: "recv_all (int fd) 4 s = (Inr b, s1)" and
    hb: "recv_all (int fd) sizeof_dss_header s1 = (Inr hb, s2)" and
    m: "t = s2 \<or> (\<exists>s3 d n. lib_call ERR_OOM s2 = (Inr (), s3) \<and>
          recv_all (int fd) n s3 = (Inr d, t))"
    by (auto simp: dsspacket_recv_def io_inv Let_def split: if_splits) blast
  have "rx_size (w_rx t) \<le> rx_size (w_rx s2)"
    using m by (auto dest!: lib_call_run recv_all_run(2))
  with recv_all_run(3) [OF b refl] recv_all_run(3) [OF hb refl] show ?thesis
    by (simp add: sizeof_dss_header_def)
qed

section \<open>Properties\<close>

lemma each_send_Inr:
  assumes "\<forall>x \<in> set ps. packet_ok P x"
    and "each_io (\<lambda>(h, p). dsspacket_send P fd h p) ps s = (Inr u, t)"
  shows "w_tx t = w_tx s @ concat (map (packet_wire P) ps)"
  using assms
proof (induction ps arbitrary: s)
  case Nil
  then show ?case by (simp add: io_inv)
next
  case (Cons x ps)
  obtain h p where x: "x = (h, p)" by fastforce
  from Cons.prems(2) obtain v where v: "dsspacket_send P fd h p s = (Inr (), v)"
    "each_io (\<lambda>(h, p). dsspacket_send P fd h p) ps v = (Inr u, t)" by (auto simp: x io_inv)
  have "packet_ok P (h, p)" using Cons.prems(1) x by simp
  from dsspacket_send_Inr [OF this v(1)] Cons.IH [OF _ v(2)] Cons.prems(1) show ?case
    by (auto simp: x)
qed

text \<open>C22: Packets round trip in sequence.  Whatever valid packets are sent one after another, over
  any pattern of partial writes, are received as the same packets in the same order, over any
  segmentation of the stream, and exactly their bytes are used up.\<close>

theorem packets_round_trip:
  assumes "\<forall>x \<in> set ps. packet_ok P x"
    and "each_io (\<lambda>(h, p). dsspacket_send P fd h p) ps s = (Inr u, t)" and "w_tx s = []"
    and "calm r" and "pending_in r = w_tx t @ b"
  shows "\<exists>r'. repeat_io (length ps) (dsspacket_recv P (int fd')) r = (Inr ps, r') \<and> pending_in r' = b"
proof -
  have "pending_in r = concat (map (packet_wire P) ps) @ b"
    using each_send_Inr [OF assms(1,2)] assms(3,5) by simp
  from packet.receive_all [OF assms(1,4) this] show ?thesis by blast
qed

definition sample_packets :: "(dss_header \<times> bytes option) list" where
  "sample_packets =
     [(\<lparr>hdr_req_nonce = replicate 16 1, hdr_payload_len = htonl sample_platform 2\<rparr>, Some [8, 9]),
      (\<lparr>hdr_req_nonce = replicate 16 2, hdr_payload_len = htonl sample_platform 0\<rparr>, None)]"

lemma sample_packets_ok: "\<forall>x \<in> set sample_packets. packet_ok sample_platform x"
  by (simp add: sample_packets_def packet_ok_def hdr_wf_def REQ_NONCE_LEN_def DSSPACKET_MAX_PAYLOAD_LEN_def)

theorem packets_round_trip_witness:
  "\<exists>t r r'. each_io (\<lambda>(h, p). dsspacket_send sample_platform 3 h p) sample_packets (sample_env [] []) = (Inr (), t) \<and>
     r = sample_env [] [R_data (w_tx t @ [7])] \<and>
     repeat_io (length sample_packets) (dsspacket_recv sample_platform (int 4)) r = (Inr sample_packets, r') \<and>
     pending_in r' = [7]"
proof -
  have room: "packet_ok sample_platform (h, p) \<Longrightarrow> w_plan s = [] \<Longrightarrow>
      dsspacket_send sample_platform 3 h p s =
        (Inr (), s\<lparr>w_tx := w_tx s @ packet_wire sample_platform (h, p)\<rparr>)" for h p and s :: env
    by (rule dsspacket_send_room) auto
  have "w_plan (sample_env [] []) = []" by (simp add: sample_env_def)
  then obtain t where
    t: "each_io (\<lambda>(h, p). dsspacket_send sample_platform 3 h p) sample_packets (sample_env [] []) = (Inr (), t)"
    using sample_packets_ok by (simp add: sample_packets_def room io_def)
  let ?r = "sample_env [] [R_data (w_tx t @ [7])]"
  have r: "calm ?r" "pending_in ?r = w_tx t @ [7]" "w_tx (sample_env [] []) = []"
    by (simp_all add: sample_env_def calm_def pending_in_def)
  from packets_round_trip [OF sample_packets_ok t r(3,1,2), of 4] t show ?thesis by blast
qed

text \<open>The packet reader accepts exactly the wire format.  In a working environment
  \<open>dsspacket_recv\<close> returns a packet if and only if the stream begins with the image of that packet:
  a total length, a 20-byte header whose length field agrees with it, and a payload of at most
  10 MiB of that length.\<close>

theorem dsspacket_recv_accepts:
  assumes "calm s"
  shows "(\<exists>t. dsspacket_recv P (int fd) s = (Inr x, t)) \<longleftrightarrow>
    packet_ok P x \<and> (\<exists>b. pending_in s = packet_wire P x @ b)"
  using packet.receive_sound [of P fd s x] packet.receive_wire [of P x s _ fd] assms by blast

theorem dsspacket_recv_accepts_witness:
  "\<exists>t. dsspacket_recv sample_platform (int 4)
       (sample_env [] [R_data (packet_wire sample_platform (hd sample_packets))]) = (Inr (hd sample_packets), t)"
proof -
  let ?s = "sample_env [] [R_data (packet_wire sample_platform (hd sample_packets))]"
  have c: "calm ?s" by (simp add: sample_env_def calm_def)
  have "pending_in ?s = packet_wire sample_platform (hd sample_packets) @ []"
    by (simp add: sample_env_def pending_in_def)
  moreover have "packet_ok sample_platform (hd sample_packets)"
    using sample_packets_ok by (simp add: sample_packets_def)
  ultimately show ?thesis
    using dsspacket_recv_accepts [OF c, of sample_platform 4 "hd sample_packets"] by blast
qed

text \<open>The additional authenticated data binds the whole header: two headers with the same
  additional data are the same header.\<close>

theorem aad_binds_header:
  assumes "hdr_wf g" and "hdr_wf h"
  shows "dsspacket_build_aad g = dsspacket_build_aad h \<longleftrightarrow> g = h"
  using assms by (rule build_aad_inject)

theorem aad_binds_header_witness:
  "let g = \<lparr>hdr_req_nonce = replicate 16 1, hdr_payload_len = 5\<rparr>; h = g\<lparr>hdr_payload_len := 6\<rparr>
   in dsspacket_build_aad g \<noteq> dsspacket_build_aad h"
proof -
  let ?g = "\<lparr>hdr_req_nonce = replicate 16 1, hdr_payload_len = 5\<rparr>"
  have "hdr_wf ?g" "hdr_wf (?g\<lparr>hdr_payload_len := 6\<rparr>)" by (simp_all add: hdr_wf_def REQ_NONCE_LEN_def)
  from aad_binds_header [OF this] show ?thesis by (simp add: Let_def)
qed

text \<open>The length in the additional authenticated data is in network byte order on a big-endian
  host only.  The shifts of \<open>dsspacket_build_aad\<close> take the field apart as if it held the length
  itself, so on a little-endian host the four bytes come out reversed, and hosts of different
  byte order compute different additional data for the same packet.\<close>

theorem aad_length_byte_order:
  assumes "hdr_wf h"
  shows "dsspacket_build_aad (h\<lparr>hdr_payload_len := htonl P len\<rparr>) =
    hdr_req_nonce h @ (if little_endian P then rev (be32 len) else be32 len)"
  using assms by (simp add: build_aad_be32 be32_htonl hdr_wf_def)

theorem aad_length_byte_order_witness:
  "dsspacket_build_aad \<lparr>hdr_req_nonce = replicate 16 1, hdr_payload_len = htonl sample_platform 258\<rparr> =
     replicate 16 1 @ [2, 1, 0, 0]"
proof -
  let ?h = "\<lparr>hdr_req_nonce = replicate 16 1, hdr_payload_len = 0\<rparr> :: dss_header"
  have w: "hdr_wf ?h" by (simp add: hdr_wf_def REQ_NONCE_LEN_def)
  have le: "little_endian sample_platform" by (simp add: sample_platform_def)
  have b: "be32 258 = [0, 0, 1, 2]" by (simp add: be32_def) 
  show ?thesis
    using aad_length_byte_order [OF w, of sample_platform 258] by (simp add: le b)
qed

end
