(* ===== verification/Handshake.thy ===== *)
theory Handshake
  imports Dsspacket
begin

text \<open>
  \<^verbatim>\<open>common/handshake.c\<close>: the type-length-value frames of the handshake, the server hello with
  its two length-prefixed fields, key derivation, ephemeral key generation and agreement, and
  signing and checking the transcript.  Frames and server hellos satisfy the \<open>framed\<close> contract.
\<close>

datatype hs_msg_type = HS_CHLO | HS_SHLO

fun hs_msg_val :: "hs_msg_type \<Rightarrow> byte" where
  "hs_msg_val HS_CHLO = 1"
| "hs_msg_val HS_SHLO = 2"

definition HS_FRAME_HEADER_LEN :: nat where "HS_FRAME_HEADER_LEN = 5"
definition UINT32_MAX :: nat where "UINT32_MAX = 4294967295"
definition SIZE_MAX_64 :: nat where "SIZE_MAX_64 = 18446744073709551615"

section \<open>Frames\<close>

definition hs_send_frame ::
  "'p platform_scheme \<Rightarrow> int \<Rightarrow> byte \<Rightarrow> bytes \<Rightarrow> ('r env_scheme, unit, unit) io" where
  "hs_send_frame P fd type payload =
     (if fd < 0 \<or> length payload > UINT32_MAX then raise ()
      else let len_be = htonl P (of_nat (length payload)) in
      then_io (or_raise () (send_all fd (type # store32 P len_be)))
      (if 0 < length payload then or_raise () (send_all fd payload) else ret ()))"

definition hs_recv_frame ::
  "'p platform_scheme \<Rightarrow> int \<Rightarrow> byte \<Rightarrow> ('r env_scheme, unit, bytes) io" where
  "hs_recv_frame P fd expected_type =
     (if fd < 0 then raise ()
      else bind_io (or_raise () (recv_all fd HS_FRAME_HEADER_LEN)) (\<lambda>header.
      if hd header \<noteq> expected_type then raise ()
      else let payload_len = ntohl P (load32 P (drop 1 header)) in
      if payload_len = 0 then ret []
      else then_io (lib_call ()) (or_raise () (recv_all fd (unat payload_len)))))"

definition hs_send_chlo ::
  "'p platform_scheme \<Rightarrow> int \<Rightarrow> bytes \<Rightarrow> ('r env_scheme, unit, unit) io" where
  "hs_send_chlo P fd client_pub = hs_send_frame P fd (hs_msg_val HS_CHLO) client_pub"

definition hs_recv_chlo :: "'p platform_scheme \<Rightarrow> int \<Rightarrow> ('r env_scheme, unit, bytes) io" where
  "hs_recv_chlo P fd = hs_recv_frame P fd (hs_msg_val HS_CHLO)"

definition hs_send_shlo ::
  "'p platform_scheme \<Rightarrow> int \<Rightarrow> bytes \<Rightarrow> bytes \<Rightarrow> ('r env_scheme, unit, unit) io" where
  "hs_send_shlo P fd server_pub sig =
     (if length server_pub > UINT32_MAX \<or> length sig > UINT32_MAX then raise ()
      else if length server_pub > SIZE_MAX_64 - length sig - 8 then raise ()
      else then_io (lib_call ())
        (hs_send_frame P fd (hs_msg_val HS_SHLO)
          (store32 P (htonl P (of_nat (length server_pub))) @ server_pub @
           store32 P (htonl P (of_nat (length sig))) @ sig)))"

definition hs_recv_shlo ::
  "'p platform_scheme \<Rightarrow> int \<Rightarrow> ('r env_scheme, unit, bytes \<times> bytes) io" where
  "hs_recv_shlo P fd =
     bind_io (hs_recv_frame P fd (hs_msg_val HS_SHLO)) (\<lambda>payload.
     let payload_len = length payload in
     if payload_len < 8 then raise ()
     else let pub_len = unat (ntohl P (load32 P (take 4 payload))) in
     if pub_len > payload_len - 8 then raise ()
     else then_io (if 0 < pub_len then lib_call () else ret ())
     (let server_pub = take pub_len (drop 4 payload);
          p = drop (4 + pub_len) payload;
          sig_l = unat (ntohl P (load32 P (take 4 p)))
      in if sig_l \<noteq> length (drop 4 p) then raise ()
         else then_io (if 0 < sig_l then lib_call () else ret ())
           (ret (server_pub, take sig_l (drop 4 p)))))"

section \<open>Keys and signatures\<close>

definition hs_label_c2s :: bytes where "hs_label_c2s = ascii ''c2s''"
definition hs_label_s2c :: bytes where "hs_label_s2c = ascii ''s2c''"

definition hs_hkdf_extract_expand ::
  "'p platform_scheme \<Rightarrow> bytes \<Rightarrow> bytes \<Rightarrow> bytes \<Rightarrow> ('r env_scheme, unit, bytes) io" where
  "hs_hkdf_extract_expand P salt ikm info =
     then_io (lib_calls 3 ()) (ret (hkdf_sha256 P salt ikm info 32))"

definition hs_hkdf_extract ::
  "'p platform_scheme \<Rightarrow> bytes \<Rightarrow> bytes \<Rightarrow> ('r env_scheme, unit, bytes) io" where
  "hs_hkdf_extract P salt ikm = then_io (lib_call ())
     (let prk = hmac_sha256 P salt ikm in if length prk = 32 then ret prk else raise ())"

definition hs_hkdf_expand ::
  "'p platform_scheme \<Rightarrow> bytes \<Rightarrow> bytes \<Rightarrow> ('r env_scheme, unit, bytes) io" where
  "hs_hkdf_expand P prk info = then_io (lib_calls 5 ())
     (let t = hmac_sha256 P prk (info @ [1]) in if length t < 32 then raise () else ret (take 32 t))"

definition hs_derive_keys ::
  "'p platform_scheme \<Rightarrow> bytes \<Rightarrow> bytes \<Rightarrow> ('r env_scheme, unit, bytes \<times> bytes) io" where
  "hs_derive_keys P shared_secret transcript = then_io (lib_call ())
     (let salt = sha256 P transcript in
      if openssl3 P
      then bind_io (hs_hkdf_extract_expand P salt shared_secret hs_label_c2s) (\<lambda>c2s_key.
           bind_io (hs_hkdf_extract_expand P salt shared_secret hs_label_s2c) (\<lambda>s2c_key.
           ret (c2s_key, s2c_key)))
      else bind_io (hs_hkdf_extract P salt shared_secret) (\<lambda>prk.
           bind_io (hs_hkdf_expand P prk hs_label_c2s) (\<lambda>c2s_key.
           bind_io (hs_hkdf_expand P prk hs_label_s2c) (\<lambda>s2c_key.
           ret (c2s_key, s2c_key)))))"

text \<open>The public key in DER and the key pair; the private key depends on the randomness drawn.\<close>

definition hs_gen_ecdh_keypair ::
  "'p platform_scheme \<Rightarrow> ('r env_scheme, unit, bytes \<times> bytes) io" where
  "hs_gen_ecdh_keypair P =
     then_io (lib_calls 6 ())
     (bind_io (rand_bytes () 32) (\<lambda>seed.
      let pkey = ec_keygen P seed in
      then_io (lib_calls 2 ()) (ret (ec_public_der P pkey, pkey))))"

definition hs_compute_shared ::
  "'p platform_scheme \<Rightarrow> bytes \<Rightarrow> bytes \<Rightarrow> ('r env_scheme, unit, bytes) io" where
  "hs_compute_shared P own_priv peer_pub =
     (if peer_pub = [] then raise ()
      else then_io (lib_calls 7 ())
        (case ec_derive P own_priv peer_pub of None \<Rightarrow> raise () | Some secret \<Rightarrow> ret secret))"

definition hs_sign_transcript ::
  "'p platform_scheme \<Rightarrow> bytes \<Rightarrow> bytes \<Rightarrow> ('r env_scheme, unit, bytes) io" where
  "hs_sign_transcript P server_priv_pem_path t =
     bind_io (open_read () server_priv_pem_path) (\<lambda>pem.
     case pem_private P pem of
       None \<Rightarrow> raise ()
     | Some pkey \<Rightarrow> then_io (lib_calls 5 ()) (ret (digest_sign P pkey t)))"

definition hs_verify_transcript ::
  "'p platform_scheme \<Rightarrow> bytes \<Rightarrow> bytes \<Rightarrow> bytes \<Rightarrow> ('r env_scheme, unit, unit) io" where
  "hs_verify_transcript P server_pub_pem_path t sig =
     bind_io (open_read () server_pub_pem_path) (\<lambda>pem.
     case pem_public P pem of
       None \<Rightarrow> raise ()
     | Some pkey \<Rightarrow> then_io (lib_calls 3 ())
         (if digest_verify P pkey t sig then ret () else raise ()))"

section \<open>The wire format of frames\<close>

definition hs_wire :: "byte \<Rightarrow> bytes \<Rightarrow> bytes" where
  "hs_wire type payload = type # be32 (of_nat (length payload)) @ payload"

definition hs_frame_ok :: "bytes \<Rightarrow> bool" where
  "hs_frame_ok payload \<longleftrightarrow> length payload \<le> UINT32_MAX"

definition shlo_payload :: "bytes \<times> bytes \<Rightarrow> bytes" where
  "shlo_payload = (\<lambda>(pub, sig).
     be32 (of_nat (length pub)) @ pub @ be32 (of_nat (length sig)) @ sig)"

definition shlo_ok :: "bytes \<times> bytes \<Rightarrow> bool" where
  "shlo_ok = (\<lambda>(pub, sig). 8 + length pub + length sig \<le> UINT32_MAX)"

lemma length_shlo_payload: "length (shlo_payload (pub, sig)) = 8 + length pub + length sig"
  by (simp add: shlo_payload_def)

lemma hs_send_frame_Inr:
  "hs_send_frame P fd type payload s = (Inr u, t) \<Longrightarrow>
     0 \<le> fd \<and> hs_frame_ok payload \<and>
     (\<exists>es. t = s\<lparr>w_plan := es, w_tx := w_tx s @ hs_wire type payload\<rparr>)"
  by (auto simp: hs_send_frame_def hs_frame_ok_def hs_wire_def Let_def io_inv
      dest!: send_all_Inr split: if_splits)

lemma hs_send_frame_room:
  assumes "hs_frame_ok payload" and "0 \<le> fd" and "w_plan s = []"
  shows "hs_send_frame P fd type payload s = (Inr (), s\<lparr>w_tx := w_tx s @ hs_wire type payload\<rparr>)"
  using assms
  by (simp add: hs_send_frame_def hs_frame_ok_def hs_wire_def Let_def io_def send_all_room)

lemma hs_send_shlo_Inr:
  assumes "hs_send_shlo P fd pub sig s = (Inr u, t)"
  shows "0 \<le> fd \<and> shlo_ok (pub, sig) \<and>
    (\<exists>k es. t = s\<lparr>w_tick := k, w_plan := es,
                   w_tx := w_tx s @ hs_wire (hs_msg_val HS_SHLO) (shlo_payload (pub, sig))\<rparr>)"
proof -
  have p: "store32 P (htonl P (of_nat (length pub))) @ pub @
      store32 P (htonl P (of_nat (length sig))) @ sig = shlo_payload (pub, sig)"
    by (simp add: shlo_payload_def)
  from assms obtain v where "lib_call () s = (Inr (), v)"
      "hs_send_frame P fd (hs_msg_val HS_SHLO) (shlo_payload (pub, sig)) v = (Inr u, t)"
    unfolding hs_send_shlo_def p by (auto simp: io_inv split: if_splits)
  then show ?thesis
    by (auto simp: shlo_ok_def hs_frame_ok_def length_shlo_payload
        dest!: lib_call_run hs_send_frame_Inr)
qed

lemma hs_send_shlo_room:
  assumes "shlo_ok (pub, sig)" and "0 \<le> fd" and "w_plan s = []" and "calm s"
  shows "hs_send_shlo P fd pub sig s =
    (Inr (), s\<lparr>w_tick := Suc (w_tick s),
               w_tx := w_tx s @ hs_wire (hs_msg_val HS_SHLO) (shlo_payload (pub, sig))\<rparr>)"
proof -
  have p: "store32 P (htonl P (of_nat (length pub))) @ pub @
      store32 P (htonl P (of_nat (length sig))) @ sig = shlo_payload (pub, sig)"
    by (simp add: shlo_payload_def)
  have "hs_frame_ok (shlo_payload (pub, sig))"
    using assms(1) by (simp add: shlo_ok_def hs_frame_ok_def length_shlo_payload)
  then have f: "hs_send_frame P fd ty (shlo_payload (pub, sig)) v =
      (Inr (), v\<lparr>w_tx := w_tx v @ hs_wire ty (shlo_payload (pub, sig))\<rparr>)"
    if "w_plan v = []" for ty and v :: "'r env_scheme"
    using assms(2) that by (rule hs_send_frame_room)
  have g: "\<not> (length pub > UINT32_MAX \<or> length sig > UINT32_MAX)"
      "\<not> length pub > SIZE_MAX_64 - length sig - 8"
    using assms(1) by (auto simp: shlo_ok_def UINT32_MAX_def SIZE_MAX_64_def)
  show ?thesis
    unfolding hs_send_shlo_def p using g assms(3,4) by (simp add: io_def f)
qed

lemma of_nat_len_32: "n \<le> UINT32_MAX \<Longrightarrow> unat (of_nat n :: 32 word) = n"
  by (simp add: UINT32_MAX_def unat_of_nat_32)

lemma hs_recv_frame_wire:
  assumes ok: "hs_frame_ok x" and c: "calm s" and inc: "pending_in s = hs_wire ty x @ b"
  shows "\<exists>t. hs_recv_frame P (int fd) ty s = (Inr x, t) \<and> pending_in t = b \<and> calm t"
proof -
  let ?h = "ty # be32 (of_nat (length x))"
  obtain s1 where s1: "recv_all (int fd) HS_FRAME_HEADER_LEN s = (Inr ?h, s1)"
      "pending_in s1 = x @ b" "calm s1"
    using sock.pull_exact [of s ?h "x @ b" HS_FRAME_HEADER_LEN] inc c
    by (fastforce simp: hs_wire_def HS_FRAME_HEADER_LEN_def dest: but_rx_calm)
  have n: "unat (of_nat (length x) :: 32 word) = length x"
    using ok by (simp add: hs_frame_ok_def of_nat_len_32)
  show ?thesis
  proof (cases "x = []")
    case True
    with s1 show ?thesis by (simp add: hs_recv_frame_def io_def ntohl_load32)
  next
    case False
    with n have z: "(of_nat (length x) :: 32 word) \<noteq> 0"
      by (metis length_0_conv unat_0)
    let ?s2 = "s1\<lparr>w_tick := Suc (w_tick s1)\<rparr>"
    have "pending_in ?s2 = x @ b" using s1 by simp
    from sock.pull_exact [OF this refl] s1 obtain s3 where
      "recv_all (int fd) (length x) ?s2 = (Inr x, s3)" "pending_in s3 = b" "calm s3"
      by (fastforce dest: but_rx_calm)
    with s1 n z show ?thesis by (simp add: hs_recv_frame_def io_def Let_def ntohl_load32)
  qed
qed

lemma hs_recv_frame_sound:
  assumes "hs_recv_frame P (int fd) ty s = (Inr x, t)"
  shows "hs_frame_ok x \<and> pending_in s = hs_wire ty x @ pending_in t"
proof -
  from assms obtain h s1 where
    h: "recv_all (int fd) HS_FRAME_HEADER_LEN s = (Inr h, s1)" "hd h = ty" and
    r: "(ntohl P (load32 P (drop 1 h)) = 0 \<and> x = [] \<and> t = s1) \<or>
        (\<exists>s2. lib_call () s1 = (Inr (), s2) \<and>
          recv_all (int fd) (unat (ntohl P (load32 P (drop 1 h)))) s2 = (Inr x, t))"
    by (auto simp: hs_recv_frame_def io_inv Let_def split: if_splits)
  note h' = sock.pull_Inr [OF h(1)]
  then have l: "length (drop 1 h) = 4" "h = ty # drop 1 h"
    using h(2) by (cases h; auto simp: HS_FRAME_HEADER_LEN_def)+
  let ?w = "de32 (drop 1 h)"
  from r have x: "length x = unat ?w \<and> pending_in s1 = x @ pending_in t"
    using l by (auto simp: ntohl_load32 dest!: lib_call_run sock.pull_Inr)
  have "be32 (of_nat (length x)) = drop 1 h" using x l by simp
  moreover have "length x \<le> UINT32_MAX"
    using x unat_32_bound [of ?w] by (simp add: UINT32_MAX_def)
  ultimately show ?thesis using x h' l by (simp add: hs_frame_ok_def hs_wire_def)
qed

interpretation hs_frame: framed "hs_recv_frame P (int fd) ty" "hs_wire ty" hs_frame_ok
    pending_in calm for P and fd :: nat and ty
  by unfold_locales (use hs_recv_frame_wire hs_recv_frame_sound pending_source in blast)+

lemma shlo_split:
  assumes "shlo_ok (pub, sig)" and "p = shlo_payload (pub, sig)"
  shows "unat (de32 (take 4 p)) = length pub" and "take (length pub) (drop 4 p) = pub"
    and "unat (de32 (take 4 (drop (4 + length pub) p))) = length sig"
    and "drop 4 (drop (4 + length pub) p) = sig"
  using assms by (simp_all add: shlo_payload_def shlo_ok_def of_nat_len_32)

lemma hs_recv_shlo_wire:
  assumes ok: "shlo_ok (pub, sig)" and c: "calm s"
    and inc: "pending_in s = hs_wire (hs_msg_val HS_SHLO) (shlo_payload (pub, sig)) @ b"
  shows "\<exists>t. hs_recv_shlo P (int fd) s = (Inr (pub, sig), t) \<and> pending_in t = b \<and> calm t"
proof -
  let ?p = "shlo_payload (pub, sig)"
  have "hs_frame_ok ?p" using ok by (simp add: shlo_ok_def hs_frame_ok_def length_shlo_payload)
  from hs_frame.receive_wire [OF this c inc] obtain t where
    t: "hs_recv_frame P (int fd) (hs_msg_val HS_SHLO) s = (Inr ?p, t)" "pending_in t = b" "calm t"
    by blast
  note sp = shlo_split [OF ok refl]
  have l4: "length (take 4 ?p) = 4" "length (take 4 (drop (4 + length pub) ?p)) = 4"
    by (simp_all add: length_shlo_payload)
  from t show ?thesis
    unfolding hs_recv_shlo_def Let_def
    by (simp add: bind_io_ok length_shlo_payload ntohl_load32 [OF l4(1)] ntohl_load32 [OF l4(2)] sp)
       (auto simp: io_def shlo_payload_def)
qed

lemma hs_recv_shlo_sound:
  assumes "hs_recv_shlo P (int fd) s = (Inr x, t)"
  shows "shlo_ok x \<and> pending_in s = hs_wire (hs_msg_val HS_SHLO) (shlo_payload x) @ pending_in t"
proof -
  obtain pub sig where x: "x = (pub, sig)" by fastforce
  from assms obtain p s1 where
    p: "hs_recv_frame P (int fd) (hs_msg_val HS_SHLO) s = (Inr p, s1)" and t: "pending_in t = pending_in s1"
    and n: "8 \<le> length p" "unat (ntohl P (load32 P (take 4 p))) \<le> length p - 8"
    and pub: "pub = take (unat (ntohl P (load32 P (take 4 p)))) (drop 4 p)"
    and sig: "sig = drop 4 (drop (4 + unat (ntohl P (load32 P (take 4 p)))) p)"
    and sl: "unat (ntohl P (load32 P (take 4 (drop (4 + unat (ntohl P (load32 P (take 4 p)))) p)))) =
      length (drop 4 (drop (4 + unat (ntohl P (load32 P (take 4 p)))) p))"
    unfolding x
    by (auto simp: hs_recv_shlo_def io_inv Let_def not_less split: if_splits dest!: lib_call_run)
  define a where "a = take 4 p"
  define m where "m = unat (de32 a)"
  define b where "b = take 4 (drop (4 + m) p)"
  have a4: "length a = 4" using n by (simp add: a_def)
  then have m: "m = unat (ntohl P (load32 P (take 4 p)))" by (simp add: m_def a_def ntohl_load32)
  have nm: "m \<le> length p - 8" and pub': "pub = take m (drop 4 p)" and sig0: "sig = drop 4 (drop (4 + m) p)"
    and sl': "unat (ntohl P (load32 P b)) = length (drop 4 (drop (4 + m) p))"
    using n(2) pub sig sl unfolding b_def m by simp_all
  have b4: "length b = 4" using n nm by (simp add: b_def)
  have lp: "length pub = m" and sig': "sig = drop (8 + m) p" and ls: "unat (de32 b) = length sig"
    using n nm pub' sig0 sl' b4 by (simp_all add: ntohl_load32)
  have "p = a @ pub @ b @ sig"
    using four_parts [of 4 p m 4] unfolding a_def b_def sig' pub' by (simp add: add.commute)
  moreover have "be32 (of_nat (length pub)) = a" using lp a4 by (simp add: m_def)
  moreover have "be32 (of_nat (length sig)) = b" using b4 by (simp add: ls [symmetric])
  ultimately have "p = shlo_payload x" by (simp add: x shlo_payload_def)
  with hs_frame.receive_sound [OF p] t show ?thesis
    by (auto simp: x shlo_ok_def hs_frame_ok_def length_shlo_payload)
qed

interpretation shlo: framed "hs_recv_shlo P (int fd)"
    "\<lambda>x. hs_wire (hs_msg_val HS_SHLO) (shlo_payload x)" shlo_ok pending_in calm
    for P and fd :: nat
proof
  fix x and s :: "'b env_scheme" and b
  show "shlo_ok x \<Longrightarrow> calm s \<Longrightarrow>
      pending_in s = hs_wire (hs_msg_val HS_SHLO) (shlo_payload x) @ b \<Longrightarrow>
      \<exists>t. hs_recv_shlo P (int fd) s = (Inr x, t) \<and> pending_in t = b \<and> calm t"
    using hs_recv_shlo_wire by (cases x) blast
qed (use hs_recv_shlo_sound pending_source in blast)+

section \<open>Key derivation\<close>

text \<open>
  \<open>hkdf_spec\<close>: the OpenSSL 3 KDF is HKDF over HMAC-SHA-256.  A build against an older OpenSSL
  uses the extract and expand steps written out in the source.
\<close>

definition hkdf_spec :: "'p platform_scheme \<Rightarrow> bool" where
  "hkdf_spec P \<longleftrightarrow> (\<forall>k m. length (hmac_sha256 P k m) = 32) \<and>
     (\<forall>salt ikm info len. len \<le> 255 * 32 \<longrightarrow>
        hkdf_sha256 P salt ikm info len = rfc5869 (hmac_sha256 P) salt ikm info len)"

lemma rfc5869_one_block:
  assumes "\<And>k m. length (hmac k m) = 32"
  shows "rfc5869 hmac salt ikm info 32 = hmac (hmac salt ikm) (info @ [1])"
  using assms by (simp add: rfc5869_def upt_rec)

text \<open>The keys a derivation produces, whichever library the program is built against.\<close>

definition session_keys :: "'p platform_scheme \<Rightarrow> bytes \<Rightarrow> bytes \<Rightarrow> bytes \<times> bytes" where
  "session_keys P secret transcript =
     (let kdf = (\<lambda>label. if openssl3 P then hkdf_sha256 P (sha256 P transcript) secret label 32
        else take 32 (hmac_sha256 P (hmac_sha256 P (sha256 P transcript) secret) (label @ [1])))
      in (kdf hs_label_c2s, kdf hs_label_s2c))"

lemma hs_derive_keys_Inr:
  assumes "hs_derive_keys P z tr s = (Inr ks, t)"
  shows "ks = session_keys P z tr \<and> (\<exists>k. t = s\<lparr>w_tick := k\<rparr>)"
  using assms
  by (auto simp: hs_derive_keys_def hs_hkdf_extract_expand_def hs_hkdf_extract_def
      hs_hkdf_expand_def session_keys_def Let_def io_inv simp del: lib_calls.simps
      split: if_splits dest!: lib_calls_run lib_call_run)

lemma hs_derive_keys_calm:
  assumes "calm s" and "\<And>k m. length (hmac_sha256 P k m) = 32"
  shows "\<exists>k. hs_derive_keys P z tr s = (Inr (session_keys P z tr), s\<lparr>w_tick := k\<rparr>)"
  using assms
  by (simp add: hs_derive_keys_def hs_hkdf_extract_expand_def hs_hkdf_extract_def
      hs_hkdf_expand_def session_keys_def Let_def io_def del: lib_calls.simps)

lemma session_keys_build:
  "hkdf_spec P \<Longrightarrow>
     session_keys (P\<lparr>openssl3 := True\<rparr>) z tr = session_keys (P\<lparr>openssl3 := False\<rparr>) z tr"
  by (simp add: session_keys_def hkdf_spec_def rfc5869_one_block Let_def)

section \<open>Properties\<close>

text \<open>C32: The server hello round trips: whatever key and signature \<open>hs_send_shlo\<close> puts on the wire,
  over any pattern of partial writes, \<open>hs_recv_shlo\<close> returns, using up exactly its bytes.\<close>

theorem shlo_round_trip:
  assumes "hs_send_shlo P fd pub sig s = (Inr u, t)" and "w_tx s = []"
    and "calm r" and "pending_in r = w_tx t @ b"
  shows "\<exists>r'. hs_recv_shlo P (int fd') r = (Inr (pub, sig), r') \<and> pending_in r' = b"
proof -
  from hs_send_shlo_Inr [OF assms(1)] have ok: "shlo_ok (pub, sig)" and
    "w_tx t = hs_wire (hs_msg_val HS_SHLO) (shlo_payload (pub, sig))"
    using assms(2) by auto
  with assms(4) have "pending_in r = hs_wire (hs_msg_val HS_SHLO) (shlo_payload (pub, sig)) @ b"
    by simp
  from shlo.receive_wire [OF ok assms(3) this] show ?thesis by blast
qed

theorem shlo_round_trip_witness:
  "\<exists>t r'. hs_send_shlo sample_platform 3 [1, 2] [3] (sample_env [] []) = (Inr (), t) \<and>
     hs_recv_shlo sample_platform (int 4) (sample_env [] [R_data (w_tx t)]) = (Inr ([1, 2], [3]), r') \<and>
     pending_in r' = []"
proof -
  have "shlo_ok ([1, 2], [3])" "w_plan (sample_env [] []) = []" "calm (sample_env [] [])"
    by (simp_all add: shlo_ok_def UINT32_MAX_def sample_env_def calm_def)
  then obtain t where t: "hs_send_shlo sample_platform 3 [1, 2] [3] (sample_env [] []) = (Inr (), t)"
    using hs_send_shlo_room [of "[1, 2]" "[3]" 3 "sample_env [] []" sample_platform] by fastforce
  have "w_tx (sample_env [] []) = []" "calm (sample_env [] [R_data (w_tx t)])"
    "pending_in (sample_env [] [R_data (w_tx t)]) = w_tx t @ []"
    by (simp_all add: sample_env_def calm_def pending_in_def)
  from shlo_round_trip [OF t this, of 4] t show ?thesis by blast
qed

text \<open>The server hello reader rejects every inconsistent length: a hello it accepts is the image
  of its two fields, so both length prefixes agree with the frame and nothing is left over.\<close>

theorem hs_recv_shlo_consistent:
  assumes "hs_recv_shlo P (int fd) s = (Inr (pub, sig), t)"
  shows "8 + length pub + length sig \<le> UINT32_MAX \<and>
    pending_in s = hs_wire (hs_msg_val HS_SHLO)
      (be32 (of_nat (length pub)) @ pub @ be32 (of_nat (length sig)) @ sig) @ pending_in t"
  using shlo.receive_sound [OF assms] by (simp add: shlo_ok_def shlo_payload_def)

theorem hs_recv_shlo_consistent_witness:
  "\<exists>t. hs_recv_shlo sample_platform (int 4)
       (sample_env [] [R_data (hs_wire 2 (shlo_payload ([1, 2], [3])))]) = (Inr ([1, 2], [3]), t) \<and>
     8 + length [1, 2 :: byte] + length [3 :: byte] \<le> UINT32_MAX"
proof -
  let ?s = "sample_env [] [R_data (hs_wire 2 (shlo_payload ([1, 2], [3])))]"
  have "shlo_ok ([1, 2], [3])" "calm ?s"
    "pending_in ?s = hs_wire (hs_msg_val HS_SHLO) (shlo_payload ([1, 2], [3])) @ []"
    by (simp_all add: shlo_ok_def UINT32_MAX_def sample_env_def calm_def pending_in_def hs_wire_def)
  from shlo.receive_wire [OF this] obtain t where
    t: "hs_recv_shlo sample_platform (int 4) ?s = (Inr ([1, 2], [3]), t)" by blast
  from hs_recv_shlo_consistent [OF t] t show ?thesis by blast
qed

text \<open>C33: A build against OpenSSL 3 and a build against an older OpenSSL derive the same session
  keys: the extract and expand steps written out in the source are HKDF with a single output
  block.\<close>

theorem derive_keys_same_for_both_builds:
  assumes "hkdf_spec P"
    and "hs_derive_keys (P\<lparr>openssl3 := True\<rparr>) z tr s = (Inr ks, t)"
    and "hs_derive_keys (P\<lparr>openssl3 := False\<rparr>) z tr s' = (Inr ks', t')"
  shows "ks = ks' \<and> ks = (hmac_sha256 P (hmac_sha256 P (sha256 P tr) z) (hs_label_c2s @ [1]),
                          hmac_sha256 P (hmac_sha256 P (sha256 P tr) z) (hs_label_s2c @ [1]))"
proof -
  have "ks = session_keys (P\<lparr>openssl3 := True\<rparr>) z tr" "ks' = session_keys (P\<lparr>openssl3 := False\<rparr>) z tr"
    using hs_derive_keys_Inr assms(2,3) by blast+
  with assms(1) show ?thesis
    by (simp add: session_keys_def hkdf_spec_def rfc5869_one_block Let_def)
qed

lemma sample_hmac_length: "length (hmac_sha256 (sample_platform\<lparr>openssl3 := b\<rparr>) k m) = 32"
  "length (hmac_sha256 sample_platform k m) = 32"
  by (simp_all add: sample_platform_def min_def)

lemma sample_hkdf_spec: "hkdf_spec sample_platform"
  unfolding hkdf_spec_def by (simp add: sample_hmac_length) (simp add: sample_platform_def)

theorem derive_keys_same_for_both_builds_witness:
  "\<exists>ks t t'. hs_derive_keys (sample_platform\<lparr>openssl3 := True\<rparr>) [1] [2] (sample_env [] []) = (Inr ks, t) \<and>
     hs_derive_keys (sample_platform\<lparr>openssl3 := False\<rparr>) [1] [2] (sample_env [] []) = (Inr ks, t')"
proof -
  have c: "calm (sample_env [] [])" by (simp add: sample_env_def calm_def)
  from hs_derive_keys_calm [OF c sample_hmac_length(1)] obtain ks t ks' t' where
    d: "hs_derive_keys (sample_platform\<lparr>openssl3 := True\<rparr>) [1] [2] (sample_env [] []) = (Inr ks, t)"
      "hs_derive_keys (sample_platform\<lparr>openssl3 := False\<rparr>) [1] [2] (sample_env [] []) = (Inr ks', t')"
    by blast
  from derive_keys_same_for_both_builds [OF sample_hkdf_spec d] d show ?thesis by blast
qed

end
