(* ===== verification/Securechan.thy ===== *)
theory Securechan
  imports World
begin

text \<open>
  \<^verbatim>\<open>common/securechan.c\<close>: AES-256-GCM encryption and decryption, as a guarded sequence of EVP
  calls around the cipher itself (a parameter of the model).  \<open>gcm_spec\<close> is the documented
  behaviour of the cipher: decryption under the same key, IV and additional data returns the
  plaintext, and the ciphertext is as long as the plaintext.
\<close>

definition GCM_KEY_LEN :: nat where "GCM_KEY_LEN = 32"
definition GCM_IV_LEN :: nat where "GCM_IV_LEN = 12"
definition GCM_TAG_LEN :: nat where "GCM_TAG_LEN = 16"
definition INT_MAX :: nat where "INT_MAX = 2147483647"

definition sc_check_lengths :: "nat \<Rightarrow> nat \<Rightarrow> unit + unit" where
  "sc_check_lengths aad_len text_len =
     (if aad_len > INT_MAX then Inl () else if text_len > INT_MAX then Inl () else Inr ())"

text \<open>
  The EVP calls before the tag: context, cipher, IV length, key and IV, then the additional
  data and the text where they are not empty.
\<close>

definition sc_evp_calls :: "bytes \<Rightarrow> bytes \<Rightarrow> nat" where
  "sc_evp_calls aad text = 4 + (if aad = [] then 0 else 1) + (if text = [] then 0 else 1)"

definition sc_aead_encrypt ::
  "'p platform_scheme \<Rightarrow> bytes \<Rightarrow> bytes \<Rightarrow> bytes \<Rightarrow> bytes \<Rightarrow> ('r env_scheme, unit, bytes \<times> bytes) io"
where
  "sc_aead_encrypt P key iv aad pt =
     (if sc_check_lengths (length aad) (length pt) = Inl () then raise ()
      else then_io (lib_calls (sc_evp_calls aad pt) ())
        (then_io (lib_calls 2 ()) (ret (gcm_encrypt P key iv aad pt))))"

definition sc_aead_decrypt ::
  "'p platform_scheme \<Rightarrow> bytes \<Rightarrow> bytes \<Rightarrow> bytes \<Rightarrow> bytes \<Rightarrow> bytes \<Rightarrow> ('r env_scheme, unit, bytes) io"
where
  "sc_aead_decrypt P key iv aad ct tag =
     (if sc_check_lengths (length aad) (length ct) = Inl () then raise ()
      else then_io (lib_calls (sc_evp_calls aad ct) ())
        (then_io (lib_call ())
          (case gcm_decrypt P key iv aad ct tag of None \<Rightarrow> raise () | Some pt \<Rightarrow> ret pt)))"

definition gcm_spec :: "'p platform_scheme \<Rightarrow> bool" where
  "gcm_spec P \<longleftrightarrow> (\<forall>key iv aad pt ct tag.
     (gcm_encrypt P key iv aad pt = (ct, tag) \<longrightarrow>
        length tag = GCM_TAG_LEN \<and> gcm_decrypt P key iv aad ct tag = Some pt) \<and>
     (gcm_decrypt P key iv aad ct tag = Some pt \<longrightarrow> length pt = length ct))"

lemma gcm_specD:
  assumes "gcm_spec P" and "gcm_encrypt P key iv aad pt = (ct, tag)"
  shows "length ct = length pt" and "length tag = GCM_TAG_LEN"
    and "gcm_decrypt P key iv aad ct tag = Some pt"
  using assms unfolding gcm_spec_def by (metis, blast, blast)

lemma gcm_spec_length:
  "gcm_spec P \<Longrightarrow> gcm_decrypt P key iv aad ct tag = Some pt \<Longrightarrow> length pt = length ct"
  unfolding gcm_spec_def by blast

lemma sc_aead_encrypt_Inr:
  assumes "sc_aead_encrypt P key iv aad pt s = (Inr r, t)"
  shows "r = gcm_encrypt P key iv aad pt \<and> length pt \<le> INT_MAX \<and> (\<exists>k. t = s\<lparr>w_tick := k\<rparr>)"
proof -
  from assms obtain u where "lib_calls (sc_evp_calls aad pt) () s = (Inr (), u)"
      "lib_calls 2 () u = (Inr (), t)" "r = gcm_encrypt P key iv aad pt" "length pt \<le> INT_MAX"
    by (auto simp: sc_aead_encrypt_def sc_check_lengths_def io_inv simp del: lib_calls.simps
        split: if_splits)
  then show ?thesis by (auto dest!: lib_calls_run)
qed

lemma sc_aead_decrypt_Inr:
  assumes "sc_aead_decrypt P key iv aad ct tag s = (Inr pt, t)"
  shows "gcm_decrypt P key iv aad ct tag = Some pt \<and> length ct \<le> INT_MAX \<and> (\<exists>k. t = s\<lparr>w_tick := k\<rparr>)"
  using assms
  by (auto simp: sc_aead_decrypt_def sc_check_lengths_def io_inv simp del: lib_calls.simps
      split: if_splits option.splits dest!: lib_calls_run lib_call_run)

lemma sc_aead_encrypt_calm:
  assumes "calm s" and "length aad \<le> INT_MAX" and "length pt \<le> INT_MAX"
  shows "\<exists>k. sc_aead_encrypt P key iv aad pt s =
    (Inr (gcm_encrypt P key iv aad pt), s\<lparr>w_tick := k\<rparr>)"
  using assms
  by (simp add: sc_aead_encrypt_def sc_check_lengths_def io_def del: lib_calls.simps)

lemma sc_aead_decrypt_calm:
  assumes "calm s" and "length aad \<le> INT_MAX" and "length ct \<le> INT_MAX"
  shows "\<exists>k. sc_aead_decrypt P key iv aad ct tag s =
    ((case gcm_decrypt P key iv aad ct tag of None \<Rightarrow> Inl () | Some pt \<Rightarrow> Inr pt),
     s\<lparr>w_tick := k\<rparr>)"
  using assms
  by (auto simp: sc_aead_decrypt_def sc_check_lengths_def io_def simp del: lib_calls.simps
      split: option.split)

context env_frame
begin

lemma within_sc_encrypt [simp, intro]: "within R (sc_aead_encrypt P key iv aad pt)"
  unfolding sc_aead_encrypt_def by (intro within_if within_then) auto

lemma within_sc_decrypt [simp, intro]: "within R (sc_aead_decrypt P key iv aad ct tag)"
  unfolding sc_aead_decrypt_def by (intro within_if within_then within_case_option) auto

end

end
