(* ===== verification/Tcp.thy ===== *)
theory Tcp
  imports World
begin

text \<open>
  The second half of \<^verbatim>\<open>common/net.c\<close>: resolving an address and trying the endpoints in turn.  What
  the system answers to each call on an endpoint is data of the model; the list threaded
  through the functions holds the descriptors that are open.
\<close>

record endpoint =
  ep_socket :: "errno + int"
  ep_connect :: "errno option"
  ep_reuse :: "errno option"
  ep_bind :: "errno option"
  ep_listen :: "errno option"

datatype gai_result = Gai_system errno | Gai_failed | Gai_ok "endpoint list"

definition close_fd :: "int \<Rightarrow> int list \<Rightarrow> int list" where
  "close_fd fd fds = removeAll fd fds"

fun tcp_connect_loop :: "errno \<Rightarrow> endpoint list \<Rightarrow> int list \<Rightarrow> (errno + int) \<times> int list" where
  "tcp_connect_loop saved [] fds = (Inl saved, fds)"
| "tcp_connect_loop saved (rp # rps) fds =
     (case ep_socket rp of
        Inl e \<Rightarrow> tcp_connect_loop e rps fds
      | Inr fd \<Rightarrow>
          let fds1 = fd # fds in
          (case ep_connect rp of
             None \<Rightarrow> (Inr fd, fds1)
           | Some e \<Rightarrow> tcp_connect_loop e rps (close_fd fd fds1)))"

definition tcp_connect :: "gai_result \<Rightarrow> int list \<Rightarrow> (errno + int) \<times> int list" where
  "tcp_connect gai fds =
     (case gai of
        Gai_system e \<Rightarrow> (Inl e, fds)
      | Gai_failed \<Rightarrow> (Inl EHOSTUNREACH, fds)
      | Gai_ok result \<Rightarrow> tcp_connect_loop EHOSTUNREACH result fds)"

fun tcp_listen_loop :: "errno \<Rightarrow> endpoint list \<Rightarrow> int list \<Rightarrow> (errno + int) \<times> int list" where
  "tcp_listen_loop saved [] fds = (Inl saved, fds)"
| "tcp_listen_loop saved (rp # rps) fds =
     (case ep_socket rp of
        Inl e \<Rightarrow> tcp_listen_loop e rps fds
      | Inr fd \<Rightarrow>
          let fds1 = fd # fds in
          (case ep_reuse rp of
             Some e \<Rightarrow> tcp_listen_loop e rps (close_fd fd fds1)
           | None \<Rightarrow>
               (case ep_bind rp of
                  Some e \<Rightarrow> tcp_listen_loop e rps (close_fd fd fds1)
                | None \<Rightarrow>
                    (case ep_listen rp of
                       Some e \<Rightarrow> tcp_listen_loop e rps (close_fd fd fds1)
                     | None \<Rightarrow> (Inr fd, fds1)))))"

definition tcp_listen :: "gai_result \<Rightarrow> int list \<Rightarrow> (errno + int) \<times> int list" where
  "tcp_listen gai fds =
     (case gai of
        Gai_system e \<Rightarrow> (Inl e, fds)
      | Gai_failed \<Rightarrow> (Inl EADDRNOTAVAIL, fds)
      | Gai_ok result \<Rightarrow> tcp_listen_loop EADDRNOTAVAIL result fds)"

text \<open>The answers of successive \<open>accept\<close> calls; the call blocks when there is none (\<open>None\<close>).\<close>

fun tcp_accept_loop :: "(errno + int) list \<Rightarrow> (errno + int) option" where
  "tcp_accept_loop [] = None"
| "tcp_accept_loop (Inr fd # es) = Some (Inr fd)"
| "tcp_accept_loop (Inl e # es) = (if e = EINTR then tcp_accept_loop es else Some (Inl e))"

definition tcp_accept :: "int \<Rightarrow> (errno + int) list \<Rightarrow> (errno + int) option" where
  "tcp_accept listen_fd es = (if listen_fd < 0 then Some (Inl EINVAL) else tcp_accept_loop es)"

text \<open>
  Descriptors the system hands out are not open already, so closing one never closes another.
  Either the descriptor of the first endpoint that works is the only new one, or none is new
  and the error is the last one met.
\<close>

definition fresh_fds :: "gai_result \<Rightarrow> int list \<Rightarrow> bool" where
  "fresh_fds gai fds =
     (case gai of Gai_ok eps \<Rightarrow> list_all (\<lambda>ep. case ep_socket ep of Inl _ \<Rightarrow> True | Inr fd \<Rightarrow> fd \<notin> set fds) eps
      | _ \<Rightarrow> True)"

definition connects :: "endpoint \<Rightarrow> bool" where
  "connects ep \<longleftrightarrow> \<not> isl (ep_socket ep) \<and> ep_connect ep = None"

definition listens :: "endpoint \<Rightarrow> bool" where
  "listens ep \<longleftrightarrow> \<not> isl (ep_socket ep) \<and> ep_reuse ep = None \<and> ep_bind ep = None \<and>
     ep_listen ep = None"

lemma not_isl_iff: "\<not> isl x \<longleftrightarrow> (\<exists>y. x = Inr y)"
  by (cases x) auto

lemma close_fd_fresh: "fd \<notin> set fds \<Longrightarrow> close_fd fd (fd # fds) = fds"
  by (simp add: close_fd_def)

text \<open>
  What connecting and listening have in common: endpoints that do not work are skipped with
  their descriptors closed, and the first one that works ends the search.
\<close>

locale endpoint_loop =
  fixes loop :: "errno \<Rightarrow> endpoint list \<Rightarrow> int list \<Rightarrow> (errno + int) \<times> int list"
    and works :: "endpoint \<Rightarrow> bool"
  assumes loop_Nil: "loop e [] fds = (Inl e, fds)"
    and works_socket: "works ep \<Longrightarrow> \<exists>fd. ep_socket ep = Inr fd"
    and loop_works:
      "works ep \<Longrightarrow> ep_socket ep = Inr fd \<Longrightarrow> loop e (ep # eps) fds = (Inr fd, fd # fds)"
    and loop_next:
      "\<not> works ep \<Longrightarrow> (\<And>fd. ep_socket ep = Inr fd \<Longrightarrow> fd \<notin> set fds) \<Longrightarrow>
         \<exists>e'. loop e (ep # eps) fds = loop e' eps fds"
begin

lemma first_working:
  assumes "fresh_fds (Gai_ok eps) fds"
  shows "(\<exists>a ep b fd. eps = a @ ep # b \<and> (\<forall>x \<in> set a. \<not> works x) \<and> works ep \<and>
            ep_socket ep = Inr fd \<and> loop e eps fds = (Inr fd, fd # fds)) \<or>
         (\<forall>x \<in> set eps. \<not> works x) \<and> (\<exists>e'. loop e eps fds = (Inl e', fds))"
  using assms
proof (induction eps arbitrary: e)
  case Nil
  then show ?case by (simp add: loop_Nil)
next
  case (Cons ep eps)
  show ?case
  proof (cases "works ep")
    case True
    then obtain fd where "ep_socket ep = Inr fd" using works_socket by blast
    with True show ?thesis using loop_works by (intro disjI1) fastforce
  next
    case False
    have "fd \<notin> set fds" if "ep_socket ep = Inr fd" for fd
      using Cons.prems that by (simp add: fresh_fds_def)
    then obtain e' where e': "loop e (ep # eps) fds = loop e' eps fds"
      using loop_next [OF False] by blast
    have "fresh_fds (Gai_ok eps) fds" using Cons.prems by (simp add: fresh_fds_def)
    from Cons.IH [OF this, of e'] show ?thesis
    proof (elim disjE exE conjE)
      fix a ep' b fd
      assume "eps = a @ ep' # b" "\<forall>x \<in> set a. \<not> works x" "works ep'" "ep_socket ep' = Inr fd"
        "loop e' eps fds = (Inr fd, fd # fds)"
      with e' False show ?thesis
        by (intro disjI1 exI [of _ "ep # a"] exI [of _ ep'] exI [of _ b] exI [of _ fd]) auto
    qed (use e' False in auto)
  qed
qed

text \<open>The descriptor returned is the one of the first endpoint that works, if there is one.\<close>

lemma chosen:
  assumes "fresh_fds (Gai_ok eps) fds"
  shows "fst (loop e eps fds) = Inr fd \<longleftrightarrow>
    (\<exists>a ep b. eps = a @ ep # b \<and> ep_socket ep = Inr fd \<and> works ep \<and> (\<forall>x \<in> set a. \<not> works x))"
    (is "?l \<longleftrightarrow> ?r")
proof
  assume ?l
  with first_working [OF assms, of e] show ?r by fastforce
next
  assume ?r
  then obtain a ep b where ab: "eps = a @ ep # b" "ep_socket ep = Inr fd" "works ep" "\<forall>x \<in> set a. \<not> works x" by blast
  from first_working [OF assms, of e] show ?l
  proof (elim disjE exE conjE)
    fix a' ep' b' fd'
    assume ab': "eps = a' @ ep' # b'" "\<forall>x \<in> set a'. \<not> works x" "works ep'" "ep_socket ep' = Inr fd'"
      "loop e eps fds = (Inr fd', fd' # fds)"
    have "find works eps = Some ep" using ab by (induction a arbitrary: eps) auto
    moreover have "find works eps = Some ep'" using ab'(1-3) by (induction a' arbitrary: eps) auto
    ultimately show ?thesis using ab(2) ab'(4,5) by simp
  qed (use ab in auto)
qed

end

interpretation connect: endpoint_loop tcp_connect_loop connects
proof
  fix ep fds e eps
  show "\<exists>e'. tcp_connect_loop e (ep # eps) fds = tcp_connect_loop e' eps fds"
    if n: "\<not> connects ep" and f: "\<And>fd. ep_socket ep = Inr fd \<Longrightarrow> fd \<notin> set fds"
  proof (cases "ep_socket ep")
    case (Inr fd)
    with n f [OF Inr] show ?thesis by (auto simp: connects_def close_fd_fresh)
  qed auto
qed (auto simp: connects_def not_isl_iff split: sum.splits)

interpretation listening: endpoint_loop tcp_listen_loop listens
proof
  fix ep fds e eps
  show "\<exists>e'. tcp_listen_loop e (ep # eps) fds = tcp_listen_loop e' eps fds"
    if n: "\<not> listens ep" and f: "\<And>fd. ep_socket ep = Inr fd \<Longrightarrow> fd \<notin> set fds"
  proof (cases "ep_socket ep")
    case (Inr fd)
    then show ?thesis using n f [OF Inr]
      by (cases "ep_reuse ep"; cases "ep_bind ep"; cases "ep_listen ep")
         (auto simp: listens_def close_fd_fresh)
  qed auto
qed (auto simp: listens_def not_isl_iff split: sum.splits)

lemma works_iff:
  "ep_socket ep = Inr fd \<Longrightarrow> connects ep \<longleftrightarrow> ep_connect ep = None"
  "ep_socket ep = Inr fd \<Longrightarrow> listens ep \<longleftrightarrow> ep_reuse ep = None \<and> ep_bind ep = None \<and> ep_listen ep = None"
  by (simp_all add: connects_def listens_def)

lemma tcp_connect_fds:
  assumes "fresh_fds gai fds" and "tcp_connect gai fds = (r, fds')"
  shows "(\<exists>fd. r = Inr fd \<and> fds' = fd # fds) \<or> (\<exists>e. r = Inl e \<and> fds' = fds)"
proof (cases gai)
  case (Gai_ok es)
  with connect.first_working [of es fds EHOSTUNREACH] assms show ?thesis by (auto simp: tcp_connect_def)
qed (use assms in \<open>auto simp: tcp_connect_def\<close>)

lemma tcp_listen_fds:
  assumes "fresh_fds gai fds" and "tcp_listen gai fds = (r, fds')"
  shows "(\<exists>fd. r = Inr fd \<and> fds' = fd # fds) \<or> (\<exists>e. r = Inl e \<and> fds' = fds)"
proof (cases gai)
  case (Gai_ok es)
  with listening.first_working [of es fds EADDRNOTAVAIL] assms show ?thesis by (auto simp: tcp_listen_def)
qed (use assms in \<open>auto simp: tcp_listen_def\<close>)

lemma tcp_accept_loop_result:
  "tcp_accept_loop es = Some r \<Longrightarrow> r \<in> set es \<and> r \<noteq> Inl EINTR"
  by (induction es rule: tcp_accept_loop.induct) (auto split: if_splits)

section \<open>Properties\<close>

text \<open>C37: \<open>tcp_connect\<close> and \<open>tcp_listen\<close> leak no descriptor.  When the system hands out unused
  descriptors, the open descriptors afterwards are those before, plus the returned one on
  success; and each of the two returns a descriptor exactly when it belongs to the first resolved
  endpoint on which every call works: \<open>socket\<close> and \<open>connect\<close> for \<open>tcp_connect\<close>, and \<open>socket\<close>,
  \<open>setsockopt\<close>, \<open>bind\<close> and \<open>listen\<close> for \<open>tcp_listen\<close>.\<close>

theorem tcp_no_descriptor_leak:
  assumes "fresh_fds gai fds"
  shows "(case tcp_connect gai fds of (Inr fd, fds') \<Rightarrow> fds' = fd # fds | (Inl _, fds') \<Rightarrow> fds' = fds) \<and>
    (case tcp_listen gai fds of (Inr fd, fds') \<Rightarrow> fds' = fd # fds | (Inl _, fds') \<Rightarrow> fds' = fds) \<and>
    (\<forall>fd. fst (tcp_connect gai fds) = Inr fd \<longleftrightarrow> (\<exists>a ep b. gai = Gai_ok (a @ ep # b) \<and>
       ep_socket ep = Inr fd \<and> ep_connect ep = None \<and> (\<forall>x \<in> set a. \<not> connects x))) \<and>
    (\<forall>fd. fst (tcp_listen gai fds) = Inr fd \<longleftrightarrow> (\<exists>a ep b. gai = Gai_ok (a @ ep # b) \<and>
       ep_socket ep = Inr fd \<and> ep_reuse ep = None \<and> ep_bind ep = None \<and> ep_listen ep = None \<and>
       (\<forall>x \<in> set a. \<not> listens x)))"
proof (cases gai)
  case (Gai_ok es)
  with assms have f: "fresh_fds (Gai_ok es) fds" by simp
  have "case tcp_connect gai fds of (Inr fd, fds') \<Rightarrow> fds' = fd # fds | (Inl _, fds') \<Rightarrow> fds' = fds"
    "case tcp_listen gai fds of (Inr fd, fds') \<Rightarrow> fds' = fd # fds | (Inl _, fds') \<Rightarrow> fds' = fds"
    using tcp_connect_fds [OF assms] tcp_listen_fds [OF assms] by (auto split: prod.split sum.split)
  moreover have "fst (tcp_connect gai fds) = Inr fd \<longleftrightarrow> (\<exists>a ep b. gai = Gai_ok (a @ ep # b) \<and>
       ep_socket ep = Inr fd \<and> ep_connect ep = None \<and> (\<forall>x \<in> set a. \<not> connects x))" for fd
    using connect.chosen [OF f, of EHOSTUNREACH fd] by (simp add: Gai_ok tcp_connect_def works_iff cong: conj_cong)
  moreover have "fst (tcp_listen gai fds) = Inr fd \<longleftrightarrow> (\<exists>a ep b. gai = Gai_ok (a @ ep # b) \<and>
       ep_socket ep = Inr fd \<and> ep_reuse ep = None \<and> ep_bind ep = None \<and> ep_listen ep = None \<and>
       (\<forall>x \<in> set a. \<not> listens x))" for fd
    using listening.chosen [OF f, of EADDRNOTAVAIL fd] by (simp add: Gai_ok tcp_listen_def works_iff cong: conj_cong)
  ultimately show ?thesis by blast
qed (simp_all add: tcp_connect_def tcp_listen_def)

theorem tcp_no_descriptor_leak_witness:
  "let ep = \<lparr>ep_socket = Inr 5, ep_connect = Some EOTHER, ep_reuse = None, ep_bind = Some EOTHER, ep_listen = None\<rparr>;
       gai = Gai_ok [ep, ep\<lparr>ep_socket := Inr 6, ep_connect := None, ep_bind := None\<rparr>]
   in fresh_fds gai [4] \<and> tcp_connect gai [4] = (Inr 6, [6, 4]) \<and> tcp_listen gai [4] = (Inr 6, [6, 4])"
proof -
  let ?ep = "\<lparr>ep_socket = Inr 5, ep_connect = Some EOTHER, ep_reuse = None, ep_bind = Some EOTHER, ep_listen = None\<rparr>"
  let ?ok = "?ep\<lparr>ep_socket := Inr 6, ep_connect := None, ep_bind := None\<rparr>"
  have f: "fresh_fds (Gai_ok [?ep, ?ok]) [4]" by (simp add: fresh_fds_def)
  have "fst (tcp_listen (Gai_ok [?ep, ?ok]) [4]) = Inr 6"
    using tcp_no_descriptor_leak [OF f]
    by (auto simp: listens_def intro!: exI [of _ "[?ep]"])
  then show ?thesis
    using tcp_no_descriptor_leak [OF f] f
    by (auto simp: Let_def tcp_connect_def close_fd_def split: prod.splits)
qed

end
