(* ===== verification/Client.thy ===== *)
theory Client
  imports Hex Handshake Securechan Tcp
begin

text \<open>
  \<^verbatim>\<open>client/main.c\<close>: the interactive client.  Its state is the environment with the standard
  input still to be read, what has been printed, the echo flag of the terminal, and the
  \<open>cli_state\<close> of the source.  A \<open>continue\<close> of the command loop is a raise.
\<close>

record cli_state =
  cs_logged_in :: int
  cs_must_change :: int
  cs_deleted :: int
  cs_username :: bytes

record client_env = env +
  c_stdin :: bytes
  c_stdout :: bytes
  c_tty :: bool
  c_echo :: bool
  c_state :: cli_state

definition cli_state_zero :: cli_state where
  "cli_state_zero = \<lparr>cs_logged_in = 0, cs_must_change = 0, cs_deleted = 0, cs_username = []\<rparr>"

section \<open>Printing and reading\<close>

definition out :: "bytes \<Rightarrow> ('r client_env_scheme, 'e, unit) io" where
  "out b = put_io (\<lambda>s. s\<lparr>c_stdout := c_stdout s @ b\<rparr>)"

definition puts :: "string \<Rightarrow> ('r client_env_scheme, 'e, unit) io" where
  "puts line = out (ascii line @ [newline])"

definition status_to_string :: "16 word \<Rightarrow> bytes" where
  "status_to_string st = ascii
     (if st = status_val ST_OK then ''ok''
      else if st = status_val ST_ERR then ''error''
      else if st = status_val ST_ERR_AUTH then ''authentication error''
      else if st = status_val ST_ERR_DELETED then ''keys deleted (tombstone)''
      else if st = status_val ST_ERR_NOT_FOUND then ''not found''
      else if st = status_val ST_ERR_BAD_REQ then ''bad request''
      else if st = status_val ST_ERR_INTERNAL then ''internal error''
      else ''unknown status'')"

definition print_command_failure ::
  "string \<Rightarrow> 16 word \<Rightarrow> ('r client_env_scheme, unit, unit) io" where
  "print_command_failure command st =
     (if st = status_val ST_ERR_DELETED
      then puts ''Operation refused: keys deleted (tombstone). Re-registration required.''
      else then_io (out (ascii command @ ascii '' failed: '' @ status_to_string st @ [newline]))
        (bind_io (get_io (\<lambda>s. cs_must_change (c_state s))) (\<lambda>must_change.
         if st = status_val ST_ERR_AUTH \<and> must_change = 1
         then puts ''Hint: run 'changepw' first.'' else ret ())))"

definition trim_newline :: "bytes \<Rightarrow> bytes" where
  "trim_newline s = (if 0 < length s \<and> s ! (length s - 1) = newline then take (length s - 1) s else s)"

text \<open>\<open>fgets(buf, buf_len, stdin)\<close>: fails at the end of the input.\<close>

definition fgets_stdin :: "nat \<Rightarrow> ('r client_env_scheme, unit, bytes) io" where
  "fgets_stdin buf_len = (\<lambda>s.
     if c_stdin s = [] then (Inl (), s)
     else case fgets (buf_len - 1) (c_stdin s) of (l, r) \<Rightarrow> (Inr (cstr l), s\<lparr>c_stdin := r\<rparr>))"

definition read_line :: "string \<Rightarrow> nat \<Rightarrow> ('r client_env_scheme, unit, bytes) io" where
  "read_line prompt buf_len =
     (if buf_len = 0 then raise ()
      else then_io (out (ascii prompt))
        (bind_io (fgets_stdin buf_len) (\<lambda>buf. ret (trim_newline buf))))"

text \<open>\<open>tcsetattr\<close> with the echo flag on or off.\<close>

definition set_echo :: "bool \<Rightarrow> ('r client_env_scheme, unit, unit) io" where
  "set_echo b = then_io (lib_call ()) (put_io (\<lambda>s. s\<lparr>c_echo := b\<rparr>))"

definition read_password :: "string \<Rightarrow> nat \<Rightarrow> ('r client_env_scheme, unit, bytes) io" where
  "read_password prompt buf_len =
     (if buf_len = 0 then raise ()
      else bind_io (get_io c_tty) (\<lambda>had_tty.
      then_io (out (ascii prompt))
      (if had_tty
       then then_io (lib_call ())
         (bind_io (get_io c_echo) (\<lambda>old_echo.
          then_io (set_echo False)
          (bind_io (on_error (fgets_stdin buf_len) (set_echo old_echo)) (\<lambda>buf.
           bind_io (try_io (set_echo old_echo)) (\<lambda>_ :: unit + unit.
           then_io (out [newline]) (ret (trim_newline buf)))))))
       else bind_io (fgets_stdin buf_len) (\<lambda>buf. ret (trim_newline buf)))))"

text \<open>\<open>fopen\<close>, then \<open>fseek\<close>, \<open>ftell\<close>, \<open>fseek\<close>, \<open>malloc\<close>, \<open>fread\<close> and \<open>fclose\<close>.\<close>

definition read_file_all :: "bytes \<Rightarrow> ('r env_scheme, unit, bytes) io" where
  "read_file_all path = bind_io (open_read () path) (\<lambda>buf. then_io (lib_calls 6 ()) (ret buf))"

section \<open>Requests\<close>

definition send_request ::
  "'p platform_scheme \<Rightarrow> int \<Rightarrow> bytes \<Rightarrow> dss_opcode \<Rightarrow> bytes \<Rightarrow> ('r env_scheme, unit, unit) io" where
  "send_request P fd c2s_key opcode pt =
     (let req_payload_len = GCM_IV_LEN + GCM_TAG_LEN + 1 + length pt in
      if req_payload_len > UINT32_MAX then raise ()
      else bind_io (rand_bytes () REQ_NONCE_LEN) (\<lambda>nonce.
      let req_hdr = \<lparr>hdr_req_nonce = nonce, hdr_payload_len = htonl P (of_nat req_payload_len)\<rparr>;
          req_aad = dsspacket_build_aad req_hdr
      in then_io (lib_calls 2 ())
        (bind_io (rand_bytes () GCM_IV_LEN) (\<lambda>iv.
         bind_io (sc_aead_encrypt P c2s_key iv req_aad (opcode_val opcode # pt)) (\<lambda>(ct, tag).
         or_raise () (dsspacket_send P fd req_hdr (Some (iv @ tag @ ct))))))))"

text \<open>The response: the status and the data.\<close>

definition parse_response ::
  "'p platform_scheme \<Rightarrow> dss_opcode \<Rightarrow> bytes \<Rightarrow> ('r env_scheme, unit, 16 word \<times> bytes) io" where
  "parse_response P opcode resp_pt =
     (if length resp_pt < 1 + 6 then raise ()
      else if resp_pt ! 0 \<noteq> opcode_val opcode then raise ()
      else let status = ntohs P (load16 P (take 2 (drop 1 resp_pt)));
               data_len = ntohl P (load32 P (take 4 (drop 3 resp_pt)))
      in if length resp_pt \<noteq> 1 + 6 + unat data_len then raise ()
         else then_io (if 0 < data_len then lib_call () else ret ())
           (ret (status, take (unat data_len) (drop 7 resp_pt))))"

definition recv_response ::
  "'p platform_scheme \<Rightarrow> int \<Rightarrow> bytes \<Rightarrow> dss_opcode \<Rightarrow> ('r env_scheme, unit, 16 word \<times> bytes) io" where
  "recv_response P fd s2c_key opcode =
     bind_io (or_raise () (dsspacket_recv P fd)) (\<lambda>(resp_hdr, resp_payload).
     let resp_payload_len = unat (ntohl P (hdr_payload_len resp_hdr)) in
     if resp_payload_len < GCM_IV_LEN + GCM_TAG_LEN then raise ()
     else let resp_aad = dsspacket_build_aad resp_hdr;
              iv = take GCM_IV_LEN (the resp_payload);
              tag = take GCM_TAG_LEN (drop GCM_IV_LEN (the resp_payload));
              ct = drop (GCM_IV_LEN + GCM_TAG_LEN) (the resp_payload)
     in then_io (lib_call ())
       (bind_io (sc_aead_decrypt P s2c_key iv resp_aad ct tag) (\<lambda>resp_pt.
        parse_response P opcode resp_pt)))"

definition send_request_and_get_response ::
  "'p platform_scheme \<Rightarrow> int \<Rightarrow> bytes \<Rightarrow> bytes \<Rightarrow> dss_opcode \<Rightarrow> bytes \<Rightarrow>
   ('r env_scheme, unit, 16 word \<times> bytes) io" where
  "send_request_and_get_response P fd c2s_key s2c_key opcode pt =
     then_io (send_request P fd c2s_key opcode pt) (recv_response P fd s2c_key opcode)"

section \<open>The handshake\<close>

definition client_hello :: "'p platform_scheme \<Rightarrow> int \<Rightarrow> ('r env_scheme, unit, bytes \<times> bytes) io" where
  "client_hello P fd = bind_io (hs_gen_ecdh_keypair P) (\<lambda>(client_pub, client_ecdh_priv).
     then_io (hs_send_chlo P fd client_pub) (ret (client_pub, client_ecdh_priv)))"

definition client_finish ::
  "'p platform_scheme \<Rightarrow> int \<Rightarrow> bytes \<Rightarrow> bytes \<Rightarrow> ('r env_scheme, unit, bytes \<times> bytes) io" where
  "client_finish P fd client_pub client_ecdh_priv =
     bind_io (hs_recv_shlo P fd) (\<lambda>(server_pub, sig).
     if length client_pub > SIZE_MAX_64 - length server_pub then raise ()
     else then_io (lib_call ())
     (let transcript = client_pub @ server_pub in
      then_io (hs_verify_transcript P (ascii ''client/res/server_public.pem'') transcript sig)
      (bind_io (hs_compute_shared P client_ecdh_priv server_pub) (\<lambda>shared_secret.
       hs_derive_keys P shared_secret transcript))))"

definition run_handshake :: "'p platform_scheme \<Rightarrow> int \<Rightarrow> ('r env_scheme, unit, bytes \<times> bytes) io" where
  "run_handshake P fd =
     bind_io (client_hello P fd) (\<lambda>(client_pub, client_ecdh_priv).
     client_finish P fd client_pub client_ecdh_priv)"

section \<open>The commands\<close>

text \<open>Printing a message and going on to the next command.\<close>

definition give_up :: "string \<Rightarrow> ('r client_env_scheme, unit, 'a) io" where
  "give_up line = then_io (puts line) (raise ())"

definition request ::
  "'p platform_scheme \<Rightarrow> int \<Rightarrow> bytes \<times> bytes \<Rightarrow> dss_opcode \<Rightarrow> bytes \<Rightarrow>
   ('r client_env_scheme, unit, 16 word \<times> bytes) io" where
  "request P fd ks opcode pt =
     bind_io (try_io (send_request_and_get_response P fd (fst ks) (snd ks) opcode pt)) (\<lambda>r.
     case r of Inl (_ :: unit) \<Rightarrow> give_up ''request failed'' | Inr x \<Rightarrow> ret x)"

definition set_cli :: "(cli_state \<Rightarrow> cli_state) \<Rightarrow> ('r client_env_scheme, 'e, unit) io" where
  "set_cli f = put_io (\<lambda>s. s\<lparr>c_state := f (c_state s)\<rparr>)"

definition ask_password :: "string \<Rightarrow> ('r client_env_scheme, unit, bytes) io" where
  "ask_password prompt =
     bind_io (try_io (read_password prompt 256)) (\<lambda>r.
     case r of Inl (_ :: unit) \<Rightarrow> give_up ''failed to read password''
     | Inr pw \<Rightarrow> if length pw = 0 \<or> length pw > 255
         then give_up ''password length must be 1..255'' else ret pw)"

definition cmd_login ::
  "'p platform_scheme \<Rightarrow> int \<Rightarrow> bytes \<times> bytes \<Rightarrow> bytes \<Rightarrow> ('r client_env_scheme, unit, unit) io" where
  "cmd_login P fd ks arg =
     (if arg = [] then give_up ''usage: login <user>''
      else let ulen = length arg in
      if ulen = 0 \<or> ulen > 255 then give_up ''username length must be 1..255''
      else bind_io (ask_password ''password: '') (\<lambda>pw.
      let payload = of_nat ulen # arg @ of_nat (length pw) # pw in
      bind_io (request P fd ks OP_AUTH payload) (\<lambda>(st, resp).
      if st = status_val ST_OK \<and> length resp = 2
      then then_io (set_cli (\<lambda>c. c\<lparr>cs_logged_in := 1, cs_must_change := of_bool (resp ! 0 \<noteq> 0),
                                   cs_deleted := of_bool (resp ! 1 \<noteq> 0), cs_username := arg\<rparr>))
        (then_io (out (ascii ''logged in as '' @ arg @ ascii '' (must_change='' @
             show_int (of_bool (resp ! 0 \<noteq> 0)) @ ascii '', deleted='' @
             show_int (of_bool (resp ! 1 \<noteq> 0)) @ ascii '')'' @ [newline]))
          (if resp ! 0 \<noteq> 0
           then puts ''Password change required before using other operations.'' else ret ()))
      else out (ascii ''login failed: '' @ status_to_string st @ [newline]))))"

definition cmd_changepw ::
  "'p platform_scheme \<Rightarrow> int \<Rightarrow> bytes \<times> bytes \<Rightarrow> ('r client_env_scheme, unit, unit) io" where
  "cmd_changepw P fd ks =
     bind_io (get_io (\<lambda>s. cs_logged_in (c_state s))) (\<lambda>logged_in.
     if logged_in = 0 then give_up ''not logged in''
     else bind_io (ask_password ''new password: '') (\<lambda>new_pw.
     bind_io (request P fd ks OP_CHANGE_PASSWORD (of_nat (length new_pw) # new_pw)) (\<lambda>(st, resp).
     if st = status_val ST_OK
     then then_io (set_cli (\<lambda>c. c\<lparr>cs_must_change := 0\<rparr>)) (puts ''password changed'')
     else print_command_failure ''changepw'' st)))"

definition cmd_createkeys ::
  "'p platform_scheme \<Rightarrow> int \<Rightarrow> bytes \<times> bytes \<Rightarrow> ('r client_env_scheme, unit, unit) io" where
  "cmd_createkeys P fd ks =
     bind_io (request P fd ks OP_CREATE_KEYS []) (\<lambda>(st, resp).
     if st = status_val ST_OK then puts ''keys created''
     else print_command_failure ''createkeys'' st)"

definition cmd_signdoc ::
  "'p platform_scheme \<Rightarrow> int \<Rightarrow> bytes \<times> bytes \<Rightarrow> bytes \<Rightarrow> ('r client_env_scheme, unit, unit) io" where
  "cmd_signdoc P fd ks arg =
     (if arg = [] then give_up ''usage: signdoc <file>''
      else bind_io (try_io (read_file_all arg)) (\<lambda>r.
      case r of Inl (_ :: unit) \<Rightarrow> give_up ''failed to read file''
      | Inr doc \<Rightarrow> bind_io (request P fd ks OP_SIGN_DOC doc) (\<lambda>(st, resp).
          if st = status_val ST_OK
          then out (ascii ''signature ('' @ show_nat (length resp) @ ascii '' bytes):'' @ [newline] @
                 hex_pairs resp @ [newline])
          else print_command_failure ''signdoc'' st)))"

definition cmd_getpub ::
  "'p platform_scheme \<Rightarrow> int \<Rightarrow> bytes \<times> bytes \<Rightarrow> bytes \<Rightarrow> ('r client_env_scheme, unit, unit) io" where
  "cmd_getpub P fd ks arg =
     bind_io
       (if arg = [] then ret []
        else let ulen = length arg in
          if ulen = 0 \<or> ulen > 255 then give_up ''username length must be 1..255''
          else ret (of_nat ulen # arg))
       (\<lambda>payload. bind_io (request P fd ks OP_GET_PUBLIC_KEY payload) (\<lambda>(st, resp).
        if st = status_val ST_OK
        then out (resp @ (if resp = [] \<or> resp ! (length resp - 1) \<noteq> newline then [newline] else []))
        else print_command_failure ''getpub'' st))"

definition cmd_deletekeys ::
  "'p platform_scheme \<Rightarrow> int \<Rightarrow> bytes \<times> bytes \<Rightarrow> ('r client_env_scheme, unit, unit) io" where
  "cmd_deletekeys P fd ks =
     bind_io (request P fd ks OP_DELETE_KEYS []) (\<lambda>(st, resp).
     if st = status_val ST_OK
     then then_io (set_cli (\<lambda>c. c\<lparr>cs_deleted := 1\<rparr>)) (puts ''keys deleted'')
     else print_command_failure ''deletekeys'' st)"

definition cmd_logout ::
  "'p platform_scheme \<Rightarrow> int \<Rightarrow> bytes \<times> bytes \<Rightarrow> ('r client_env_scheme, unit, unit) io" where
  "cmd_logout P fd ks =
     bind_io (request P fd ks OP_LOGOUT []) (\<lambda>(st, resp).
     if st = status_val ST_OK
     then then_io (set_cli (\<lambda>_. cli_state_zero)) (puts ''logged out'')
     else print_command_failure ''logout'' st)"

text \<open>
  One line of input: \<open>Inr True\<close> is \<open>quit\<close>.  The second \<open>strtok\<close> has no delimiters, so it returns
  whatever is left; no argument and an empty one are treated alike throughout.
\<close>

definition client_command ::
  "'p platform_scheme \<Rightarrow> int \<Rightarrow> bytes \<times> bytes \<Rightarrow> bytes \<Rightarrow> ('r client_env_scheme, unit, bool) io" where
  "client_command P fd ks line =
     (case strtok [32, 9] line of
        None \<Rightarrow> ret False
      | Some (cmd, r) \<Rightarrow>
          let arg = (case strtok [] r of None \<Rightarrow> []
                     | Some (a, _) \<Rightarrow> dropWhile (\<lambda>c. c = 32 \<or> c = 9) a)
          in if cmd = ascii ''quit'' then ret True
          else then_io
            (if cmd = ascii ''login'' then cmd_login P fd ks arg
             else if cmd = ascii ''changepw'' then cmd_changepw P fd ks
             else if cmd = ascii ''createkeys'' then cmd_createkeys P fd ks
             else if cmd = ascii ''signdoc'' then cmd_signdoc P fd ks arg
             else if cmd = ascii ''getpub'' then cmd_getpub P fd ks arg
             else if cmd = ascii ''deletekeys'' then cmd_deletekeys P fd ks
             else if cmd = ascii ''logout'' then cmd_logout P fd ks
             else puts ''commands: login <user>, changepw, createkeys, signdoc <file>, getpub <user>, deletekeys, logout, quit'')
            (ret False))"

section \<open>What the client changes\<close>

context env_frame
begin

lemma within_send_request:
  assumes 1: "\<And>s p. R s (s\<lparr>w_rpos := p\<rparr>)" and 2: "\<And>s es b. R s (s\<lparr>w_plan := es, w_tx := b\<rparr>)"
  shows "within R (send_request P fd k opc pt)"
proof -
  have "R s (s\<lparr>w_tick := k, w_rpos := p\<rparr>)" for s k p by (rule frame_trans [OF frame_tick 1])
  then show ?thesis
    unfolding send_request_def Let_def
    by (intro within_then within_if within_raise within_bind within_case_prod within_or_raise
        rand_bytes_within dsspacket_send_within 2) auto
qed

lemma within_recv_response:
  assumes 1: "\<And>s es. R s (s\<lparr>w_rx := es\<rparr>)"
  shows "within R (recv_response P fd k opc)"
proof -
  have "R s (s\<lparr>w_tick := k, w_rx := es\<rparr>)" for s k es by (rule frame_trans [OF frame_tick 1])
  then show ?thesis
    unfolding recv_response_def parse_response_def Let_def
    by (intro within_then within_if within_raise within_bind within_case_prod within_or_raise
        dsspacket_recv_within) auto
qed

end

context net_frame
begin

lemma within_exchange [simp, intro]: "within R (send_request_and_get_response P fd k k' opc pt)"
  unfolding send_request_and_get_response_def
  by (intro within_then within_send_request within_recv_response frame_rpos frame_tx frame_rx)

lemma within_run_handshake: "within R (run_handshake P fd)"
  unfolding run_handshake_def client_hello_def client_finish_def hs_recv_shlo_def hs_recv_frame_def
    hs_gen_ecdh_keypair_def hs_verify_transcript_def hs_send_chlo_def hs_send_frame_def hs_compute_shared_def
    hs_derive_keys_def hs_hkdf_extract_expand_def hs_hkdf_extract_def hs_hkdf_expand_def Let_def
  by (intro within_bind within_if within_then within_or_raise within_case_prod within_case_option
      within_raise within_ret within_lib_call within_lib_calls within_open_read net_prims)

end

text \<open>
  The password prompt is the only place that touches the terminal, so it is a law of its own: an
  invariant that does not mention the echo flag has it from \<open>within_read_password\<close>.
\<close>

locale prompt_frame = env_frame R
    for R :: "'r client_env_scheme \<Rightarrow> 'r client_env_scheme \<Rightarrow> bool" +
  assumes frame_out: "R s (s\<lparr>c_stdout := b\<rparr>)"
    and frame_in: "fgets n (c_stdin s) = (l, r) \<Longrightarrow> R s (s\<lparr>c_stdin := r\<rparr>)"
begin

lemma within_out [simp, intro]: "within R (out b)"
  unfolding out_def by (rule within_put) (rule frame_out)

lemma within_puts [simp, intro]: "within R (puts l)"
  unfolding puts_def by (rule within_out)

lemma within_fgets [simp, intro]: "within R (fgets_stdin n)"
  by (rule withinI) (auto simp: fgets_stdin_def frame_refl frame_in split: if_splits prod.splits)

lemma within_read_line [simp, intro]: "within R (read_line p n)"
  unfolding read_line_def by (intro within_if within_then within_bind) auto

lemma within_read_password:
  assumes "\<And>s on. R s (s\<lparr>c_echo := on\<rparr>)"
  shows "within R (read_password p n)"
proof -
  have "within R (set_echo on)" for on
    unfolding set_echo_def by (intro within_then within_put assms) auto
  then show ?thesis
    unfolding read_password_def
    by (intro within_if within_bind within_then within_on_error within_try) auto
qed

lemma within_give_up [simp, intro]: "within R (give_up l)"
  unfolding give_up_def by (intro within_then) auto

lemma within_failure [simp, intro]: "within R (print_command_failure c st)"
  unfolding print_command_failure_def by (intro within_if within_then within_bind) auto

lemma within_read_file [simp, intro]: "within R (read_file_all p)"
  unfolding read_file_all_def by (intro within_bind within_then) auto

lemma within_ask_password:
  assumes "within R (read_password p 256)"
  shows "within R (ask_password p)"
  unfolding ask_password_def by (intro within_bind within_try within_case_sum within_if assms) auto

end

locale client_io = net_frame R + prompt_frame R
    for R :: "'r client_env_scheme \<Rightarrow> 'r client_env_scheme \<Rightarrow> bool" +
  assumes frame_cli: "R s (s\<lparr>c_state := c\<rparr>)"
begin

lemma within_set_cli [simp, intro]: "within R (set_cli f)"
  unfolding set_cli_def by (rule within_put) (rule frame_cli)

lemma within_request [simp, intro]: "within R (request P fd ks opc pt)"
  unfolding request_def by (intro within_bind within_try within_case_sum) auto

end

locale client_frame = client_io +
  assumes frame_password: "within R (read_password p n)"
begin

lemma within_command: "within R (client_command P fd ks line)"
  unfolding client_command_def cmd_login_def cmd_changepw_def cmd_createkeys_def cmd_signdoc_def
    cmd_getpub_def cmd_deletekeys_def cmd_logout_def Let_def
  by (intro within_case_option within_case_prod within_if within_then within_bind within_try
      within_case_sum within_ask_password frame_password) auto

end

interpretation input: client_io "\<lambda>s t. length (c_stdin t) \<le> length (c_stdin s)"
  by unfold_locales (auto dest: fgets_split)

interpretation input_shrinks: client_frame "\<lambda>s t. length (c_stdin t) \<le> length (c_stdin s)"
  by unfold_locales (rule input.within_read_password, simp)

interpretation files: client_io "\<lambda>s t. (w_files s, w_dirs s) = (w_files t, w_dirs t)"
  by unfold_locales auto

interpretation client_files: client_frame "\<lambda>s t. (w_files s, w_dirs s) = (w_files t, w_dirs t)"
  by unfold_locales (rule files.within_read_password, simp)

lemma fgets_stdin_shrinks:
  "fgets_stdin n s = (Inr l, t) \<Longrightarrow> 1 < n \<Longrightarrow> length (c_stdin t) < length (c_stdin s)"
  by (cases "n - 1") (auto simp: fgets_stdin_def simp del: fgets.simps split: if_splits prod.splits
      dest!: fgets_shorter [OF sym])

lemma read_line_shrinks:
  "read_line p n s = (Inr l, t) \<Longrightarrow> 1 < n \<Longrightarrow> length (c_stdin t) < length (c_stdin s)"
  by (auto simp: read_line_def out_def io_inv split: if_splits dest!: fgets_stdin_shrinks)

section \<open>The loop and the program\<close>

function client_loop ::
  "'p platform_scheme \<Rightarrow> int \<Rightarrow> bytes \<times> bytes \<Rightarrow> 'r client_env_scheme \<Rightarrow> 'r client_env_scheme" where
  "client_loop P fd ks s =
     (case read_line ''dss> '' 1024 s of
        (Inl _, t) \<Rightarrow> t
      | (Inr line, t) \<Rightarrow>
          (case client_command P fd ks line t of
             (r, u) \<Rightarrow> if r = Inr True then u else client_loop P fd ks u))"
  by pat_completeness auto
termination
proof (relation "measure (\<lambda>(P, fd, ks, s). length (c_stdin s))", goal_cases)
  case 1
  show ?case by simp
next
  case (2 P fd ks s x t l r u)
  have "length (c_stdin t) < length (c_stdin s)"
    using read_line_shrinks [of "''dss> ''" 1024 s l t] 2(1,2) by simp
  moreover have "length (c_stdin u) \<le> length (c_stdin t)"
    using withinD [OF input_shrinks.within_command 2(3) [symmetric]] .
  ultimately show ?case by simp
qed

declare client_loop.simps [simp del]

text \<open>\<open>main\<close>: the exit code, the open descriptors and the state at the end.\<close>

definition client_main ::
  "'p platform_scheme \<Rightarrow> gai_result \<Rightarrow> 'r client_env_scheme \<Rightarrow> int \<times> int list \<times> 'r client_env_scheme" where
  "client_main P gai s0 =
     (let s = s0\<lparr>c_state := cli_state_zero\<rparr> in
      case tcp_connect gai [] of
        (Inl _, fds) \<Rightarrow> (1, fds, s)
      | (Inr fd, fds) \<Rightarrow>
          (case run_handshake P fd s of
             (Inl _, t) \<Rightarrow> (1, close_fd fd fds, t)
           | (Inr ks, t) \<Rightarrow>
               (case puts ''Connected and handshake complete.'' t of
                  (_ :: unit + unit, u) \<Rightarrow> (0, close_fd fd fds, client_loop P fd ks u))))"

end
