(* ===== verification/Auth.thy ===== *)
theory Auth
  imports Hex
begin

text \<open>
  \<^verbatim>\<open>server/auth.c\<close>: the account database.  The globals \<open>g_users\<close>, \<open>g_users_cap\<close> and
  \<open>g_db_path\<close> are the record \<open>auth_env\<close>, an extension of the environment; a pointer to a user
  is an index into \<open>g_users\<close>.  The operations load and write the text database, migrate a seed
  file, and check and change passwords and tombstones.
\<close>

definition AUTH_SALT_LEN :: nat where "AUTH_SALT_LEN = 16"
definition AUTH_HASH_LEN :: nat where "AUTH_HASH_LEN = 32"
definition AUTH_PBKDF2_ITERS :: nat where "AUTH_PBKDF2_ITERS = 200000"
definition AUTH_LINE_MAX :: nat where "AUTH_LINE_MAX = 1024"

record auth_user =
  u_username :: bytes
  u_must_change :: int
  u_deleted :: int
  u_salt :: bytes
  u_hash :: bytes

record auth_env = env +
  g_users :: "auth_user list"
  g_users_cap :: nat
  g_db_path :: "bytes option"

section \<open>Parsing and printing accounts\<close>

definition auth_parse_bool :: "bytes \<Rightarrow> int option" where
  "auth_parse_bool s =
     (case strtol s of (v, e, erange) \<Rightarrow>
        if erange \<or> s = [] \<or> e \<noteq> [] then None
        else if v \<noteq> 0 \<and> v \<noteq> 1 then None
        else Some v)"

definition auth_parse_db_line :: "bytes \<Rightarrow> ('r env_scheme, unit, auth_user) io" where
  "auth_parse_db_line line =
     (case strtok_n 5 [colon] line of
        None \<Rightarrow> raise ()
      | Some (flds, r) \<Rightarrow>
          if strtok [colon] r \<noteq> None then raise ()
          else if flds ! 0 = [] \<or> colon \<in> set (flds ! 0) then raise ()
          else then_io (lib_call ())
            (case (auth_parse_bool (flds ! 1), auth_parse_bool (flds ! 2),
                   auth_hex_decode (flds ! 3) AUTH_SALT_LEN,
                   auth_hex_decode (flds ! 4) AUTH_HASH_LEN) of
               (Some must_change, Some deleted, Some salt, Some hash) \<Rightarrow>
                 ret \<lparr>u_username = flds ! 0, u_must_change = must_change, u_deleted = deleted,
                      u_salt = salt, u_hash = hash\<rparr>
             | _ \<Rightarrow> raise ()))"

text \<open>The record \<open>"%s:%d:%d:%s:%s\n"\<close> that both writers of the database print.\<close>

definition auth_print_user :: "bytes \<Rightarrow> int \<Rightarrow> int \<Rightarrow> bytes \<Rightarrow> bytes \<Rightarrow> bytes" where
  "auth_print_user name must_change deleted salt_hex hash_hex =
     name @ [colon] @ show_int must_change @ [colon] @ show_int deleted @ [colon] @
     salt_hex @ [colon] @ hash_hex @ [newline]"

definition auth_pbkdf2 ::
  "'p platform_scheme \<Rightarrow> bytes \<Rightarrow> bytes \<Rightarrow> ('r env_scheme, unit, bytes) io" where
  "auth_pbkdf2 P password salt = then_io (lib_call ())
     (ret (pbkdf2 P (cstr password) salt AUTH_PBKDF2_ITERS AUTH_HASH_LEN))"

section \<open>The table of users\<close>

fun auth_find_user :: "auth_user list \<Rightarrow> bytes \<Rightarrow> nat option" where
  "auth_find_user [] username = None"
| "auth_find_user (u # us) username =
     (if u_username u = username then Some 0 else map_option Suc (auth_find_user us username))"

definition auth_clear_state :: "'r auth_env_scheme \<Rightarrow> 'r auth_env_scheme" where
  "auth_clear_state s = s\<lparr>g_users := [], g_users_cap := 0, g_db_path := None\<rparr>"

definition auth_push_user :: "auth_user \<Rightarrow> ('r auth_env_scheme, unit, unit) io" where
  "auth_push_user u =
     bind_io (get_io (\<lambda>s. (length (g_users s), g_users_cap s))) (\<lambda>(len, cap).
     then_io
       (if len = cap
        then let new_cap = (if cap = 0 then 8 else (cap * 2) mod 2 ^ 64) in
          if new_cap < cap then raise ()
          else then_io (lib_call ()) (put_io (\<lambda>s. s\<lparr>g_users_cap := new_cap\<rparr>))
        else ret ())
       (put_io (\<lambda>s. s\<lparr>g_users := g_users s @ [u]\<rparr>)))"

definition auth_update_user :: "nat \<Rightarrow> (auth_user \<Rightarrow> auth_user) \<Rightarrow> 'r auth_env_scheme \<Rightarrow> 'r auth_env_scheme" where
  "auth_update_user i f s = s\<lparr>g_users := (g_users s)[i := f (g_users s ! i)]\<rparr>"

section \<open>Writing and loading the database\<close>

fun auth_write_users :: "bytes \<Rightarrow> auth_user list \<Rightarrow> ('r env_scheme, unit, unit) io" where
  "auth_write_users tmp [] = ret ()"
| "auth_write_users tmp (u # us) =
     bind_io (from_option () (auth_hex_encode (u_salt u) (AUTH_SALT_LEN * 2 + 1))) (\<lambda>salt_hex.
     bind_io (from_option () (auth_hex_encode (u_hash u) (AUTH_HASH_LEN * 2 + 1))) (\<lambda>hash_hex.
     then_io (file_write () tmp
       (auth_print_user (u_username u) (u_must_change u) (u_deleted u) salt_hex hash_hex))
     (auth_write_users tmp us)))"

text \<open>
  The new contents go to \<open>path.tmp\<close>, are flushed and synced, and then renamed over the database;
  a failure on the way removes the temporary file.
\<close>

definition auth_write_db :: "bytes \<Rightarrow> ('r auth_env_scheme, unit, unit) io" where
  "auth_write_db path =
     (let tmp_path = path @ ascii ''.tmp'' in
      then_io (lib_call ())
      (then_io (open_write () tmp_path)
      (then_io
        (on_error
          (bind_io (get_io g_users) (\<lambda>us.
           then_io (auth_write_users tmp_path us) (lib_calls 2 ())))
          (then_io (try_io (file_close () tmp_path)) (unlink () tmp_path)))
      (then_io (on_error (file_close () tmp_path) (unlink () tmp_path))
               (on_error (rename () tmp_path path) (unlink () tmp_path))))))"

definition auth_make_seed_path :: "bytes \<Rightarrow> bytes \<Rightarrow> ('r env_scheme, unit, bytes) io" where
  "auth_make_seed_path db_path suffix = then_io (lib_call ())
     (let base_len = (if strrchr db_path 46 = Some (ascii ''.db'') then length db_path - 3
                      else length db_path)
      in ret (take base_len db_path @ suffix))"

fun auth_seed_lines ::
  "'p platform_scheme \<Rightarrow> bytes \<Rightarrow> bytes list \<Rightarrow> ('r env_scheme, unit, unit) io" where
  "auth_seed_lines P db [] = ret ()"
| "auth_seed_lines P db (line # ls) =
     (if line = [] then auth_seed_lines P db ls
      else case strtok_n 4 [colon] line of
        None \<Rightarrow> raise ()
      | Some (flds, r) \<Rightarrow>
          if strtok [colon] r \<noteq> None then raise ()
          else if flds ! 0 = [] \<or> colon \<in> set (flds ! 0) then raise ()
          else bind_io (from_option () (auth_parse_bool (flds ! 2))) (\<lambda>must_change.
          bind_io (from_option () (auth_parse_bool (flds ! 3))) (\<lambda>deleted.
          bind_io (rand_bytes () AUTH_SALT_LEN) (\<lambda>salt.
          bind_io (auth_pbkdf2 P (flds ! 1) salt) (\<lambda>hash.
          bind_io (from_option () (auth_hex_encode salt (AUTH_SALT_LEN * 2 + 1))) (\<lambda>salt_hex.
          bind_io (from_option () (auth_hex_encode hash (AUTH_HASH_LEN * 2 + 1))) (\<lambda>hash_hex.
          then_io (file_write () db
            (auth_print_user (flds ! 0) must_change deleted salt_hex hash_hex))
          (auth_seed_lines P db ls))))))))"

text \<open>
  Everything from \<open>auth_make_seed_path\<close> to the final \<open>rename\<close> is guarded by the \<open>cleanup\<close>
  block, which unlinks the database on any failure.  (Closing files opened for reading has no
  effect the program can see and is left out of the cleanup.)
\<close>

definition auth_bootstrap_from_seed_if_needed ::
  "'p platform_scheme \<Rightarrow> bytes option \<Rightarrow> bytes option \<Rightarrow> ('r env_scheme, unit, unit) io" where
  "auth_bootstrap_from_seed_if_needed P db_path seed_path =
     (case db_path of
        None \<Rightarrow> raise ()
      | Some db \<Rightarrow> on_error
          (case seed_path of
             None \<Rightarrow> raise ()
           | Some seed \<Rightarrow>
               bind_io (auth_make_seed_path db (ascii ''.seed.consumed'')) (\<lambda>consumed_path.
               bind_io (get_io (\<lambda>s. path_exists s db)) (\<lambda>db_there.
               if db_there then ret ()
               else bind_io (get_io (\<lambda>s. path_exists s seed)) (\<lambda>seed_there.
               if \<not> seed_there then ret ()
               else bind_io (open_read () seed) (\<lambda>content.
               then_io (open_write () db)
               (then_io
                 (on_error
                   (then_io (auth_seed_lines P db (read_lines (AUTH_LINE_MAX - 2) content))
                            (lib_call ()))
                   (try_io (file_close () db)))
               (then_io (file_close () db)
               (then_io (lib_call ())
                 (rename () seed consumed_path)))))))))
          (unlink () db))"

definition auth_bootstrap_from_seed ::
  "'p platform_scheme \<Rightarrow> bytes \<Rightarrow> ('r env_scheme, unit, unit) io" where
  "auth_bootstrap_from_seed P db_path =
     bind_io (auth_make_seed_path db_path (ascii ''.seed'')) (\<lambda>seed_path.
     auth_bootstrap_from_seed_if_needed P (Some db_path) (Some seed_path))"

fun auth_load_lines :: "bytes list \<Rightarrow> ('r auth_env_scheme, unit, unit) io" where
  "auth_load_lines [] = ret ()"
| "auth_load_lines (line # ls) =
     (if line = [] then auth_load_lines ls
      else bind_io (auth_parse_db_line line) (\<lambda>u.
        bind_io (get_io (\<lambda>s. auth_find_user (g_users s) (u_username u))) (\<lambda>found.
        if found \<noteq> None then raise ()
        else then_io (auth_push_user u) (auth_load_lines ls))))"

definition auth_load_db ::
  "'p platform_scheme \<Rightarrow> bytes option \<Rightarrow> ('r auth_env_scheme, unit, unit) io" where
  "auth_load_db P path =
     (case path of
        None \<Rightarrow> raise ()
      | Some p \<Rightarrow>
          then_io (auth_bootstrap_from_seed P p)
          (bind_io (open_read () p) (\<lambda>content.
           then_io (put_io auth_clear_state)
           (on_error
             (then_io (auth_load_lines (read_lines (AUTH_LINE_MAX - 2) content))
             (then_io (lib_calls 2 ())
             (then_io (lib_call ()) (put_io (\<lambda>s. s\<lparr>g_db_path := Some p\<rparr>)))))
             (put_io auth_clear_state)))))"

section \<open>Passwords and tombstones\<close>

definition auth_apply_new_password ::
  "'p platform_scheme \<Rightarrow> nat \<Rightarrow> bytes \<Rightarrow> ('r auth_env_scheme, unit, unit) io" where
  "auth_apply_new_password P i new_pw =
     bind_io (rand_bytes () AUTH_SALT_LEN) (\<lambda>new_salt.
     bind_io (auth_pbkdf2 P new_pw new_salt) (\<lambda>new_hash.
     put_io (auth_update_user i
       (\<lambda>u. u\<lparr>u_salt := new_salt, u_hash := new_hash, u_must_change := 0\<rparr>))))"

definition auth_verify_password ::
  "'p platform_scheme \<Rightarrow> bytes \<Rightarrow> bytes \<Rightarrow> ('r auth_env_scheme, unit, int \<times> int) io" where
  "auth_verify_password P username password =
     bind_io (get_io (\<lambda>s. (g_users s, auth_find_user (g_users s) username))) (\<lambda>(us, found).
     case found of
       None \<Rightarrow> raise ()
     | Some i \<Rightarrow> bind_io (auth_pbkdf2 P password (u_salt (us ! i))) (\<lambda>check_hash.
         if check_hash \<noteq> u_hash (us ! i) then raise ()
         else ret (u_must_change (us ! i), u_deleted (us ! i))))"

definition auth_change_password ::
  "'p platform_scheme \<Rightarrow> bytes \<Rightarrow> bytes \<Rightarrow> bytes \<Rightarrow> ('r auth_env_scheme, unit, unit) io" where
  "auth_change_password P username old_pw new_pw =
     bind_io (get_io (\<lambda>s. (g_db_path s, g_users s, auth_find_user (g_users s) username)))
     (\<lambda>(db, us, found).
     case db of
       None \<Rightarrow> raise ()
     | Some path \<Rightarrow>
         case found of
           None \<Rightarrow> raise ()
         | Some i \<Rightarrow> bind_io (auth_pbkdf2 P old_pw (u_salt (us ! i))) (\<lambda>old_hash.
             if old_hash \<noteq> u_hash (us ! i) then raise ()
             else then_io (auth_apply_new_password P i new_pw) (auth_write_db path)))"

definition auth_change_password_authenticated ::
  "'p platform_scheme \<Rightarrow> bytes \<Rightarrow> bytes \<Rightarrow> ('r auth_env_scheme, unit, unit) io" where
  "auth_change_password_authenticated P username new_pw =
     bind_io (get_io (\<lambda>s. (g_db_path s, auth_find_user (g_users s) username))) (\<lambda>(db, found).
     case db of
       None \<Rightarrow> raise ()
     | Some path \<Rightarrow>
         case found of
           None \<Rightarrow> raise ()
         | Some i \<Rightarrow> then_io (auth_apply_new_password P i new_pw) (auth_write_db path))"

definition auth_get_deleted :: "bytes \<Rightarrow> ('r auth_env_scheme, unit, int) io" where
  "auth_get_deleted username =
     bind_io (get_io (\<lambda>s. (g_users s, auth_find_user (g_users s) username))) (\<lambda>(us, found).
     case found of None \<Rightarrow> raise () | Some i \<Rightarrow> ret (u_deleted (us ! i)))"

definition auth_set_deleted :: "bytes \<Rightarrow> int \<Rightarrow> ('r auth_env_scheme, unit, unit) io" where
  "auth_set_deleted username deleted =
     bind_io (get_io (\<lambda>s. (g_db_path s, g_users s, auth_find_user (g_users s) username)))
     (\<lambda>(db, us, found).
     case db of
       None \<Rightarrow> raise ()
     | Some path \<Rightarrow>
         if deleted \<noteq> 0 \<and> deleted \<noteq> 1 then raise ()
         else case found of
           None \<Rightarrow> raise ()
         | Some i \<Rightarrow>
             (let old_deleted = u_deleted (us ! i) in
              then_io (put_io (auth_update_user i (\<lambda>u. u\<lparr>u_deleted := deleted\<rparr>)))
              (on_error (auth_write_db path)
                (put_io (auth_update_user i (\<lambda>u. u\<lparr>u_deleted := old_deleted\<rparr>))))))"

end
