(* ===== verification/AuthDB.thy ===== *)
theory AuthDB
  imports Auth
begin

text \<open>
  The text database: every account that is loaded is well formed, printing an account and
  parsing it again gives it back, writing the database and loading it gives the same table, and
  a failed write leaves the old database in place.
\<close>

section \<open>Well-formed accounts\<close>

definition user_ok :: "auth_user \<Rightarrow> bool" where
  "user_ok u \<longleftrightarrow> u_username u \<noteq> [] \<and> colon \<notin> set (u_username u) \<and> newline \<notin> set (u_username u) \<and>
     0 \<notin> set (u_username u) \<and> length (u_username u) + 102 < AUTH_LINE_MAX \<and>
     (u_must_change u = 0 \<or> u_must_change u = 1) \<and> (u_deleted u = 0 \<or> u_deleted u = 1) \<and>
     length (u_salt u) = AUTH_SALT_LEN \<and> length (u_hash u) = AUTH_HASH_LEN"

definition auth_inv :: "'r auth_env_scheme \<Rightarrow> bool" where
  "auth_inv s \<longleftrightarrow> (\<forall>u \<in> set (g_users s). user_ok u) \<and> distinct (map u_username (g_users s)) \<and>
     length (g_users s) \<le> g_users_cap s \<and> g_users_cap s < 2 ^ 64"

text \<open>An account as a line of the file, without the newline, and the whole file.\<close>

definition user_line :: "auth_user \<Rightarrow> bytes" where
  "user_line u = u_username u @ [colon] @ show_int (u_must_change u) @ [colon] @
     show_int (u_deleted u) @ [colon] @ hex_pairs (u_salt u) @ [colon] @ hex_pairs (u_hash u)"

definition db_text :: "auth_user list \<Rightarrow> bytes" where
  "db_text us = concat (map (\<lambda>u. user_line u @ [newline]) us)"

lemma print_user_line:
  "auth_print_user (u_username u) (u_must_change u) (u_deleted u) (hex_pairs (u_salt u))
     (hex_pairs (u_hash u)) = user_line u @ [newline]"
  by (simp add: auth_print_user_def user_line_def)

lemma hex_no_special [simp]:
  "colon \<notin> set (hex_pairs b)" "newline \<notin> set (hex_pairs b)" "0 \<notin> set (hex_pairs b)"
  by (auto dest!: hex_pairs_is_hex simp: is_hex_def)

lemma show_flag: "v = 0 \<or> v = 1 \<Longrightarrow> \<exists>c. show_int v = [c] \<and> (c = 48 \<or> c = 49)"
  by (auto simp: show_int_01)

lemma strtol_01: "strtol [48] = (0, [], False)" "strtol [49] = (1, [], False)"
  by (simp_all add: strtol_def isspace_def isdigit_def LONG_MIN_def LONG_MAX_def)

lemma parse_flag: "v = 0 \<or> v = 1 \<Longrightarrow> auth_parse_bool (show_int v) = Some v"
  by (elim disjE) (simp_all add: show_int_01 auth_parse_bool_def strtol_01)

lemma user_line_chars:
  assumes "user_ok u"
  shows "newline \<notin> set (user_line u)" and "0 \<notin> set (user_line u)" and "user_line u \<noteq> []"
    and "length (user_line u) = length (u_username u) + 102"
proof -
  obtain c d where f: "show_int (u_must_change u) = [c]" "c = 48 \<or> c = 49"
    "show_int (u_deleted u) = [d]" "d = 48 \<or> d = 49"
    using assms show_flag [of "u_must_change u"] show_flag [of "u_deleted u"]
    by (auto simp: user_ok_def)
  then have n: "c \<noteq> newline" "d \<noteq> newline" "c \<noteq> 0" "d \<noteq> 0" by auto
  show "newline \<notin> set (user_line u)" "0 \<notin> set (user_line u)" "user_line u \<noteq> []"
    "length (user_line u) = length (u_username u) + 102"
    using assms n by (simp_all add: user_line_def f(1,3) user_ok_def AUTH_SALT_LEN_def AUTH_HASH_LEN_def)
qed

lemma user_line_tokens:
  assumes "user_ok u"
  shows "strtok_n 5 [colon] (user_line u) =
    Some ([u_username u, show_int (u_must_change u), show_int (u_deleted u),
           hex_pairs (u_salt u), hex_pairs (u_hash u)], [])"
proof -
  have n: "u_username u \<noteq> []" "set (u_username u) \<inter> set [colon] = {}"
    using assms by (auto simp: user_ok_def)
  have m: "show_int (u_must_change u) \<noteq> []" "set (show_int (u_must_change u)) \<inter> set [colon] = {}"
    and d: "show_int (u_deleted u) \<noteq> []" "set (show_int (u_deleted u)) \<inter> set [colon] = {}"
    using assms show_flag [of "u_must_change u"] show_flag [of "u_deleted u"]
    by (auto simp: user_ok_def)
  have s: "hex_pairs (u_salt u) \<noteq> []" "set (hex_pairs (u_salt u)) \<inter> set [colon] = {}"
    and h: "hex_pairs (u_hash u) \<noteq> []" "set (hex_pairs (u_hash u)) \<inter> set [colon] = {}"
  proof -
    have "length (u_salt u) = 16" "length (u_hash u) = 32"
      using assms by (auto simp: user_ok_def AUTH_SALT_LEN_def AUTH_HASH_LEN_def)
    then show "hex_pairs (u_salt u) \<noteq> []" "hex_pairs (u_hash u) \<noteq> []"
      by (metis length_hex_pairs length_0_conv mult_is_0 numeral_eq_iff zero_neq_numeral)+
    show "set (hex_pairs (u_salt u)) \<inter> set [colon] = {}"
      "set (hex_pairs (u_hash u)) \<inter> set [colon] = {}"
      by simp_all
  qed
  have five: "(5::nat) = Suc (Suc (Suc (Suc (Suc 0))))" by simp
  have c: "colon \<in> set [colon]" by simp
  show ?thesis
    unfolding user_line_def five
    by (simp add: strtok_first(1) [OF n c] strtok_first(1) [OF m c] strtok_first(1) [OF d c]
        strtok_first(1) [OF s c] strtok_first(2) [OF h c])
qed

lemma parse_user_line:
  assumes "user_ok u" and "calm s"
  shows "auth_parse_db_line (user_line u) s = (Inr u, s\<lparr>w_tick := Suc (w_tick s)\<rparr>)"
proof -
  have "auth_hex_decode (hex_pairs (u_salt u)) AUTH_SALT_LEN = Some (u_salt u)"
    "auth_hex_decode (hex_pairs (u_hash u)) AUTH_HASH_LEN = Some (u_hash u)"
    using assms(1) by (auto simp: user_ok_def auth_hex_decode_def)
  moreover have "auth_parse_bool (show_int (u_must_change u)) = Some (u_must_change u)"
    "auth_parse_bool (show_int (u_deleted u)) = Some (u_deleted u)"
    "u_username u \<noteq> []" "colon \<notin> set (u_username u)"
    using assms(1) by (auto simp: user_ok_def intro: parse_flag)
  ultimately show ?thesis
    using assms(2) by (simp add: auth_parse_db_line_def user_line_tokens [OF assms(1)] io_def)
qed

lemma parse_bool_range: "auth_parse_bool x = Some v \<Longrightarrow> v = 0 \<or> v = 1"
  by (auto simp: auth_parse_bool_def split: prod.splits if_splits)

lemma length_5_conv: "length xs = 5 \<Longrightarrow> \<exists>a b c d e. xs = [a, b, c, d, e]"
  by (auto simp: numeral_eq_Suc length_Suc_conv)

text \<open>Whatever line is accepted gives a well-formed account.\<close>

lemma parse_db_line_ok:
  assumes run: "auth_parse_db_line line s = (Inr u, t)"
    and clean: "newline \<notin> set line" "0 \<notin> set line" "length line < AUTH_LINE_MAX"
  shows "user_ok u \<and> (\<exists>k. t = s\<lparr>w_tick := k\<rparr>)"
proof -
  from run obtain fs r where toks: "strtok_n 5 [colon] line = Some (fs, r)"
    by (auto simp: auth_parse_db_line_def io_inv split: option.splits)
  obtain a b c d e where fs: "fs = [a, b, c, d, e]"
    using length_5_conv [OF strtok_n_length [OF toks]] by blast
  from run toks fs obtain mc del salt hash where
    v: "auth_parse_bool b = Some mc" "auth_parse_bool c = Some del"
      "auth_hex_decode d AUTH_SALT_LEN = Some salt" "auth_hex_decode e AUTH_HASH_LEN = Some hash"
    and u: "u = \<lparr>u_username = a, u_must_change = mc, u_deleted = del, u_salt = salt, u_hash = hash\<rparr>"
    and t: "\<exists>k. t = s\<lparr>w_tick := k\<rparr>"
    by (auto simp: auth_parse_db_line_def io_inv eval_nat_numeral split: option.splits if_splits
        dest!: lib_call_run)
  have tk: "a \<noteq> []" "colon \<notin> set a" "set a \<subseteq> set line" "b \<noteq> []" "c \<noteq> []"
    and len: "length a + length b + length c + length d + length e + 4 \<le> length line"
    using strtok_n_tokens [OF toks] by (auto simp: fs)
  have "length d = 32" "length salt = AUTH_SALT_LEN" "length e = 64" "length hash = AUTH_HASH_LEN"
    using v auth_hex_decode_length by (auto simp: AUTH_SALT_LEN_def AUTH_HASH_LEN_def)
  moreover have "0 < length b" "0 < length c" using tk by simp_all
  ultimately have "length a + 102 \<le> length line" "length salt = AUTH_SALT_LEN"
    "length hash = AUTH_HASH_LEN"
    using len by linarith+
  moreover have "mc = 0 \<or> mc = 1" "del = 0 \<or> del = 1" using v(1,2) parse_bool_range by blast+
  moreover have "newline \<notin> set a" "0 \<notin> set a" using tk(3) clean by blast+
  ultimately have "user_ok u"
    using tk(1,2) clean(3) by (simp add: u user_ok_def)
  then show ?thesis using t by blast
qed

section \<open>Writing\<close>

text \<open>Programs that change nothing but files.\<close>

interpretation only_files: env_frame "\<lambda>s t. \<exists>k fs. t = s\<lparr>w_tick := k, w_files := fs\<rparr>"
proof
  fix s t u :: "'a env_scheme" and k
  show "\<exists>k fs. s = s\<lparr>w_tick := k, w_files := fs\<rparr>"
    by (rule exI [of _ "w_tick s"], rule exI [of _ "w_files s"]) simp
  show "\<exists>k' fs. s\<lparr>w_tick := k\<rparr> = s\<lparr>w_tick := k', w_files := fs\<rparr>"
    by (rule exI [of _ k], rule exI [of _ "w_files s"]) simp
  show "\<exists>k fs. t = s\<lparr>w_tick := k, w_files := fs\<rparr> \<Longrightarrow> \<exists>k fs. u = t\<lparr>w_tick := k, w_files := fs\<rparr> \<Longrightarrow>
      \<exists>k fs. u = s\<lparr>w_tick := k, w_files := fs\<rparr>"
    by (elim exE, rule_tac x = "w_tick u" in exI, rule_tac x = "w_files u" in exI) simp
qed

lemma only_files_tick: "\<exists>k' fs. s\<lparr>w_tick := k\<rparr> = s\<lparr>w_tick := k', w_files := fs\<rparr>"
  by (rule only_files.frame_tick)

lemma only_files_set: "\<exists>k' fs. set_file p c (s\<lparr>w_tick := k\<rparr>) = s\<lparr>w_tick := k', w_files := fs\<rparr>"
  "\<exists>k' fs. del_file p (s\<lparr>w_tick := k\<rparr>) = s\<lparr>w_tick := k', w_files := fs\<rparr>"
  "\<exists>k' fs. set_file q c (del_file p (s\<lparr>w_tick := k\<rparr>)) = s\<lparr>w_tick := k', w_files := fs\<rparr>"
  by (rule exI [of _ k], auto simp: set_file_def del_file_def)+

lemmas only_files_intros = prims only_files_tick only_files_set only_files.within_bind
  only_files.within_then only_files.within_on_error only_files.within_try only_files.within_ret
  only_files.within_get only_files.within_from_option

lemma write_users_frame:
  "within (\<lambda>s t. \<exists>k fs. t = s\<lparr>w_tick := k, w_files := fs\<rparr>) (auth_write_users tmp us)"
  by (induction tmp us rule: auth_write_users.induct) (auto intro!: only_files_intros)

lemma auth_write_db_frame:
  "within (\<lambda>s t. \<exists>k fs. t = s\<lparr>w_tick := k, w_files := fs\<rparr>) (auth_write_db path)"
  unfolding auth_write_db_def Let_def by (intro only_files_intros write_users_frame)

lemma auth_write_db_fields:
  assumes "auth_write_db path s = (r, t)"
  shows "g_users t = g_users s" and "g_users_cap t = g_users_cap s" and "g_db_path t = g_db_path s"
    and "w_dirs t = w_dirs s" and "auth_inv t = auth_inv s"
  using withinD [OF auth_write_db_frame assms] by (auto simp: auth_inv_def)

text \<open>Only the database and its temporary file are touched; a failure leaves the database alone.\<close>

lemma other_file: "state_frame (\<lambda>s t. file_at s q = file_at t q)"
  by unfold_locales auto

lemma write_users_other:
  "tmp \<noteq> q \<Longrightarrow> within (\<lambda>s t. file_at s q = file_at t q) (auth_write_users tmp us)"
  by (induction tmp us rule: auth_write_users.induct)
     (auto intro!: prims frame_same.within_bind frame_same.within_then frame_same.within_from_option)

lemmas same_file_intros = frame_same.within_bind frame_same.within_then frame_same.within_on_error
  frame_same.within_try frame_same.within_get frame_same.within_from_option frame_same.within_ret
  frame_same.within_raise frame_same.within_if

lemma write_db_prefix_other:
  assumes "path @ ascii ''.tmp'' \<noteq> q"
  shows "preserves (\<lambda>s. file_at s q) (open_write () (path @ ascii ''.tmp''))"
    "preserves (\<lambda>s. file_at s q) (unlink () (path @ ascii ''.tmp''))"
    "preserves (\<lambda>s. file_at s q) (file_close () (path @ ascii ''.tmp''))"
    "preserves (\<lambda>s. file_at s q) (lib_calls n e)"
    "preserves (\<lambda>s. file_at s q) (lib_call e)"
  using assms by (auto intro!: prims)

lemma tmp_neq: "path @ ascii ''.tmp'' \<noteq> path" "path \<noteq> path @ ascii ''.tmp''"
  by (simp_all add: ascii_def)

lemma auth_write_db_other:
  assumes "q \<noteq> path" and "q \<noteq> path @ ascii ''.tmp''"
  shows "preserves (\<lambda>s. file_at s q) (auth_write_db path)"
proof -
  have n: "path @ ascii ''.tmp'' \<noteq> q" using assms by simp
  have "preserves (\<lambda>s. file_at s q) (rename () (path @ ascii ''.tmp'') path)"
    using assms by (auto intro!: prims)
  then show ?thesis
    unfolding auth_write_db_def Let_def
    by (intro same_file_intros write_db_prefix_other [OF n] write_users_other n)
qed

lemma rename_Inl: "rename e p q s = (Inl f, t) \<Longrightarrow> \<exists>k. t = s\<lparr>w_tick := k\<rparr>"
  by (auto simp: rename_def lib_call_def io_def split: option.splits if_splits)

lemma rename_Inr:
  "rename e p q s = (Inr u, t) \<Longrightarrow>
     \<exists>c k. file_at s p = Some c \<and> t = set_file q c (del_file p (s\<lparr>w_tick := k\<rparr>))"
  by (auto simp: rename_def lib_call_def io_def split: option.splits if_splits)

text \<open>\<open>preserves\<close> on a run\<close>

lemma preservesD: "preserves f m \<Longrightarrow> m s = (r, t) \<Longrightarrow> f t = f s"
  unfolding within_def by (metis snd_conv)

lemma preserves_snd: "preserves f m \<Longrightarrow> f (snd (m s)) = f s"
  by (simp add: within_def)

lemma auth_write_db_failed:
  assumes "auth_write_db path s = (Inl e, t)"
  shows "file_at t path = file_at s path"
proof -
  note n = write_db_prefix_other [OF tmp_neq(1)]
  note w = write_users_other [OF tmp_neq(1)]
  let ?tmp = "path @ ascii ''.tmp''"
  have body: "preserves (\<lambda>s. file_at s path)
      (on_error (bind_io (get_io g_users) (\<lambda>us. then_io (auth_write_users ?tmp us) (lib_calls 2 ())))
          (then_io (try_io (file_close () ?tmp)) (unlink () ?tmp)))"
    "preserves (\<lambda>s. file_at s path) (on_error (file_close () ?tmp) (unlink () ?tmp))"
    by (intro same_file_intros n w)+
  have ren: "on_error (rename () ?tmp path) (unlink () ?tmp) u = (Inl e', v) \<Longrightarrow>
      file_at v path = file_at u path" for e' u v
    by (auto simp: io_inv preserves_snd [OF n(2)] dest!: rename_Inl)
  from assms show ?thesis
    unfolding auth_write_db_def Let_def then_io_Inl
    by (auto dest!: preservesD [OF n(5)] preservesD [OF n(1)] preservesD [OF body(1)]
        preservesD [OF body(2)] ren)
qed

text \<open>A completed write has put the whole table into the file.\<close>

lemma write_users_contents:
  assumes "auth_write_users tmp us s = (Inr x, t)"
    and "\<forall>u \<in> set us. length (u_salt u) = AUTH_SALT_LEN \<and> length (u_hash u) = AUTH_HASH_LEN"
    and "file_at s tmp = Some c"
  shows "file_at t tmp = Some (c @ db_text us)"
  using assms
proof (induction us arbitrary: s c)
  case Nil
  then show ?case by (auto simp: io_inv db_text_def)
next
  case (Cons u us)
  from Cons.prems obtain v where
    v: "file_write () tmp (user_line u @ [newline]) s = (Inr (), v)"
      "auth_write_users tmp us v = (Inr x, t)"
    by (auto simp: io_inv auth_hex_encode_def print_user_line)
  from v(1) Cons.prems(3) have "file_at v tmp = Some (c @ user_line u @ [newline])"
    by (auto simp: file_write_def Let_def split: if_splits)
  from Cons.IH [OF v(2) _ this] Cons.prems(2) show ?case by (simp add: db_text_def)
qed

lemma file_close_Inr: "file_close e p s = (Inr u, t) \<Longrightarrow> \<exists>k. t = s\<lparr>w_tick := k\<rparr>"
  by (auto simp: file_close_def Let_def split: if_splits)

lemma open_write_Inr:
  "open_write e p s = (Inr u, t) \<Longrightarrow> p \<notin> set (w_dirs s) \<and> (\<exists>k. t = set_file p [] (s\<lparr>w_tick := k\<rparr>))"
  by (auto simp: open_write_def lib_call_def io_def split: if_splits)

lemma auth_write_db_contents:
  assumes run: "auth_write_db path s = (Inr x, t)" and inv: "auth_inv s"
  shows "file_at t path = Some (db_text (g_users s))"
    and "file_at t (path @ ascii ''.tmp'') = None"
proof -
  let ?tmp = "path @ ascii ''.tmp''"
  from run obtain s1 s2 s3 s4 s5 where
    s1: "lib_call () s = (Inr (), s1)" and s2: "open_write () ?tmp s1 = (Inr (), s2)" and
    s3: "auth_write_users ?tmp (g_users s2) s2 = (Inr (), s3)" and
    s4: "lib_calls 2 () s3 = (Inr (), s4)" and s5: "file_close () ?tmp s4 = (Inr (), s5)" and
    ren: "rename () ?tmp path s5 = (Inr x, t)"
    by (auto simp: auth_write_db_def Let_def io_inv simp del: lib_calls.simps)
  have g: "g_users s2 = g_users s"
    using lib_call_run [OF s1] open_write_Inr [OF s2] by (auto simp: set_file_def)
  have "file_at s2 ?tmp = Some []" using open_write_Inr [OF s2] by auto
  from write_users_contents [OF s3 _ this] inv g have "file_at s3 ?tmp = Some (db_text (g_users s))"
    by (auto simp: auth_inv_def user_ok_def)
  then have "file_at s5 ?tmp = Some (db_text (g_users s))"
    using lib_calls_run [OF s4] file_close_Inr [OF s5] by auto
  with rename_Inr [OF ren] show "file_at t path = Some (db_text (g_users s))"
    "file_at t ?tmp = None"
    using tmp_neq by auto
qed

text \<open>In a working environment the write succeeds.\<close>

lemma auth_write_users_calm:
  assumes "calm s" and "\<forall>u \<in> set us. length (u_salt u) = AUTH_SALT_LEN \<and> length (u_hash u) = AUTH_HASH_LEN"
  shows "fst (auth_write_users tmp us s) = Inr () \<and> calm (snd (auth_write_users tmp us s))"
  using assms
proof (induction us arbitrary: s)
  case Nil
  then show ?case by (simp add: io_def)
next
  case (Cons u us)
  let ?d = "user_line u @ [newline]"
  obtain v where v: "file_write () tmp ?d s = (Inr (), v)" "calm v"
    using Cons.prems(1) by (simp add: file_write_def Let_def calm_def set_file_def)
  have "auth_write_users tmp (u # us) s = auth_write_users tmp us v"
    using Cons.prems(2) v by (simp add: auth_hex_encode_def print_user_line io_def)
  with Cons.IH [OF v(2)] Cons.prems(2) show ?case by simp
qed

section \<open>Loading\<close>

lemma auth_load_lines_skip:
  "auth_load_lines (filter (\<lambda>l. l \<noteq> []) ls) = auth_load_lines ls"
  by (induction ls) (simp_all cong: if_cong)

lemma read_db_text:
  assumes "\<forall>u \<in> set us. user_ok u"
  shows "filter (\<lambda>l. l \<noteq> []) (read_lines (AUTH_LINE_MAX - 2) (db_text us)) = map user_line us"
proof -
  have "\<forall>l \<in> set (map user_line us). newline \<notin> set l \<and> 0 \<notin> set l \<and> l \<noteq> [] \<and> length l \<le> Suc (AUTH_LINE_MAX - 2)"
    using assms user_line_chars by (auto simp: user_ok_def AUTH_LINE_MAX_def)
  from read_lines_concat [OF this] show ?thesis by (simp add: db_text_def comp_def)
qed

lemma auth_find_user_None: "auth_find_user us n = None \<longleftrightarrow> n \<notin> u_username ` set us"
  by (induction us) auto

lemma auth_find_user_Some:
  "auth_find_user us n = Some i \<Longrightarrow> i < length us \<and> u_username (us ! i) = n"
  by (induction us arbitrary: i) (auto split: if_splits)

lemma auth_find_user_map:
  "map u_username us = map u_username vs \<Longrightarrow> auth_find_user us n = auth_find_user vs n"
proof (induction us arbitrary: vs)
  case (Cons u us)
  then obtain v ws where vs: "vs = v # ws" "u_username u = u_username v"
    "map u_username us = map u_username ws" by (cases vs) auto
  from Cons.IH [OF vs(3)] vs(1,2) show ?case by simp
qed simp

lemma auth_find_user_distinct:
  "distinct (map u_username us) \<Longrightarrow> i < length us \<Longrightarrow> auth_find_user us (u_username (us ! i)) = Some i"
proof (induction us arbitrary: i)
  case (Cons u us)
  show ?case
  proof (cases i)
    case (Suc j)
    with Cons.prems have j: "distinct (map u_username us)" "j < length us" by simp_all
    then have "u_username (us ! j) \<in> u_username ` set us" by simp
    with Cons.prems have "u_username u \<noteq> u_username (us ! j)" by fastforce
    with Suc Cons.IH [OF j] show ?thesis by simp
  qed simp
qed simp

lemma push_user_Inr:
  assumes "auth_push_user u s = (Inr x, t)" and "length (g_users s) \<le> g_users_cap s"
    and "g_users_cap s < 2 ^ 64"
  shows "g_users t = g_users s @ [u]" and "length (g_users t) \<le> g_users_cap t"
    and "g_users_cap t < 2 ^ 64" and "g_db_path t = g_db_path s"
proof -
  let ?cap = "g_users_cap s"
  have "g_users t = g_users s @ [u] \<and> length (g_users t) \<le> g_users_cap t \<and> g_users_cap t < 2 ^ 64
      \<and> g_db_path t = g_db_path s"
  proof (cases "length (g_users s) = ?cap")
    case True
    define n where "n = (if ?cap = 0 then 8 else (?cap * 2) mod 2 ^ 64)"
    from assms(1) True have n: "\<not> n < ?cap" and
      t: "\<exists>k. t = s\<lparr>w_tick := k, g_users_cap := n, g_users := g_users s @ [u]\<rparr>"
      by (auto simp: auth_push_user_def io_inv Let_def n_def dest!: lib_call_run split: if_splits)
    have "?cap < n \<and> n < 2 ^ 64"
    proof (cases "?cap = 0")
      case False
      then have n2: "n = (?cap * 2) mod 2 ^ 64" by (simp add: n_def)
      have "n \<noteq> ?cap"
      proof (cases "?cap * 2 < 2 ^ 64")
        case True
        with n2 False show ?thesis by simp
      next
        case F: False
        then have "(?cap * 2) mod 2 ^ 64 = ?cap * 2 - 2 ^ 64"
          using assms(3) by (simp add: mod_if)
        with n2 F assms(3) show ?thesis by linarith
      qed
      with n n2 show ?thesis by simp
    qed (simp add: n_def)
    with True t show ?thesis by auto
  next
    case False
    with assms show ?thesis by (auto simp: auth_push_user_def io_inv)
  qed
  then show "g_users t = g_users s @ [u]" "length (g_users t) \<le> g_users_cap t"
    "g_users_cap t < 2 ^ 64" "g_db_path t = g_db_path s" by auto
qed

text \<open>Loading keeps the table well formed, whatever the file says.\<close>

lemma auth_load_lines_inv:
  assumes "auth_load_lines ls s = (Inr x, t)" and "auth_inv s"
    and "\<forall>l \<in> set ls. newline \<notin> set l \<and> 0 \<notin> set l \<and> length l < AUTH_LINE_MAX"
  shows "auth_inv t \<and> g_db_path t = g_db_path s"
  using assms
proof (induction ls arbitrary: s)
  case Nil
  then show ?case by (simp add: io_inv)
next
  case (Cons l ls)
  show ?case
  proof (cases "l = []")
    case True
    with Cons show ?thesis by simp
  next
    case False
    with Cons.prems(1) obtain u s1 s2 where
      u: "auth_parse_db_line l s = (Inr u, s1)" "auth_find_user (g_users s1) (u_username u) = None" and
      s2: "auth_push_user u s1 = (Inr (), s2)" "auth_load_lines ls s2 = (Inr x, t)"
      by (auto simp: io_inv split: if_splits)
    from parse_db_line_ok [OF u(1)] Cons.prems(3) obtain k where
      ok: "user_ok u" and s1: "s1 = s\<lparr>w_tick := k\<rparr>" by auto
    have inv1: "auth_inv s1" using Cons.prems(2) s1 by (simp add: auth_inv_def)
    then have "length (g_users s1) \<le> g_users_cap s1" "g_users_cap s1 < 2 ^ 64"
      by (simp_all add: auth_inv_def)
    note p = push_user_Inr [OF s2(1) this]
    have "auth_inv s2"
      using inv1 p ok u(2) by (auto simp: auth_inv_def auth_find_user_None)
    from Cons.IH [OF s2(2) this] Cons.prems(3) p(4) s1 show ?thesis by simp
  qed
qed

text \<open>Loading the printed table in a working environment gives the table back.\<close>

lemma auth_load_lines_text:
  assumes "calm s" and "auth_inv s" and "\<forall>u \<in> set us. user_ok u"
    and "distinct (map u_username (g_users s @ us))" and "length (g_users s) + length us < 2 ^ 62"
    and "g_users_cap s \<le> max 8 (2 * length (g_users s))"
  shows "\<exists>k cap. auth_load_lines (map user_line us) s =
    (Inr (), s\<lparr>w_tick := k, g_users_cap := cap, g_users := g_users s @ us\<rparr>)"
  using assms
proof (induction us arbitrary: s)
  case Nil
  have "s = s\<lparr>w_tick := w_tick s, g_users_cap := g_users_cap s, g_users := g_users s\<rparr>" by simp
  then have "auth_load_lines (map user_line []) s = (Inr (),
      s\<lparr>w_tick := w_tick s, g_users_cap := g_users_cap s, g_users := g_users s @ []\<rparr>)"
    by (simp add: ret_run)
  then show ?case by blast
next
  case (Cons u us)
  let ?s1 = "s\<lparr>w_tick := Suc (w_tick s)\<rparr>"
  have p: "auth_parse_db_line (user_line u) s = (Inr u, ?s1)"
    using Cons.prems by (intro parse_user_line) auto
  have f: "auth_find_user (g_users s) (u_username u) = None"
    using Cons.prems(4) by (auto simp: auth_find_user_None)
  have small: "g_users_cap s * 2 mod 18446744073709551616 = g_users_cap s * 2"
    using Cons.prems(5,6) by simp
  obtain k cap where push: "auth_push_user u ?s1 =
      (Inr (), s\<lparr>w_tick := k, g_users_cap := cap, g_users := g_users s @ [u]\<rparr>)"
    and cap: "cap = (if length (g_users s) = g_users_cap s
      then (if g_users_cap s = 0 then 8 else g_users_cap s * 2) else g_users_cap s)"
  proof (cases "length (g_users s) = g_users_cap s")
    case True
    have "\<not> (if g_users_cap s = 0 then 8 else g_users_cap s * 2) < g_users_cap s" by simp
    with True Cons.prems(1) small that show ?thesis
      by (cases "g_users_cap s = 0") (simp_all add: auth_push_user_def io_def Let_def)
  next
    case False
    then have e: "auth_push_user u ?s1 =
      (Inr (), s\<lparr>w_tick := Suc (w_tick s), g_users_cap := g_users_cap s, g_users := g_users s @ [u]\<rparr>)"
      by (simp add: auth_push_user_def io_def Let_def)
    show ?thesis by (rule that [OF e]) (simp add: False)
  qed
  let ?s2 = "s\<lparr>w_tick := k, g_users_cap := cap, g_users := g_users s @ [u]\<rparr>"
  have inv2: "auth_inv ?s2"
    using Cons.prems cap small by (auto simp: auth_inv_def)
  have cap2: "g_users_cap ?s2 \<le> max 8 (2 * length (g_users ?s2))"
    using Cons.prems(6) cap by auto
  have "\<exists>k' cap'. auth_load_lines (map user_line us) ?s2 =
      (Inr (), ?s2\<lparr>w_tick := k', g_users_cap := cap', g_users := g_users ?s2 @ us\<rparr>)"
    using Cons.prems inv2 cap2 by (intro Cons.IH) (auto simp: calm_def)
  then obtain k' cap' where l: "auth_load_lines (map user_line us) ?s2 =
      (Inr (), s\<lparr>w_tick := k', g_users_cap := cap', g_users := g_users s @ u # us\<rparr>)" by auto
  have ne: "user_line u \<noteq> []" using Cons.prems(3) user_line_chars(3) by simp
  show ?case
    by (rule exI [of _ k'], rule exI [of _ cap']) (simp add: ne p f push l io_def)
qed

end
