(* ===== verification/AuthOps.thy ===== *)
theory AuthOps
  imports AuthDB
begin

text \<open>
  What the operations of \<^verbatim>\<open>server/auth.c\<close> do to the table of accounts.  \<open>auth_frame\<close> is the
  contract between the account database and its callers: a relation on states that allows a
  new password and a tombstone allows every operation.
\<close>

definition pbkdf2_spec :: "'p platform_scheme \<Rightarrow> bool" where
  "pbkdf2_spec P \<longleftrightarrow> (\<forall>pw salt it n. length (pbkdf2 P pw salt it n) = n)"

definition with_password :: "bytes \<Rightarrow> bytes \<Rightarrow> auth_user \<Rightarrow> auth_user" where
  "with_password salt hash u = u\<lparr>u_salt := salt, u_hash := hash, u_must_change := 0\<rparr>"

definition with_deleted :: "int \<Rightarrow> auth_user \<Rightarrow> auth_user" where
  "with_deleted d u = u\<lparr>u_deleted := d\<rparr>"

section \<open>Checking a password\<close>

lemma auth_pbkdf2_run:
  "auth_pbkdf2 P pw salt s = (r, t) \<Longrightarrow> t = s\<lparr>w_tick := Suc (w_tick s)\<rparr> \<and>
     (r = Inl () \<or> r = Inr (pbkdf2 P (cstr pw) salt AUTH_PBKDF2_ITERS AUTH_HASH_LEN))"
  by (cases r) (auto simp: auth_pbkdf2_def io_inv dest!: lib_call_run)

lemma auth_verify_password_run:
  assumes "auth_verify_password P name pw s = (r, t)"
  shows "\<exists>k. t = s\<lparr>w_tick := k\<rparr>"
    and "r = Inr (mc, del) \<Longrightarrow> \<exists>i. auth_find_user (g_users s) name = Some i \<and>
       u_hash (g_users s ! i) = pbkdf2 P (cstr pw) (u_salt (g_users s ! i)) AUTH_PBKDF2_ITERS AUTH_HASH_LEN \<and>
       mc = u_must_change (g_users s ! i) \<and> del = u_deleted (g_users s ! i)"
proof -
  have s: "s = s\<lparr>w_tick := w_tick s\<rparr>" by simp
  show "\<exists>k. t = s\<lparr>w_tick := k\<rparr>"
  proof (cases "auth_find_user (g_users s) name")
    case None
    with assms have "t = s" by (auto simp: auth_verify_password_def bind_io_ok [OF get_io_run [THEN iffD2]] raise_run)
    with s show ?thesis by blast
  next
    case (Some i)
    with assms show ?thesis
      by (cases r) (auto simp: auth_verify_password_def io_inv split: if_splits dest!: auth_pbkdf2_run)
  qed
  show "r = Inr (mc, del) \<Longrightarrow> \<exists>i. auth_find_user (g_users s) name = Some i \<and>
       u_hash (g_users s ! i) = pbkdf2 P (cstr pw) (u_salt (g_users s ! i)) AUTH_PBKDF2_ITERS AUTH_HASH_LEN \<and>
       mc = u_must_change (g_users s ! i) \<and> del = u_deleted (g_users s ! i)"
    using assms
    by (auto simp: auth_verify_password_def io_inv split: option.splits if_splits dest!: auth_pbkdf2_run)
qed

lemma auth_verify_password_calm:
  assumes "calm s"
  shows "auth_verify_password P name pw s =
    (case auth_find_user (g_users s) name of
       None \<Rightarrow> (Inl (), s)
     | Some i \<Rightarrow> let u = g_users s ! i in
         (if pbkdf2 P (cstr pw) (u_salt u) AUTH_PBKDF2_ITERS AUTH_HASH_LEN = u_hash u
          then Inr (u_must_change u, u_deleted u) else Inl (), s\<lparr>w_tick := Suc (w_tick s)\<rparr>))"
  using assms
  by (auto simp: auth_verify_password_def auth_pbkdf2_def io_def Let_def split: option.split)

lemma auth_get_deleted_run:
  "auth_get_deleted name s = (r, t) \<longleftrightarrow> t = s \<and>
     r = (case auth_find_user (g_users s) name of None \<Rightarrow> Inl () | Some i \<Rightarrow> Inr (u_deleted (g_users s ! i)))"
  by (auto simp: auth_get_deleted_def io_def split: option.splits)

section \<open>Changing an account\<close>

lemma auth_update_user_simps [simp]:
  "g_users (auth_update_user i f s) = (g_users s)[i := f (g_users s ! i)]"
  "g_db_path (auth_update_user i f s) = g_db_path s"
  "g_users_cap (auth_update_user i f s) = g_users_cap s"
  "file_at (auth_update_user i f s) p = file_at s p"
  "calm (auth_update_user i f s) = calm s"
  "w_dirs (auth_update_user i f s) = w_dirs s"
  by (simp_all add: auth_update_user_def file_at_def calm_def)

lemma auth_apply_new_password_Inr:
  assumes "auth_apply_new_password P i pw s = (Inr x, t)"
  shows "\<exists>salt k p. length salt = AUTH_SALT_LEN \<and> drawn s p salt \<and>
    t = auth_update_user i (with_password salt (pbkdf2 P (cstr pw) salt AUTH_PBKDF2_ITERS AUTH_HASH_LEN))
          (s\<lparr>w_tick := k, w_rpos := p\<rparr>)"
proof -
  from assms obtain salt u v h where
    u: "rand_bytes () AUTH_SALT_LEN s = (Inr salt, u)" and v: "auth_pbkdf2 P pw salt u = (Inr h, v)"
    and t: "t = auth_update_user i (with_password salt h) v"
    by (auto simp: auth_apply_new_password_def with_password_def [abs_def] io_inv)
  from rand_bytes_drawn [OF u] obtain k p where u': "u = s\<lparr>w_tick := k, w_rpos := p\<rparr>" and d: "drawn s p salt" by blast
  from auth_pbkdf2_run [OF v] have "v = s\<lparr>w_tick := Suc k, w_rpos := p\<rparr>"
    "h = pbkdf2 P (cstr pw) salt AUTH_PBKDF2_ITERS AUTH_HASH_LEN" by (simp_all add: u')
  with rand_bytes_length [OF u] d show ?thesis unfolding t by blast
qed

lemma auth_apply_new_password_Inl:
  assumes "auth_apply_new_password P i pw s = (Inl x, t)"
  shows "\<exists>k p. t = s\<lparr>w_tick := k, w_rpos := p\<rparr>"
proof -
  from assms consider "rand_bytes () AUTH_SALT_LEN s = (Inl x, t)"
    | salt u where "rand_bytes () AUTH_SALT_LEN s = (Inr salt, u)" "auth_pbkdf2 P pw salt u = (Inl x, t)"
    by (auto simp: auth_apply_new_password_def io_inv)
  then show ?thesis
  proof cases
    case 1
    then show ?thesis by (rule rand_bytes_run)
  next
    case 2
    from rand_bytes_run [OF 2(1)] obtain k p where "u = s\<lparr>w_tick := k, w_rpos := p\<rparr>" by blast
    with auth_pbkdf2_run [OF 2(2)] have "t = s\<lparr>w_tick := Suc k, w_rpos := p\<rparr>" by simp
    then show ?thesis by blast
  qed
qed

text \<open>The database is written only when it was asked for, and the table is what was written.\<close>

lemma auth_set_deleted_Inr:
  assumes run: "auth_set_deleted name d s = (Inr x, t)"
  shows "\<exists>i path u. g_db_path s = Some path \<and> auth_find_user (g_users s) name = Some i \<and>
    (d = 0 \<or> d = 1) \<and> u = auth_update_user i (with_deleted d) s \<and>
    auth_write_db path u = (Inr (), t) \<and> g_users t = g_users u"
proof -
  from run obtain path i where p: "g_db_path s = Some path"
    "auth_find_user (g_users s) name = Some i" "d = 0 \<or> d = 1"
    and w: "auth_write_db path (auth_update_user i (with_deleted d) s) = (Inr (), t)"
    by (auto simp: auth_set_deleted_def with_deleted_def [abs_def] io_inv Let_def
        split: option.splits if_splits)
  from p auth_write_db_fields(1) [OF w] w show ?thesis by auto
qed

lemma auth_set_deleted_Inl:
  assumes run: "auth_set_deleted name d s = (Inl x, t)"
  shows "g_users t = g_users s \<and> g_users_cap t = g_users_cap s \<and> g_db_path t = g_db_path s \<and>
    (\<forall>path. g_db_path s = Some path \<longrightarrow> file_at t path = file_at s path)"
proof (cases "t = s")
  case False
  with run obtain path i v where p: "g_db_path s = Some path"
    "auth_find_user (g_users s) name = Some i"
    and w: "auth_write_db path (auth_update_user i (with_deleted d) s) = (Inl (), v)"
    and t: "t = auth_update_user i (with_deleted (u_deleted (g_users s ! i))) v"
    by (auto simp: auth_set_deleted_def with_deleted_def [abs_def] io_inv Let_def
        split: option.splits if_splits)
  have i: "i < length (g_users s)" using p(2) auth_find_user_Some by blast
  from auth_write_db_fields [OF w] have v: "g_users v = (g_users s)[i := with_deleted d (g_users s ! i)]"
    "g_users_cap v = g_users_cap s" "g_db_path v = g_db_path s" by simp_all
  have "g_users t = g_users s"
    using i by (simp add: t v with_deleted_def)
  with v p auth_write_db_failed [OF w] show ?thesis by (simp add: t)
qed simp

lemma auth_set_deleted_other:
  assumes run: "auth_set_deleted name d s = (r, t)" and p: "g_db_path s = Some path"
    and q: "q \<noteq> path" "q \<noteq> path @ ascii ''.tmp''"
  shows "file_at t q = file_at s q"
proof -
  have w: "file_at v q = file_at u q" if "auth_write_db path u = (x, v)"
    for x and u v :: "'a auth_env_scheme"
    using preservesD [OF auth_write_db_other [OF q] that] .
  show ?thesis
  proof (cases r)
    case (Inr x)
    with run p auth_set_deleted_Inr obtain i where
      "auth_write_db path (auth_update_user i (with_deleted d) s) = (Inr (), t)" by fastforce
    from w [OF this] show ?thesis by simp
  next
    case (Inl x)
    with run p w show ?thesis
      by (auto simp: auth_set_deleted_def io_inv Let_def split: option.splits if_splits)
  qed
qed

lemma auth_change_password_authenticated_Inr:
  assumes run: "auth_change_password_authenticated P name pw s = (Inr x, t)"
  shows "\<exists>i path salt u k p. g_db_path s = Some path \<and> auth_find_user (g_users s) name = Some i \<and>
    length salt = AUTH_SALT_LEN \<and> drawn s p salt \<and>
    u = auth_update_user i (with_password salt (pbkdf2 P (cstr pw) salt AUTH_PBKDF2_ITERS AUTH_HASH_LEN))
          (s\<lparr>w_tick := k, w_rpos := p\<rparr>) \<and>
    auth_write_db path u = (Inr (), t) \<and> g_users t = g_users u"
proof -
  from run obtain path i u where p: "g_db_path s = Some path"
    "auth_find_user (g_users s) name = Some i"
    and a: "auth_apply_new_password P i pw s = (Inr (), u)"
    and w: "auth_write_db path u = (Inr (), t)"
    by (auto simp: auth_change_password_authenticated_def io_inv split: option.splits)
  from auth_apply_new_password_Inr [OF a] p w auth_write_db_fields(1) [OF w] show ?thesis by blast
qed

text \<open>
  \<open>auth_change_password\<close> is \<open>auth_change_password_authenticated\<close> behind a check of the old
  password.
\<close>

lemma auth_change_password_checked:
  "auth_change_password P name old_pw new_pw s =
     (if g_db_path s = None then (Inl (), s)
      else case auth_verify_password P name old_pw s of
        (Inl e, t) \<Rightarrow> (Inl e, t)
      | (Inr _, t) \<Rightarrow> auth_change_password_authenticated P name new_pw t)"
proof (cases "g_db_path s")
  case None
  then show ?thesis by (simp add: auth_change_password_def io_def)
next
  case (Some path)
  show ?thesis
  proof (cases "auth_find_user (g_users s) name")
    case None
    with Some show ?thesis
      by (simp add: auth_change_password_def auth_verify_password_def io_def)
  next
    case (Some i)
    obtain r t where h: "auth_pbkdf2 P old_pw (u_salt (g_users s ! i)) s = (r, t)" by fastforce
    from auth_pbkdf2_run [OF h] have "g_db_path t = g_db_path s" "g_users t = g_users s" by simp_all
    with Some \<open>g_db_path s = Some path\<close> h show ?thesis
      by (cases r) (simp_all add: auth_change_password_def auth_verify_password_def
          auth_change_password_authenticated_def io_def)
  qed
qed

section \<open>What callers may rely on\<close>

context file_frame
begin

lemma within_auth_pbkdf2 [simp, intro]: "within R (auth_pbkdf2 Q pw salt)"
  unfolding auth_pbkdf2_def by (intro within_then) auto

lemma within_write_users [simp, intro]: "within R (auth_write_users tmp us)"
  by (induction us) (auto intro!: within_bind within_then)

lemma within_seed_lines: "within R (auth_seed_lines Q db ls)"
proof (induction Q db ls rule: auth_seed_lines.induct)
  case (2 Q db line ls)
  show ?case
  proof (cases "line = []")
    case True
    with 2(1) show ?thesis by simp
  next
    case False
    with 2(2) show ?thesis
      by (auto intro!: within_bind within_then split: option.split)
  qed
qed simp

lemma within_make_seed_path [simp, intro]: "within R (auth_make_seed_path db sfx)"
  unfolding auth_make_seed_path_def Let_def by (intro within_then) auto

lemma within_bootstrap [simp, intro]: "within R (auth_bootstrap_from_seed_if_needed Q db seed)"
  unfolding auth_bootstrap_from_seed_if_needed_def
  by (intro within_case_option within_on_error within_bind within_if within_then within_try
      within_seed_lines) auto

end

text \<open>Invariants that say nothing about the table are kept by loading it, too.\<close>

locale loading_frame = file_frame R for R :: "'r auth_env_scheme \<Rightarrow> 'r auth_env_scheme \<Rightarrow> bool" +
  assumes frame_table: "R s (s\<lparr>g_users := us, g_users_cap := cap, g_db_path := p\<rparr>)"
begin

lemma frame_users: "R s (s\<lparr>g_users := us\<rparr>)"
  using frame_table [where s = s and us = us and cap = "g_users_cap s" and p = "g_db_path s"] by simp

lemma frame_cap: "R s (s\<lparr>g_users_cap := cap\<rparr>)"
  using frame_table [where s = s and us = "g_users s" and cap = cap and p = "g_db_path s"] by simp

lemma frame_path: "R s (s\<lparr>g_db_path := p\<rparr>)"
  using frame_table [where s = s and us = "g_users s" and cap = "g_users_cap s" and p = p] by simp

lemma within_load_lines: "within R (auth_load_lines ls)"
proof (induction ls)
  case Nil
  show ?case by simp
next
  case (Cons l ls)
  have parse: "within R (auth_parse_db_line l)"
    unfolding auth_parse_db_line_def
    by (intro within_case_option within_case_prod within_if within_then) auto
  have push: "within R (auth_push_user u)" for u
    unfolding auth_push_user_def Let_def
    by (intro within_bind within_case_prod within_if within_then within_put frame_users frame_cap) auto
  show ?case
    using Cons.IH unfolding auth_load_lines.simps
    by (intro within_if within_bind within_then within_get within_raise parse push)
qed

lemma within_load_db: "within R (auth_load_db Q path)"
  unfolding auth_load_db_def auth_bootstrap_from_seed_def auth_clear_state_def
  by (intro within_case_option within_then within_bind within_on_error within_load_lines within_put
      frame_table frame_path) auto

end

locale auth_frame = file_frame R for R :: "'r auth_env_scheme \<Rightarrow> 'r auth_env_scheme \<Rightarrow> bool" +
  fixes P :: "'p platform_scheme"
  assumes frame_password: "length salt = AUTH_SALT_LEN \<Longrightarrow>
      R s (auth_update_user i
        (with_password salt (pbkdf2 P pw salt AUTH_PBKDF2_ITERS AUTH_HASH_LEN)) s)"
    and frame_tombstone: "within R (auth_set_deleted name 1)"
begin

lemma within_write_db [simp, intro]: "within R (auth_write_db path)"
  unfolding auth_write_db_def Let_def
  by (intro within_then within_bind within_on_error within_try) auto

lemma within_verify [simp, intro]: "within R (auth_verify_password Q name pw)"
  unfolding auth_verify_password_def
  by (intro within_bind within_case_prod within_case_option within_if) auto

lemma within_get_deleted [simp, intro]: "within R (auth_get_deleted name)"
  unfolding auth_get_deleted_def
  by (intro within_bind within_case_prod within_case_option) auto

lemma within_apply [simp, intro]: "within R (auth_apply_new_password P i pw)"
proof (rule withinI)
  fix s t :: "'r auth_env_scheme" and r
  assume run: "auth_apply_new_password P i pw s = (r, t)"
  have step: "R s (s\<lparr>w_tick := k, w_rpos := p\<rparr>)" for k p
    by (rule frame_trans [OF frame_tick frame_rpos])
  show "R s t"
  proof (cases r)
    case (Inl e)
    with run show ?thesis using auth_apply_new_password_Inl step by blast
  next
    case (Inr x)
    with run obtain salt k p where "length salt = AUTH_SALT_LEN" and
      "t = auth_update_user i (with_password salt (pbkdf2 P (cstr pw) salt AUTH_PBKDF2_ITERS AUTH_HASH_LEN))
          (s\<lparr>w_tick := k, w_rpos := p\<rparr>)"
      using auth_apply_new_password_Inr by blast
    then show ?thesis using frame_trans [OF step frame_password] by simp
  qed
qed

lemma within_change_authenticated [simp, intro]:
  "within R (auth_change_password_authenticated P name pw)"
  unfolding auth_change_password_authenticated_def
  by (intro within_bind within_case_prod within_case_option within_then) auto

lemma within_change [simp, intro]: "within R (auth_change_password P name old_pw new_pw)"
  unfolding auth_change_password_def
  by (intro within_bind within_case_prod within_case_option within_then within_if) auto

end

text \<open>The socket and the fault oracle are never touched.\<close>

lemma auth_set_deleted_within:
  assumes R: "\<And>s t k fs us. t = s\<lparr>w_tick := k, w_files := fs, g_users := us\<rparr> \<Longrightarrow> R s t"
  shows "within R (auth_set_deleted name d)"
proof (rule withinI)
  fix s t :: "'a auth_env_scheme" and r assume run: "auth_set_deleted name d s = (r, t)"
  have "t = s\<lparr>w_tick := w_tick t, w_files := w_files t, g_users := g_users t\<rparr>"
  proof (cases r)
    case (Inr x)
    with run auth_set_deleted_Inr obtain i path where
      w: "auth_write_db path (auth_update_user i (with_deleted d) s) = (Inr (), t)" by blast
    from withinD [OF auth_write_db_frame w] show ?thesis by (auto simp: auth_update_user_def)
  next
    case (Inl x)
    with run show ?thesis
      by (auto simp: auth_set_deleted_def io_inv Let_def auth_update_user_def
          split: option.splits if_splits dest!: withinD [OF auth_write_db_frame])
  qed
  then show "R s t" by (rule R)
qed

interpretation auth_net: auth_frame
  "\<lambda>s t. (w_rx s, w_plan s, w_tx s) = (w_rx t, w_plan t, w_tx t)" P for P
  by unfold_locales (auto simp: auth_update_user_def intro!: auth_set_deleted_within)

interpretation auth_oracle: auth_frame "\<lambda>s t. w_fault s = w_fault t" P for P
  by unfold_locales (auto simp: auth_update_user_def intro!: auth_set_deleted_within)

text \<open>The table stays well formed.\<close>

lemma user_ok_with:
  "user_ok u \<Longrightarrow> length salt = AUTH_SALT_LEN \<Longrightarrow> length hash = AUTH_HASH_LEN \<Longrightarrow>
     user_ok (with_password salt hash u)"
  "user_ok u \<Longrightarrow> d = 0 \<or> d = 1 \<Longrightarrow> user_ok (with_deleted d u)"
  by (auto simp: user_ok_def with_password_def with_deleted_def)

lemma username_with [simp]: "u_username (with_password a b u) = u_username u"
  "u_username (with_deleted d u) = u_username u" "u_deleted (with_password a b u) = u_deleted u"
  "u_deleted (with_deleted d u) = d"
  by (simp_all add: with_password_def with_deleted_def)

lemma nth_update: "(xs[i := y]) ! j = (if i = j \<and> i < length xs then y else xs ! j)"
  by (cases "i < length xs") (simp_all add: nth_list_update list_update_beyond not_less)

lemma map_update_same: "f (g (xs ! i)) = f (xs ! i) \<Longrightarrow> map f (xs[i := g (xs ! i)]) = map f xs"
  by (rule nth_equalityI) (auto simp: nth_update)

lemma auth_inv_update:
  assumes "auth_inv s" and "\<And>u. user_ok u \<Longrightarrow> user_ok (f u)" and "\<And>u. u_username (f u) = u_username u"
  shows "auth_inv (auth_update_user i f s)"
proof (cases "i < length (g_users s)")
  case True
  then have "g_users s ! i \<in> set (g_users s)" by simp
  with assms True show ?thesis
    by (auto simp: auth_inv_def map_update_same dest!: set_update_subset_insert [THEN subsetD])
next
  case False
  then have "g_users (auth_update_user i f s) = g_users s" by (simp add: not_less list_update_beyond)
  with assms(1) show ?thesis by (simp add: auth_inv_def)
qed

lemma auth_set_deleted_inv:
  assumes "auth_set_deleted name d s = (r, t)" and "auth_inv s"
  shows "auth_inv t"
proof (cases r)
  case (Inl x)
  with assms auth_set_deleted_Inl [of name d s x t] show ?thesis by (simp add: auth_inv_def)
next
  case (Inr x)
  with assms auth_set_deleted_Inr obtain i path where d: "d = 0 \<or> d = 1"
    and w: "auth_write_db path (auth_update_user i (with_deleted d) s) = (Inr (), t)" by blast
  have "auth_inv (auth_update_user i (with_deleted d) s)"
    by (rule auth_inv_update) (use assms(2) d user_ok_with(2) in auto)
  with auth_write_db_fields(5) [OF w] show ?thesis by simp
qed

lemma auth_inv_other [simp]:
  "auth_inv (s\<lparr>w_tick := a\<rparr>) = auth_inv s" "auth_inv (s\<lparr>w_rpos := a\<rparr>) = auth_inv s"
  "auth_inv (s\<lparr>w_files := f\<rparr>) = auth_inv s" "auth_inv (s\<lparr>w_dirs := d\<rparr>) = auth_inv s"
  "auth_inv (s\<lparr>w_rx := x\<rparr>) = auth_inv s" "auth_inv (s\<lparr>w_plan := p, w_tx := b\<rparr>) = auth_inv s"
  by (simp_all add: auth_inv_def)

interpretation auth_keeps: auth_frame "\<lambda>s t. pbkdf2_spec P \<and> auth_inv s \<longrightarrow> auth_inv t" P for P
proof
  fix salt pw i and s :: "'a auth_env_scheme"
  show "length salt = AUTH_SALT_LEN \<Longrightarrow> pbkdf2_spec P \<and> auth_inv s \<longrightarrow> auth_inv (auth_update_user i
      (with_password salt (pbkdf2 P pw salt AUTH_PBKDF2_ITERS AUTH_HASH_LEN)) s)"
    by (auto intro!: auth_inv_update user_ok_with(1) simp: pbkdf2_spec_def)
  show "within (\<lambda>s t. pbkdf2_spec P \<and> auth_inv s \<longrightarrow> auth_inv t) (auth_set_deleted name 1)" for name
    by (rule withinI) (use auth_set_deleted_inv in blast)
qed simp_all

text \<open>A tombstone stays, and no account appears or disappears.\<close>

definition tomb :: "'r auth_env_scheme \<Rightarrow> bytes \<Rightarrow> bool" where
  "tomb s name \<longleftrightarrow> (\<exists>u \<in> set (g_users s). u_username u = name \<and> u_deleted u \<noteq> 0)"

definition tomb_le :: "'r auth_env_scheme \<Rightarrow> 'r auth_env_scheme \<Rightarrow> bool" where
  "tomb_le s t \<longleftrightarrow> map u_username (g_users t) = map u_username (g_users s) \<and>
     (\<forall>i < length (g_users s). u_deleted (g_users s ! i) \<noteq> 0 \<longrightarrow> u_deleted (g_users t ! i) \<noteq> 0)"

lemma tomb_le_same [simp]: "g_users t = g_users s \<Longrightarrow> tomb_le s t"
  by (simp add: tomb_le_def)

lemma tomb_leD: "tomb_le s t \<Longrightarrow> tomb s name \<Longrightarrow> tomb t name"
proof -
  assume le: "tomb_le s t" and "tomb s name"
  then obtain i where i: "i < length (g_users s)" "u_username (g_users s ! i) = name"
    "u_deleted (g_users s ! i) \<noteq> 0"
    by (auto simp: tomb_def in_set_conv_nth)
  from le have "length (g_users t) = length (g_users s)"
    "map u_username (g_users t) ! i = map u_username (g_users s) ! i"
    using map_eq_imp_length_eq by (auto simp: tomb_le_def)
  with i(1,2) have "u_username (g_users t ! i) = name" by simp
  with i le \<open>length (g_users t) = length (g_users s)\<close> show ?thesis by (auto simp: tomb_le_def tomb_def intro!: bexI [of _ "g_users t ! i"])
qed

lemma tomb_le_update:
  assumes "\<And>u. u_username (f u) = u_username u" and "\<And>u. u_deleted u \<noteq> 0 \<Longrightarrow> u_deleted (f u) \<noteq> 0"
  shows "tomb_le s (auth_update_user i f s)"
proof -
  have "u_deleted ((g_users s)[i := f (g_users s ! i)] ! j) \<noteq> 0" if "u_deleted (g_users s ! j) \<noteq> 0" for j
    using that assms(2) by (simp add: nth_update)
  then show ?thesis using assms(1) by (simp add: tomb_le_def map_update_same)
qed

lemma tomb_le_trans: "tomb_le s t \<Longrightarrow> tomb_le t u \<Longrightarrow> tomb_le s u"
proof -
  assume a: "tomb_le s t" and b: "tomb_le t u"
  from a have "length (g_users t) = length (g_users s)"
    using map_eq_imp_length_eq unfolding tomb_le_def by blast
  with a b show ?thesis by (simp add: tomb_le_def)
qed

interpretation tombs: auth_frame tomb_le P for P
proof
  show "within tomb_le (auth_set_deleted name 1 :: ('a auth_env_scheme, unit, unit) io)" for name
  proof (rule withinI)
    fix s t :: "'a auth_env_scheme" and r assume run: "auth_set_deleted name 1 s = (r, t)"
    show "tomb_le s t"
    proof (cases r)
      case (Inl x)
      with run auth_set_deleted_Inl [of name 1 s x t] show ?thesis by simp
    next
      case (Inr x)
      with run auth_set_deleted_Inr obtain i where
        "g_users t = g_users (auth_update_user i (with_deleted 1) s)" by blast
      moreover have "tomb_le s (auth_update_user i (with_deleted 1) s)"
        by (rule tomb_le_update) auto
      ultimately show ?thesis by (simp add: tomb_le_def)
    qed
  qed
  show "tomb_le s u" if "tomb_le s t" "tomb_le t u" for s t u :: "'a auth_env_scheme"
    using that by (rule tomb_le_trans)
qed (simp_all add: tomb_le_update)

end
