(* ===== verification/AuthProps.thy ===== *)
theory AuthProps
  imports AuthOps
begin

text \<open>
  The guarantees of the account database: writing is atomic and loading reads back what was
  written, loading accepts only well-formed tables, a password is accepted exactly when its
  hash is the stored one, and a tombstone is set in memory and on disk or not at all.
\<close>

section \<open>Loading\<close>

lemma make_seed_path_calm:
  "calm s \<Longrightarrow> \<exists>p. auth_make_seed_path db sfx s = (Inr p, s\<lparr>w_tick := Suc (w_tick s)\<rparr>)"
  by (simp add: auth_make_seed_path_def io_def Let_def)

lemma path_exists_tick [simp]: "path_exists (s\<lparr>w_tick := k\<rparr>) p = path_exists s p"
  by (simp add: path_exists_def)

lemma bootstrap_db_there:
  assumes "calm s" and "path_exists s db"
  shows "\<exists>k. auth_bootstrap_from_seed_if_needed P (Some db) (Some seed) s = (Inr (), s\<lparr>w_tick := k\<rparr>)"
proof -
  obtain p where "auth_make_seed_path db (ascii ''.seed.consumed'') s = (Inr p, s\<lparr>w_tick := Suc (w_tick s)\<rparr>)"
    using make_seed_path_calm [OF assms(1)] by blast
  with assms(2) show ?thesis
    by (simp add: auth_bootstrap_from_seed_if_needed_def io_def)
qed

lemma bootstrap_from_seed_db_there:
  assumes "calm s" and "path_exists s db"
  shows "\<exists>k. auth_bootstrap_from_seed P db s = (Inr (), s\<lparr>w_tick := k\<rparr>)"
proof -
  obtain p where p: "auth_make_seed_path db (ascii ''.seed'') s = (Inr p, s\<lparr>w_tick := Suc (w_tick s)\<rparr>)"
    using make_seed_path_calm [OF assms(1)] by blast
  have "calm (s\<lparr>w_tick := Suc (w_tick s)\<rparr>)" "path_exists (s\<lparr>w_tick := Suc (w_tick s)\<rparr>) db"
    using assms by simp_all
  from bootstrap_db_there [OF this, of P p] p show ?thesis
    by (auto simp: auth_bootstrap_from_seed_def bind_io_ok)
qed

lemma auth_inv_clear [simp]: "auth_inv (auth_clear_state s)"
  by (simp add: auth_inv_def auth_clear_state_def)

lemma open_read_keeps: "open_read e p s = (r, t) \<Longrightarrow> \<exists>k. t = s\<lparr>w_tick := k\<rparr>"
  by (auto simp: open_read_def lib_call_def io_def split: if_splits option.splits)

text \<open>The state of the table after loading, whatever the file holds and whatever call fails.\<close>

interpretation table_frame: file_frame
  "\<lambda>s t. (g_users s, g_users_cap s, g_db_path s) = (g_users t, g_users_cap t, g_db_path t)"
  by unfold_locales auto

lemma bootstrap_keeps_table:
  assumes "auth_bootstrap_from_seed P db s = (r, t)"
  shows "g_users t = g_users s" and "g_users_cap t = g_users_cap s" and "g_db_path t = g_db_path s"
proof -
  have "within (\<lambda>s t. (g_users s, g_users_cap s, g_db_path s) = (g_users t, g_users_cap t, g_db_path t))
      (auth_bootstrap_from_seed P db)"
    unfolding auth_bootstrap_from_seed_def
    by (intro frame_same.within_bind table_frame.within_make_seed_path table_frame.within_bootstrap)
  from withinD [OF this assms] show "g_users t = g_users s" "g_users_cap t = g_users_cap s"
    "g_db_path t = g_db_path s" by simp_all
qed

lemma auth_inv_cong:
  "g_users t = g_users s \<Longrightarrow> g_users_cap t = g_users_cap s \<Longrightarrow> auth_inv t = auth_inv s"
  by (simp add: auth_inv_def)

lemma auth_load_db_run:
  assumes run: "auth_load_db P (Some path) s = (r, t)" and inv: "auth_inv s"
  shows "auth_inv t \<and> (r = Inr () \<longrightarrow> g_db_path t = Some path) \<and>
    (r \<noteq> Inr () \<longrightarrow> g_users t = g_users s \<and> g_db_path t = g_db_path s \<or> g_users t = [] \<and> g_db_path t = None)"
proof -
  obtain rb s1 where b: "auth_bootstrap_from_seed P path s = (rb, s1)" by fastforce
  note tb = bootstrap_keeps_table [OF b]
  have inv1: "auth_inv s1" using inv auth_inv_cong [OF tb(1,2)] by simp
  show ?thesis
  proof (cases rb)
    case (Inl e)
    with run b have "t = s1" "r \<noteq> Inr ()" by (auto simp: auth_load_db_def io_def)
    with inv1 tb show ?thesis by simp
  next
    case (Inr x)
    obtain ro s2 where o: "open_read () path s1 = (ro, s2)" by fastforce
    from open_read_keeps [OF o] obtain k where s2: "s2 = s1\<lparr>w_tick := k\<rparr>" by blast
    show ?thesis
    proof (cases ro)
      case (Inl e)
      with run b Inr o have "t = s2" "r \<noteq> Inr ()" by (auto simp: auth_load_db_def io_def)
      with inv1 tb s2 show ?thesis by simp
    next
      case (Inr c)
      let ?ls = "read_lines (AUTH_LINE_MAX - 2) c"
      have ls: "\<forall>l \<in> set ?ls. newline \<notin> set l \<and> 0 \<notin> set l \<and> length l < AUTH_LINE_MAX"
        using read_lines_chars [of _ "AUTH_LINE_MAX - 2" c] by (fastforce simp: AUTH_LINE_MAX_def)
      have run': "on_error (then_io (auth_load_lines ?ls) (then_io (lib_calls 2 ())
          (then_io (lib_call ()) (put_io (\<lambda>s. s\<lparr>g_db_path := Some path\<rparr>))))) (put_io auth_clear_state)
          (auth_clear_state s2) = (r, t)"
        using run b \<open>rb = Inr x\<close> o Inr by (simp add: auth_load_db_def io_def)
      show ?thesis
      proof (cases r)
        case (Inl e)
        with run' show ?thesis by (auto simp: io_inv auth_clear_state_def auth_inv_def)
      next
        case (Inr y)
        with run' obtain v v2 where l: "auth_load_lines ?ls (auth_clear_state s2) = (Inr (), v)"
          and lc: "lib_calls 2 () v = (Inr (), v2)"
          and t: "\<exists>k. t = v2\<lparr>w_tick := k, g_db_path := Some path\<rparr>"
          by (auto simp: io_inv simp del: lib_calls.simps dest!: lib_call_run)
        from auth_load_lines_inv [OF l auth_inv_clear ls] have "auth_inv v" by simp
        moreover obtain k where "v2 = v\<lparr>w_tick := k\<rparr>" using lib_calls_run [OF lc] by blast
        ultimately show ?thesis using t Inr by (auto simp: auth_inv_def)
      qed
    qed
  qed
qed

lemma auth_load_db_text:
  assumes "calm v" and "file_at v path = Some (db_text us)" and "\<forall>u \<in> set us. user_ok u"
    and "distinct (map u_username us)" and "length us < 2 ^ 62"
  shows "\<exists>w. auth_load_db P (Some path) v = (Inr (), w) \<and> g_users w = us \<and> g_db_path w = Some path \<and>
    w_files w = w_files v"
proof -
  have "path_exists v path" using assms(2) by (simp add: path_exists_def)
  from bootstrap_from_seed_db_there [OF assms(1) this] obtain k where
    b: "auth_bootstrap_from_seed P path v = (Inr (), v\<lparr>w_tick := k\<rparr>)" by blast
  let ?s = "auth_clear_state (v\<lparr>w_tick := Suc k\<rparr>)"
  let ?ls = "read_lines (AUTH_LINE_MAX - 2) (db_text us)"
  have o: "open_read () path (v\<lparr>w_tick := k\<rparr>) = (Inr (db_text us), v\<lparr>w_tick := Suc k\<rparr>)"
    using assms(1,2) by (simp add: open_read_def io_def)
  have "calm ?s" "auth_inv ?s" "g_users ?s = []" "g_users_cap ?s = 0"
    using assms(1) by (simp_all add: auth_clear_state_def calm_def auth_inv_def)
  with assms(3-5) auth_load_lines_text [of ?s us] obtain k' cap where
    "auth_load_lines (map user_line us) ?s =
      (Inr (), ?s\<lparr>w_tick := k', g_users_cap := cap, g_users := us\<rparr>)" by auto
  moreover have "auth_load_lines (map user_line us) ?s = auth_load_lines ?ls ?s"
    using auth_load_lines_skip [of ?ls, THEN fun_cong, of ?s] by (simp only: read_db_text [OF assms(3)])
  moreover have "calm (?s\<lparr>w_tick := k', g_users_cap := cap, g_users := us\<rparr>)"
    using assms(1) by (simp add: auth_clear_state_def calm_def)
  moreover have "w_files (?s\<lparr>w_tick := k', g_users_cap := cap, g_users := us\<rparr>) = w_files v"
    by (simp add: auth_clear_state_def)
  ultimately obtain v2 where l: "auth_load_lines ?ls ?s = (Inr (), v2)" "calm v2" "g_users v2 = us"
      "w_files v2 = w_files v"
    by simp
  show ?thesis
    using b o l by (simp add: auth_load_db_def io_def del: lib_calls.simps)
qed

interpretation load_oracle: loading_frame "\<lambda>s t. w_fault s = w_fault t"
  by unfold_locales auto

section \<open>Properties\<close>

text \<open>C13: The database survives a restart.  Once \<open>auth_write_db\<close> has succeeded, a server that later
  finds that file and loads it in a working environment has the same accounts in the same order,
  with the same salts, hashes, flags and tombstones, for every well-formed table.\<close>

theorem write_then_load:
  assumes "auth_inv s" and "length (g_users s) < 2 ^ 62" and "auth_write_db path s = (Inr u, t)"
    and "calm v" and "file_at v path = file_at t path"
  shows "\<exists>w. auth_load_db P (Some path) v = (Inr (), w) \<and> g_users w = g_users s \<and> g_db_path w = Some path"
  using auth_load_db_text [OF assms(4), of path "g_users s" P] auth_write_db_contents(1) [OF assms(3,1)] assms
  by (auto simp: auth_inv_def)

definition sample_user :: auth_user where
  "sample_user = \<lparr>u_username = ascii ''bob'', u_must_change = 0, u_deleted = 0,
     u_salt = replicate 16 1, u_hash = pbkdf2 sample_platform (ascii ''pw'') (replicate 16 1) 200000 32\<rparr>"

definition sample_auth :: auth_env where
  "sample_auth = \<lparr>w_fault = (\<lambda>_. False), w_part = (\<lambda>_. 0), w_tick = 0, w_tape = of_nat,
     w_rpos = 0, w_files = [], w_dirs = [], w_rx = [], w_plan = [], w_tx = [],
     g_users = [sample_user], g_users_cap = 8, g_db_path = Some (ascii ''users.db'')\<rparr>"

lemma sample_user_ok: "user_ok sample_user"
  by (simp add: user_ok_def sample_user_def AUTH_LINE_MAX_def AUTH_SALT_LEN_def AUTH_HASH_LEN_def
      sample_platform_def ascii_def)

lemma sample_auth_ok: "auth_inv sample_auth" "calm sample_auth" "g_users sample_auth = [sample_user]"
  "g_db_path sample_auth = Some (ascii ''users.db'')"
  by (simp_all add: auth_inv_def sample_auth_def sample_user_ok calm_def)

lemma auth_write_db_calm:
  assumes "calm s" and "auth_inv s" and "path @ ascii ''.tmp'' \<notin> set (w_dirs s)"
  shows "\<exists>t. auth_write_db path s = (Inr (), t)"
proof -
  let ?tmp = "path @ ascii ''.tmp''"
  let ?s1 = "set_file ?tmp [] (s\<lparr>w_tick := Suc (Suc (w_tick s))\<rparr>)"
  have us: "\<forall>u \<in> set (g_users ?s1). length (u_salt u) = AUTH_SALT_LEN \<and> length (u_hash u) = AUTH_HASH_LEN"
    using assms(2) by (auto simp: auth_inv_def user_ok_def set_file_def)
  have "calm ?s1" using assms(1) by simp
  then obtain s2 where s2: "auth_write_users ?tmp (g_users ?s1) ?s1 = (Inr (), s2)" "calm s2"
    using auth_write_users_calm [OF _ us, of ?s1 ?tmp] by (metis prod.collapse)
  have f: "file_at s2 ?tmp = Some ([] @ db_text (g_users ?s1))"
    by (rule write_users_contents [OF s2(1) us]) simp
  have o: "open_write () ?tmp (s\<lparr>w_tick := Suc (w_tick s)\<rparr>) = (Inr (), ?s1)"
    using assms by (simp add: open_write_def io_def)
  have c: "file_close () ?tmp v = (Inr (), v\<lparr>w_tick := Suc (w_tick v)\<rparr>)"
    if "calm v" for v :: "'a auth_env_scheme"
    using that by (simp add: file_close_def Let_def calm_def)
  have r: "\<exists>w. rename () ?tmp path v = (Inr (), w)"
    if "calm v" "file_at v ?tmp = Some d" for v :: "'a auth_env_scheme" and d
    using that by (simp add: rename_def io_def)
  let ?s3 = "s2\<lparr>w_tick := Suc (w_tick s2 + 2)\<rparr>"
  obtain w where w: "rename () ?tmp path ?s3 = (Inr (), w)" using r [of ?s3] s2(2) f by auto
  show ?thesis
    using assms(1) o s2 c w
    by (simp add: auth_write_db_def io_def Let_def del: lib_calls.simps)
qed

theorem write_then_load_witness:
  "\<exists>t w. auth_write_db (ascii ''users.db'') sample_auth = (Inr (), t) \<and>
     auth_load_db sample_platform (Some (ascii ''users.db'')) (sample_auth\<lparr>g_users := [], w_files := w_files t\<rparr>) =
       (Inr (), w) \<and> g_users w = [sample_user]"
proof -
  obtain t where t: "auth_write_db (ascii ''users.db'') sample_auth = (Inr (), t)"
    using auth_write_db_calm [OF sample_auth_ok(2,1)] by (auto simp: sample_auth_def)
  let ?v = "sample_auth\<lparr>g_users := [], w_files := w_files t\<rparr>"
  have "length (g_users sample_auth) < 2 ^ 62" "calm ?v"
    "file_at ?v (ascii ''users.db'') = file_at t (ascii ''users.db'')"
    by (simp_all add: sample_auth_def calm_def file_at_def)
  from write_then_load [OF sample_auth_ok(1) this(1) t this(2,3)] t sample_auth_ok(3) show ?thesis by metis
qed

text \<open>C12: Writing the database is atomic.  Whichever library call fails, the database file holds
  either its old contents, and then the write reports a failure, or the whole new table, and no
  other file is touched except the temporary one.\<close>

theorem write_is_atomic:
  assumes "auth_inv s" and "auth_write_db path s = (r, t)"
  shows "file_at t path = (if r = Inr () then Some (db_text (g_users s)) else file_at s path) \<and>
    (\<forall>q. q \<noteq> path \<longrightarrow> q \<noteq> path @ ascii ''.tmp'' \<longrightarrow> file_at t q = file_at s q)"
proof -
  have "file_at t path = (if r = Inr () then Some (db_text (g_users s)) else file_at s path)"
    using auth_write_db_contents(1) [OF _ assms(1)] auth_write_db_failed assms(2) by (cases r) auto
  moreover have "file_at t q = file_at s q" if "q \<noteq> path" "q \<noteq> path @ ascii ''.tmp''" for q
    using preservesD [OF auth_write_db_other [OF that] assms(2)] .
  ultimately show ?thesis by blast
qed

theorem write_is_atomic_witness:
  "\<exists>r t. auth_write_db (ascii ''users.db'') (sample_auth\<lparr>w_fault := (\<lambda>n. n = 3)\<rparr>) = (r, t) \<and>
     file_at t (ascii ''users.db'') =
       (if r = Inr () then Some (db_text [sample_user]) else file_at sample_auth (ascii ''users.db''))"
proof -
  let ?s = "sample_auth\<lparr>w_fault := (\<lambda>n. n = 3)\<rparr>"
  have inv: "auth_inv ?s" "g_users ?s = [sample_user]" "file_at ?s q = file_at sample_auth q" for q
    using sample_auth_ok by (simp_all add: auth_inv_def file_at_def)
  obtain r t where run: "auth_write_db (ascii ''users.db'') ?s = (r, t)" by fastforce
  from write_is_atomic [OF inv(1) run] run inv show ?thesis by metis
qed

text \<open>C27: Loading accepts only well-formed tables.  Whatever the database file contains and
  whatever call fails, the accounts in memory afterwards have distinct non-empty names without a
  colon, flags that are 0 or 1, and salts and hashes of the right length; a failed load leaves
  either the old table or none.\<close>

theorem load_gives_wellformed_table:
  assumes "auth_inv s" and "auth_load_db P (Some path) s = (r, t)"
  shows "auth_inv t \<and> (r = Inr () \<longrightarrow> g_db_path t = Some path) \<and>
    (r \<noteq> Inr () \<longrightarrow> g_users t = g_users s \<and> g_db_path t = g_db_path s \<or> g_users t = [] \<and> g_db_path t = None)"
  using auth_load_db_run [OF assms(2,1)] .

theorem load_gives_wellformed_table_witness:
  "\<exists>r t. auth_load_db sample_platform (Some (ascii ''users.db''))
       (set_file (ascii ''users.db'') (ascii ''bob:0:0:zz:00'') sample_auth) = (r, t) \<and> auth_inv t"
proof -
  let ?s = "set_file (ascii ''users.db'') (ascii ''bob:0:0:zz:00'') sample_auth"
  have inv: "auth_inv ?s" using sample_auth_ok(1) by (simp add: set_file_def)
  obtain r t where run: "auth_load_db sample_platform (Some (ascii ''users.db'')) ?s = (r, t)" by fastforce
  from load_gives_wellformed_table [OF inv run] run show ?thesis by blast
qed

text \<open>C28: A password is accepted exactly when it is right: in a working environment
  \<open>auth_verify_password\<close> succeeds if and only if the account exists and PBKDF2 of the password with
  the account's salt is the stored hash, it returns the account's flags, and it changes no
  account.\<close>

theorem verify_password_exact:
  assumes "calm s"
  shows "auth_verify_password P name pw s = (Inr (mc, del), t) \<longleftrightarrow>
    (\<exists>i. auth_find_user (g_users s) name = Some i \<and>
       pbkdf2 P (cstr pw) (u_salt (g_users s ! i)) AUTH_PBKDF2_ITERS AUTH_HASH_LEN = u_hash (g_users s ! i) \<and>
       mc = u_must_change (g_users s ! i) \<and> del = u_deleted (g_users s ! i)) \<and>
    t = s\<lparr>w_tick := Suc (w_tick s)\<rparr>"
  unfolding auth_verify_password_calm [OF assms] by (auto simp: Let_def split: option.split)

theorem verify_password_exact_witness:
  "auth_verify_password sample_platform (ascii ''bob'') (ascii ''pw'') sample_auth =
     (Inr (0, 0), sample_auth\<lparr>w_tick := 1\<rparr>)"
proof -
  have c: "cstr (ascii ''pw'') = ascii ''pw''" by (simp add: cstr_def ascii_def)
  show ?thesis
    using verify_password_exact [OF sample_auth_ok(2), of sample_platform "ascii ''bob''" "ascii ''pw''" 0 0
        "sample_auth\<lparr>w_tick := 1\<rparr>"] c
    by (simp add: sample_auth_def sample_user_def AUTH_PBKDF2_ITERS_def AUTH_HASH_LEN_def)
qed

text \<open>C14: Setting a tombstone is a transaction: if \<open>auth_set_deleted\<close> succeeds, the flag of that one
  account is changed in memory and the database file holds the changed table; if it fails, the
  table and the database file are what they were.\<close>

theorem set_deleted_transaction:
  assumes "auth_inv s" and "g_db_path s = Some path" and "auth_set_deleted name d s = (r, t)"
  shows "(r = Inr () \<and> (\<exists>i. auth_find_user (g_users s) name = Some i \<and>
            g_users t = (g_users s)[i := (g_users s ! i)\<lparr>u_deleted := d\<rparr>]) \<and>
          file_at t path = Some (db_text (g_users t)) \<and> auth_inv t) \<or>
         (r = Inl () \<and> g_users t = g_users s \<and> file_at t path = file_at s path \<and> auth_inv t)"
proof (cases r)
  case (Inl e)
  with auth_set_deleted_Inl assms show ?thesis by (cases r) (auto simp: auth_inv_def)
next
  case (Inr x)
  with auth_set_deleted_Inr assms(2,3) obtain i where i: "auth_find_user (g_users s) name = Some i"
    "d = 0 \<or> d = 1"
    and w: "auth_write_db path (auth_update_user i (with_deleted d) s) = (Inr (), t)"
    "g_users t = g_users (auth_update_user i (with_deleted d) s)" by fastforce
  have "auth_inv (auth_update_user i (with_deleted d) s)"
    by (rule auth_inv_update) (use assms(1) i user_ok_with(2) in auto)
  from auth_write_db_contents(1) [OF w(1) this] auth_set_deleted_inv [OF assms(3,1)] i w Inr
  show ?thesis by (auto simp: with_deleted_def)
qed

theorem set_deleted_transaction_witness:
  "\<exists>r t. auth_set_deleted (ascii ''bob'') 1 sample_auth = (r, t) \<and>
     (r = Inr () \<and> file_at t (ascii ''users.db'') = Some (db_text (g_users t)) \<or>
      r = Inl () \<and> g_users t = g_users sample_auth)"
proof -
  obtain r t where run: "auth_set_deleted (ascii ''bob'') 1 sample_auth = (r, t)" by fastforce
  from set_deleted_transaction [OF sample_auth_ok(1,4) run] run show ?thesis by blast
qed

text \<open>C29: \<open>auth_change_password\<close> succeeds only with the old password.  On success the old password was
  the right one, the account has a new salt, drawn from the random source during the call (so no
  later call can draw these bytes again), and the hash of the new password under it, no longer
  has to change it, keeps its tombstone, every other account is unchanged, and the database file
  holds the new table.\<close>

theorem change_password_correct:
  assumes "auth_inv s" and "pbkdf2_spec P" and "g_db_path s = Some path"
    and "auth_change_password P name old_pw new_pw s = (Inr x, t)"
  shows "\<exists>i salt. auth_find_user (g_users s) name = Some i \<and>
    u_hash (g_users s ! i) = pbkdf2 P (cstr old_pw) (u_salt (g_users s ! i)) AUTH_PBKDF2_ITERS AUTH_HASH_LEN \<and>
    g_users t = (g_users s)[i := (g_users s ! i)\<lparr>u_salt := salt,
       u_hash := pbkdf2 P (cstr new_pw) salt AUTH_PBKDF2_ITERS AUTH_HASH_LEN, u_must_change := 0\<rparr>] \<and>
    length salt = AUTH_SALT_LEN \<and> drawn s (w_rpos t) salt \<and>
    file_at t path = Some (db_text (g_users t)) \<and> auth_inv t"
proof -
  from assms(3,4) obtain m v where
    v: "auth_verify_password P name old_pw s = (Inr m, v)" and
    c: "auth_change_password_authenticated P name new_pw v = (Inr x, t)"
    by (auto simp: auth_change_password_checked split: sum.splits prod.splits)
  obtain k where vs: "v = s\<lparr>w_tick := k\<rparr>" using auth_verify_password_run(1) [OF v] by blast
  obtain mc del where m: "m = (mc, del)" by fastforce
  from auth_verify_password_run(2) [OF v, of mc del] m obtain i where
    i: "auth_find_user (g_users s) name = Some i"
      "u_hash (g_users s ! i) = pbkdf2 P (cstr old_pw) (u_salt (g_users s ! i)) AUTH_PBKDF2_ITERS AUTH_HASH_LEN"
    by auto
  from auth_change_password_authenticated_Inr [OF c] assms(3) i(1) vs obtain salt u k' p where
    s: "length salt = AUTH_SALT_LEN" "drawn v p salt"
    and u: "u = auth_update_user i (with_password salt (pbkdf2 P (cstr new_pw) salt AUTH_PBKDF2_ITERS AUTH_HASH_LEN))
          (v\<lparr>w_tick := k', w_rpos := p\<rparr>)"
    and w: "auth_write_db path u = (Inr (), t)" "g_users t = g_users u" by fastforce
  have "auth_inv u"
    unfolding u by (rule auth_inv_update) (use assms(1,2) s(1) vs user_ok_with(1) in \<open>auto simp: pbkdf2_spec_def\<close>)
  moreover have "w_rpos t = p" using withinD [OF auth_write_db_frame w(1)] by (auto simp: u auth_update_user_def)
  ultimately show ?thesis
    using auth_write_db_contents(1) [OF w(1)] auth_write_db_fields(5) [OF w(1)] w(2) s drawn_cong [OF s(2), of s p]
    by (intro exI [of _ i] exI [of _ salt]) (simp add: i u vs with_password_def)
qed

lemma sample_pbkdf2_spec: "pbkdf2_spec sample_platform"
  by (simp add: pbkdf2_spec_def sample_platform_def min_def)

lemma change_authenticated_calm:
  assumes "calm s" and "auth_inv s" and "pbkdf2_spec P" and "auth_find_user (g_users s) name = Some i"
    and "g_db_path s = Some path" and "path @ ascii ''.tmp'' \<notin> set (w_dirs s)"
  shows "\<exists>t. auth_change_password_authenticated P name pw s = (Inr (), t)"
proof -
  define salt where "salt = map (w_tape s) [w_rpos s ..< w_rpos s + AUTH_SALT_LEN]"
  define u where "u = auth_update_user i
      (with_password salt (pbkdf2 P (cstr pw) salt AUTH_PBKDF2_ITERS AUTH_HASH_LEN))
      (s\<lparr>w_rpos := w_rpos s + AUTH_SALT_LEN, w_tick := Suc (Suc (w_tick s))\<rparr>)"
  have a: "auth_apply_new_password P i pw s = (Inr (), u)"
    using assms(1)
    by (simp add: auth_apply_new_password_def auth_pbkdf2_def rand_bytes_calm io_def u_def salt_def
        with_password_def [abs_def])
  have "length salt = AUTH_SALT_LEN" by (simp add: salt_def)
  then have "auth_inv u"
    unfolding u_def by (intro auth_inv_update user_ok_with(1)) (use assms in \<open>auto simp: pbkdf2_spec_def\<close>)
  moreover have "calm u" "path @ ascii ''.tmp'' \<notin> set (w_dirs u)" using assms by (simp_all add: u_def)
  ultimately obtain t where "auth_write_db path u = (Inr (), t)" using auth_write_db_calm by blast
  with a assms(4,5) show ?thesis by (simp add: auth_change_password_authenticated_def io_def)
qed

theorem change_password_correct_witness:
  "\<exists>t salt. auth_change_password sample_platform (ascii ''bob'') (ascii ''pw'') (ascii ''new'') sample_auth = (Inr (), t) \<and>
     drawn sample_auth (w_rpos t) salt \<and> g_users t = [sample_user\<lparr>u_salt := salt,
       u_hash := pbkdf2 sample_platform (ascii ''new'') salt 200000 32, u_must_change := 0\<rparr>]"
proof -
  have c: "cstr (ascii ''pw'') = ascii ''pw''" "cstr (ascii ''new'') = ascii ''new''"
    by (simp_all add: cstr_def ascii_def)
  have f: "auth_find_user (g_users sample_auth) (ascii ''bob'') = Some 0"
    by (simp add: sample_auth_def sample_user_def)
  have v: "auth_verify_password sample_platform (ascii ''bob'') (ascii ''pw'') sample_auth =
     (Inr (0, 0), sample_auth\<lparr>w_tick := 1\<rparr>)"
    unfolding auth_verify_password_calm [OF sample_auth_ok(2)] f
    by (simp add: c sample_auth_def sample_user_def AUTH_PBKDF2_ITERS_def AUTH_HASH_LEN_def Let_def)
  obtain t where "auth_change_password_authenticated sample_platform (ascii ''bob'') (ascii ''new'')
      (sample_auth\<lparr>w_tick := 1\<rparr>) = (Inr (), t)"
  proof -
    have "calm (sample_auth\<lparr>w_tick := 1\<rparr>)" "auth_inv (sample_auth\<lparr>w_tick := 1\<rparr>)"
      "auth_find_user (g_users (sample_auth\<lparr>w_tick := 1\<rparr>)) (ascii ''bob'') = Some 0"
      "g_db_path (sample_auth\<lparr>w_tick := 1\<rparr>) = Some (ascii ''users.db'')"
      "ascii ''users.db'' @ ascii ''.tmp'' \<notin> set (w_dirs (sample_auth\<lparr>w_tick := 1\<rparr>))"
      using sample_auth_ok f by (simp_all add: sample_auth_def [THEN arg_cong [of _ _ w_dirs]])
    from change_authenticated_calm [OF this(1,2) sample_pbkdf2_spec this(3-5)] that show ?thesis by blast
  qed
  with v have r: "auth_change_password sample_platform (ascii ''bob'') (ascii ''pw'') (ascii ''new'') sample_auth = (Inr (), t)"
    by (simp add: auth_change_password_checked sample_auth_ok(4))
  from change_password_correct [OF sample_auth_ok(1) sample_pbkdf2_spec sample_auth_ok(4) r] r f show ?thesis
    by (auto simp: sample_auth_ok(3) c AUTH_PBKDF2_ITERS_def AUTH_HASH_LEN_def)
qed

text \<open>A printed account reads back.  For every well-formed account the line \<open>auth_write_db\<close> prints
  (without its newline) is parsed by \<open>auth_parse_db_line\<close> into the same account, and conversely
  every accepted line gives a well-formed account.\<close>

theorem account_line_round_trip:
  assumes "calm s" and "newline \<notin> set line" and "0 \<notin> set line" and "length line < AUTH_LINE_MAX"
  shows "(user_ok u \<longrightarrow> (\<exists>t. auth_parse_db_line (user_line u) s = (Inr u, t))) \<and>
    (\<forall>t. auth_parse_db_line line s = (Inr u, t) \<longrightarrow> user_ok u)"
  using parse_user_line [OF _ assms(1)] parse_db_line_ok [OF _ assms(2-4)] by blast

theorem account_line_round_trip_witness:
  "\<exists>t. auth_parse_db_line (user_line sample_user) sample_auth = (Inr sample_user, t)"
  using account_line_round_trip [OF sample_auth_ok(2), of "[]" sample_user] sample_user_ok
  by (simp add: AUTH_LINE_MAX_def)

text \<open>A failed password change is not undone in memory.  If the new password has been put into
  the table and writing the database then fails, \<open>auth_change_password_authenticated\<close> reports the
  failure but the running server keeps the new salt and hash while the file keeps the old ones,
  unlike \<open>auth_set_deleted\<close>, which restores the table.\<close>

theorem failed_change_stays_in_memory:
  assumes "g_db_path s = Some path" and "auth_find_user (g_users s) name = Some i"
    and "auth_apply_new_password P i new_pw s = (Inr (), u)" and "auth_write_db path u = (Inl e, t)"
  shows "auth_change_password_authenticated P name new_pw s = (Inl (), t) \<and>
    file_at t path = file_at s path \<and>
    (\<exists>salt. u_hash (g_users t ! i) = pbkdf2 P (cstr new_pw) salt AUTH_PBKDF2_ITERS AUTH_HASH_LEN \<and>
            u_salt (g_users t ! i) = salt \<and> u_must_change (g_users t ! i) = 0)"
proof -
  from auth_apply_new_password_Inr [OF assms(3)] obtain salt k p where
    u: "u = auth_update_user i (with_password salt (pbkdf2 P (cstr new_pw) salt AUTH_PBKDF2_ITERS AUTH_HASH_LEN))
          (s\<lparr>w_tick := k, w_rpos := p\<rparr>)" by blast
  have "i < length (g_users s)" using auth_find_user_Some [OF assms(2)] by simp
  moreover have "auth_change_password_authenticated P name new_pw s = (Inl (), t)"
    using assms by (simp add: auth_change_password_authenticated_def io_def)
  ultimately show ?thesis
    using auth_write_db_failed [OF assms(4)] auth_write_db_fields(1) [OF assms(4)] u
    by (simp add: with_password_def)
qed

theorem failed_change_stays_in_memory_witness:
  "\<exists>t. auth_change_password_authenticated sample_platform (ascii ''bob'') (ascii ''new'')
       (sample_auth\<lparr>w_fault := (\<lambda>n. n = 2)\<rparr>) = (Inl (), t) \<and>
     (\<exists>salt. u_hash (g_users t ! 0) = pbkdf2 sample_platform (cstr (ascii ''new'')) salt AUTH_PBKDF2_ITERS AUTH_HASH_LEN)"
proof -
  let ?s = "sample_auth\<lparr>w_fault := (\<lambda>n. n = 2)\<rparr>"
  have f: "g_db_path ?s = Some (ascii ''users.db'')" "auth_find_user (g_users ?s) (ascii ''bob'') = Some 0"
    by (simp_all add: sample_auth_def sample_user_def)
  obtain u where a: "auth_apply_new_password sample_platform 0 (ascii ''new'') ?s = (Inr (), u)"
    "w_tick u = 2" "w_fault u = (\<lambda>n. n = 2)"
    by (simp add: auth_apply_new_password_def rand_bytes_def auth_pbkdf2_def lib_call_def io_def
        sample_auth_def auth_update_user_def)
  then obtain e t where w: "auth_write_db (ascii ''users.db'') u = (Inl e, t)"
    by (simp add: auth_write_db_def Let_def then_io_err lib_call_def)
  from failed_change_stays_in_memory [OF f a(1) w] show ?thesis by blast
qed

text \<open>C39: A failure before anything is migrated deletes the database.  The \<open>cleanup\<close> block of
  \<open>auth_bootstrap_from_seed_if_needed\<close> unlinks the database path whatever failed, so when the
  allocation of the path name fails, an existing database is removed.\<close>

theorem bootstrap_failure_removes_database:
  assumes "file_at s db = Some c" and "w_fault s (w_tick s)" and "\<not> w_fault s (Suc (w_tick s))"
  shows "\<exists>t. auth_bootstrap_from_seed_if_needed P (Some db) (Some seed) s = (Inl (), t) \<and> file_at t db = None"
  using assms
  by (simp add: auth_bootstrap_from_seed_if_needed_def auth_make_seed_path_def unlink_def lib_call_def io_def)

theorem bootstrap_failure_removes_database_witness:
  "\<exists>t. auth_bootstrap_from_seed_if_needed sample_platform (Some (ascii ''a.db'')) (Some (ascii ''a.seed''))
       ((sample_env [(ascii ''a.db'', db_text [sample_user])] [])\<lparr>w_fault := (\<lambda>n. n = 0)\<rparr>) = (Inl (), t) \<and>
     file_at t (ascii ''a.db'') = None"
  by (rule bootstrap_failure_removes_database [where c = "db_text [sample_user]"])
     (simp_all add: sample_env_def file_at_def)

end
