(* ===== verification/Storage.thy ===== *)
theory Storage
  imports AuthProps Securechan
begin

text \<open>
  \<^verbatim>\<open>server/storage.c\<close>: the key store.  A user's RSA key pair lives in two files under
  \<^verbatim>\<open>server/res/keystore/<user>\<close>: the public key in the clear and the private key encrypted under
  a key derived from the password.  The 53-byte header of the encrypted file is a magic number,
  a version, a salt, the IV, the tag and the length of the ciphertext.
\<close>

definition PATH_MAX :: nat where "PATH_MAX = 4096"
definition KS_ROOT :: bytes where "KS_ROOT = ascii ''server/res/keystore''"
definition KS_MAGIC :: bytes where "KS_MAGIC = ascii ''DSS1''"
definition KS_VERSION :: byte where "KS_VERSION = 1"
definition KS_PRIV_HDR_LEN :: nat where "KS_PRIV_HDR_LEN = 53"
definition KS_PBKDF2_ITERS :: nat where "KS_PBKDF2_ITERS = 200000"

section \<open>Paths and files\<close>

definition ks_join_path :: "nat \<Rightarrow> bytes \<Rightarrow> bytes \<Rightarrow> bytes option" where
  "ks_join_path out_len a b =
     (let r = a @ [slash] @ b in if length r \<ge> out_len then None else Some r)"

text \<open>The directory of a user, and the paths of the public and of the encrypted private key.\<close>

definition ks_build_user_paths :: "bytes \<Rightarrow> (bytes \<times> bytes \<times> bytes) option" where
  "ks_build_user_paths username =
     (if username = [] \<or> slash \<in> set username then None
      else case ks_join_path PATH_MAX KS_ROOT username of
        None \<Rightarrow> None
      | Some user_dir \<Rightarrow>
          (case ks_join_path PATH_MAX user_dir (ascii ''public.pem'') of
             None \<Rightarrow> None
           | Some pub_path \<Rightarrow>
               (case ks_join_path PATH_MAX user_dir (ascii ''private.enc'') of
                  None \<Rightarrow> None
                | Some enc_path \<Rightarrow> Some (user_dir, pub_path, enc_path))))"

definition ks_ensure_dir :: "bytes \<Rightarrow> ('r env_scheme, unit, unit) io" where
  "ks_ensure_dir path = bind_io (try_io (mkdir path))
     (\<lambda>r. case r of Inr _ \<Rightarrow> ret () | Inl e \<Rightarrow> if e = EEXIST then ret () else raise ())"

definition ks_file_exists :: "bytes \<Rightarrow> ('r env_scheme, unit, bool) io" where
  "ks_file_exists path = get_io (\<lambda>s. path_exists s path)"

text \<open>\<open>fopen\<close>, then \<open>fseek\<close>, \<open>ftell\<close>, \<open>fseek\<close>, \<open>malloc\<close>, \<open>fread\<close> and \<open>fclose\<close>.\<close>

definition ks_read_all :: "bytes \<Rightarrow> ('r env_scheme, unit, bytes) io" where
  "ks_read_all path = bind_io (open_read () path) (\<lambda>buf. then_io (lib_calls 6 ()) (ret buf))"

definition ks_write_all :: "bytes \<Rightarrow> bytes \<Rightarrow> ('r env_scheme, unit, unit) io" where
  "ks_write_all path buf = then_io (open_write () path)
     (then_io (if 0 < length buf
               then on_error (file_write () path buf) (try_io (file_close () path))
               else ret ())
       (file_close () path))"

section \<open>Keys\<close>

definition ks_pbkdf2_key ::
  "'p platform_scheme \<Rightarrow> bytes \<Rightarrow> bytes \<Rightarrow> ('r env_scheme, unit, bytes) io" where
  "ks_pbkdf2_key P password salt = then_io (lib_call ())
     (ret (pbkdf2 P (cstr password) salt KS_PBKDF2_ITERS 32))"

definition ks_generate_rsa_key :: "'p platform_scheme \<Rightarrow> ('r env_scheme, unit, bytes) io" where
  "ks_generate_rsa_key P = then_io (lib_calls 3 ())
     (bind_io (rand_bytes () 32) (\<lambda>seed. ret (rsa_keygen P seed)))"

definition ks_derive_login_session_key ::
  "'p platform_scheme \<Rightarrow> bytes \<Rightarrow> bytes \<Rightarrow> ('r env_scheme, unit, bytes) io" where
  "ks_derive_login_session_key P username password =
     (let salt = ascii ''dss-session:'' @ username in
      if length salt \<ge> 256 then raise ()
      else then_io (lib_call ())
        (ret (pbkdf2 P (cstr password) salt KS_PBKDF2_ITERS 32)))"

section \<open>The encrypted private key\<close>

text \<open>
  The length of the ciphertext is passed to \<open>EVP_DecryptUpdate\<close> as an \<open>int\<close>; above \<open>INT_MAX\<close> it
  is negative there, which OpenSSL rejects (likewise when encrypting).
\<close>

definition ks_decrypt_private_blob_with_key ::
  "'p platform_scheme \<Rightarrow> bytes \<Rightarrow> bytes \<Rightarrow> ('r env_scheme, unit, bytes) io" where
  "ks_decrypt_private_blob_with_key P blob key =
     (if length blob < KS_PRIV_HDR_LEN then raise ()
      else if take 4 blob \<noteq> KS_MAGIC then raise ()
      else let iv = take 12 (drop 21 blob);
               tag = take 16 (drop 33 blob);
               ct_len = u32_of (blob ! 49) (blob ! 50) (blob ! 51) (blob ! 52)
      in if length blob \<noteq> KS_PRIV_HDR_LEN + unat ct_len then raise ()
         else let ct = drop KS_PRIV_HDR_LEN blob in
         then_io (lib_calls 5 ())
         (if unat ct_len > INT_MAX then raise ()
          else then_io (lib_calls 2 ())
            (case gcm_decrypt P key iv [] ct tag of None \<Rightarrow> raise () | Some plain \<Rightarrow> ret plain)))"

definition ks_encrypt_private_pem_with_key ::
  "'p platform_scheme \<Rightarrow> bytes \<Rightarrow> bytes \<Rightarrow> ('r env_scheme, unit, bytes) io" where
  "ks_encrypt_private_pem_with_key P plain key =
     (if length plain > 4294967295 then raise ()
      else bind_io (rand_bytes () 16) (\<lambda>salt.
      bind_io (rand_bytes () 12) (\<lambda>iv.
      then_io (lib_calls 5 ())
      (if length plain > INT_MAX then raise ()
       else then_io (lib_calls 3 ())
         (case gcm_encrypt P key iv [] plain of (ct, tag) \<Rightarrow>
            let ct_len = of_nat (length ct) :: 32 word in
            ret (KS_MAGIC @ [2] @ salt @ iv @ tag @
                 [ucast (drop_bit 24 ct_len AND 255), ucast (drop_bit 16 ct_len AND 255),
                  ucast (drop_bit 8 ct_len AND 255), ucast (ct_len AND 255)] @ ct))))))"

section \<open>The operations\<close>

text \<open>
  The session key of a login.  A key file of version 1 was encrypted under a key derived with
  the salt stored in it; in every other case the salt is computed from the user's name.
\<close>

definition ks_derive_session_key ::
  "'p platform_scheme \<Rightarrow> bytes \<Rightarrow> bytes \<Rightarrow> ('r env_scheme, unit, bytes) io" where
  "ks_derive_session_key P username password =
     bind_io (ks_derive_login_session_key P username password) (\<lambda>key.
     bind_io (from_option () (ks_build_user_paths username)) (\<lambda>(user_dir, pub_path, enc_path).
     bind_io (try_io (ks_read_all enc_path)) (\<lambda>r.
     case r of
       Inl _ \<Rightarrow> ret key
     | Inr blob \<Rightarrow>
         if length blob \<ge> KS_PRIV_HDR_LEN \<and> take 4 blob = KS_MAGIC \<and> blob ! 4 = KS_VERSION
         then ks_pbkdf2_key P password (take 16 (drop 5 blob))
         else ret key)))"

text \<open>
  Key generation after the checks; the \<open>cleanup\<close> block removes both files on a failure.
\<close>

definition ks_create_key_files ::
  "'p platform_scheme \<Rightarrow> bytes \<Rightarrow> bytes \<Rightarrow> bytes \<Rightarrow> ('r env_scheme, unit, unit) io" where
  "ks_create_key_files P pub_path enc_path user_wrap_key =
     on_error
       (bind_io (ks_generate_rsa_key P) (\<lambda>pkey.
        then_io (open_write () pub_path)
        (then_io (on_error (file_write () pub_path (pem_of_public P pkey))
                           (try_io (file_close () pub_path)))
        (then_io (file_close () pub_path)
        (then_io (lib_calls 2 ())
        (let priv_pem = pem_of_private P pkey in
         if length priv_pem = 0 then raise ()
         else then_io (lib_call ())
           (bind_io (ks_encrypt_private_pem_with_key P priv_pem user_wrap_key) (\<lambda>enc_blob.
            ks_write_all enc_path enc_blob))))))))
       (then_io (try_io (unlink () pub_path)) (unlink () enc_path))"

definition ks_create_keys_session ::
  "'p platform_scheme \<Rightarrow> bytes \<Rightarrow> bytes \<Rightarrow> ('r auth_env_scheme, unit, unit) io" where
  "ks_create_keys_session P username user_wrap_key =
     bind_io (auth_get_deleted username) (\<lambda>deleted.
     if deleted \<noteq> 0 then raise ()
     else bind_io (from_option () (ks_build_user_paths username)) (\<lambda>(user_dir, pub_path, enc_path).
     bind_io (ks_file_exists pub_path) (\<lambda>pub_there.
     bind_io (ks_file_exists enc_path) (\<lambda>enc_there.
     if pub_there \<and> enc_there then ret ()
     else then_io (ks_ensure_dir (ascii ''server/res''))
       (then_io (ks_ensure_dir KS_ROOT)
       (then_io (ks_ensure_dir user_dir)
         (ks_create_key_files P pub_path enc_path user_wrap_key)))))))"

definition ks_get_public :: "bytes \<Rightarrow> ('r env_scheme, unit, bytes) io" where
  "ks_get_public username =
     bind_io (from_option () (ks_build_user_paths username)) (\<lambda>(user_dir, pub_path, enc_path).
     ks_read_all pub_path)"

text \<open>The PSS salt is as long as the digest, 32 bytes.\<close>

definition ks_sign_doc_session ::
  "'p platform_scheme \<Rightarrow> bytes \<Rightarrow> bytes \<Rightarrow> bytes \<Rightarrow> ('r auth_env_scheme, unit, bytes) io" where
  "ks_sign_doc_session P username user_wrap_key doc =
     bind_io (auth_get_deleted username) (\<lambda>deleted.
     if deleted \<noteq> 0 then raise ()
     else bind_io (from_option () (ks_build_user_paths username)) (\<lambda>(user_dir, pub_path, enc_path).
     bind_io (ks_read_all enc_path) (\<lambda>enc_blob.
     bind_io (ks_decrypt_private_blob_with_key P enc_blob user_wrap_key) (\<lambda>priv_pem.
     then_io (lib_call ())
     (bind_io (from_option () (pem_private P priv_pem)) (\<lambda>pkey.
      then_io (lib_calls 7 ())
      (bind_io (rand_bytes () 32) (\<lambda>salt. ret (pss_sign P pkey salt doc)))))))))"

definition ks_create_keys ::
  "'p platform_scheme \<Rightarrow> bytes \<Rightarrow> bytes \<Rightarrow> ('r auth_env_scheme, unit, unit) io" where
  "ks_create_keys P username password =
     bind_io (auth_get_deleted username) (\<lambda>deleted.
     if deleted \<noteq> 0 then raise ()
     else bind_io (ks_derive_session_key P username password) (\<lambda>session_key.
     ks_create_keys_session P username session_key))"

definition ks_sign_doc ::
  "'p platform_scheme \<Rightarrow> bytes \<Rightarrow> bytes \<Rightarrow> bytes \<Rightarrow> ('r auth_env_scheme, unit, bytes) io" where
  "ks_sign_doc P username password doc =
     bind_io (auth_get_deleted username) (\<lambda>deleted.
     if deleted \<noteq> 0 then raise ()
     else bind_io (ks_derive_session_key P username password) (\<lambda>session_key.
     ks_sign_doc_session P username session_key doc))"

text \<open>The account is marked deleted before any file is removed.\<close>

definition ks_remove_if_there :: "bytes \<Rightarrow> ('r env_scheme, unit, unit) io" where
  "ks_remove_if_there path =
     bind_io (ks_file_exists path) (\<lambda>there. if there then unlink () path else ret ())"

definition ks_delete_keys :: "bytes \<Rightarrow> ('r auth_env_scheme, unit, unit) io" where
  "ks_delete_keys username =
     bind_io (from_option () (ks_build_user_paths username)) (\<lambda>(user_dir, pub_path, enc_path).
     then_io (auth_set_deleted username 1)
     (then_io (ks_remove_if_there pub_path)
     (then_io (ks_remove_if_there enc_path)
     (bind_io (try_io (rmdir user_dir)) (\<lambda>r.
      case r of
        Inr _ \<Rightarrow> ret ()
      | Inl e \<Rightarrow> if e \<noteq> ENOENT \<and> e \<noteq> ENOTEMPTY then raise () else ret ())))))"

definition ks_reencrypt_private_for_new_session_key ::
  "'p platform_scheme \<Rightarrow> bytes \<Rightarrow> bytes \<Rightarrow> bytes \<Rightarrow> ('r env_scheme, unit, unit) io" where
  "ks_reencrypt_private_for_new_session_key P username old_session_key new_session_key =
     bind_io (from_option () (ks_build_user_paths username)) (\<lambda>(user_dir, pub_path, enc_path).
     bind_io (try_io (ks_read_all enc_path)) (\<lambda>r.
     case r of
       Inl _ \<Rightarrow> ret ()
     | Inr enc_blob \<Rightarrow>
         bind_io (ks_decrypt_private_blob_with_key P enc_blob old_session_key) (\<lambda>priv_pem.
         bind_io (ks_encrypt_private_pem_with_key P priv_pem new_session_key) (\<lambda>new_blob.
         ks_write_all enc_path new_blob))))"

section \<open>What the key store changes\<close>

context file_frame
begin

lemma within_ensure_dir [simp, intro]: "within R (ks_ensure_dir p)"
  unfolding ks_ensure_dir_def by (intro within_bind within_try within_case_sum within_if) auto

lemma within_file_exists [simp, intro]: "within R (ks_file_exists p)"
  unfolding ks_file_exists_def by auto

lemma within_read_all [simp, intro]: "within R (ks_read_all p)"
  unfolding ks_read_all_def by (intro within_bind within_then) auto

lemma within_write_all [simp, intro]: "within R (ks_write_all p b)"
  unfolding ks_write_all_def by (intro within_then within_if within_on_error within_try) auto

lemma within_login_key [simp, intro]: "within R (ks_derive_login_session_key Q name pw)"
  unfolding ks_derive_login_session_key_def Let_def by (intro within_if within_then) auto

lemma within_decrypt_blob [simp, intro]: "within R (ks_decrypt_private_blob_with_key Q b k)"
  unfolding ks_decrypt_private_blob_with_key_def Let_def
  by (intro within_if within_then within_case_option) auto

lemma within_encrypt_pem [simp, intro]: "within R (ks_encrypt_private_pem_with_key Q b k)"
  unfolding ks_encrypt_private_pem_with_key_def Let_def
  by (intro within_if within_bind within_then within_case_prod) auto

lemma within_session_key [simp, intro]: "within R (ks_derive_session_key Q name pw)"
  unfolding ks_derive_session_key_def ks_pbkdf2_key_def
  by (intro within_bind within_case_prod within_try within_case_sum within_if within_then) auto

lemma within_key_files [simp, intro]: "within R (ks_create_key_files Q pub enc k)"
  unfolding ks_create_key_files_def ks_generate_rsa_key_def Let_def
  by (intro within_on_error within_bind within_then within_if within_try) auto

lemma within_get_public [simp, intro]: "within R (ks_get_public name)"
  unfolding ks_get_public_def by (intro within_bind within_case_prod) auto

lemma within_remove [simp, intro]: "within R (ks_remove_if_there p)"
  unfolding ks_remove_if_there_def by (intro within_bind within_if) auto

lemma within_reencrypt [simp, intro]:
  "within R (ks_reencrypt_private_for_new_session_key Q name k k')"
  unfolding ks_reencrypt_private_for_new_session_key_def
  by (intro within_bind within_case_prod within_try within_case_sum) auto

end

context auth_frame
begin

lemma within_create_keys [simp, intro]: "within R (ks_create_keys_session Q name k)"
  unfolding ks_create_keys_session_def
  by (intro within_bind within_case_prod within_if within_then) auto

lemma within_sign_doc [simp, intro]: "within R (ks_sign_doc_session Q name k doc)"
  unfolding ks_sign_doc_session_def
  by (intro within_bind within_case_prod within_if within_then) auto

lemma within_delete_keys [simp, intro]: "within R (ks_delete_keys name)"
  unfolding ks_delete_keys_def
  by (intro within_bind within_case_prod within_then within_try within_case_sum within_if
      frame_tombstone) auto

end

end
