(* ===== verification/Replay.thy ===== *)
theory Replay
  imports World
begin

text \<open>
  \<^verbatim>\<open>common/replay.c\<close>: the cache of recently seen request nonces, a ring of 16-byte slots in one
  flat array.  The ring is shown to implement a bounded queue of the most recently accepted
  nonces (\<open>fifo_add\<close> on \<open>recent\<close>), which gives the window in which a repeated nonce is
  recognised.
\<close>

definition REPLAY_NONCE_LEN :: nat where "REPLAY_NONCE_LEN = 16"
definition REPLAY_DEFAULT_CAPACITY :: nat where "REPLAY_DEFAULT_CAPACITY = 1024"
definition SIZE_MAX :: nat where "SIZE_MAX = 2 ^ 64 - 1"

record replay_cache =
  rc_entries :: "bytes option"
  rc_capacity :: nat
  rc_count :: nat
  rc_next_index :: nat

definition replay_zero :: replay_cache where
  "replay_zero = \<lparr>rc_entries = None, rc_capacity = 0, rc_count = 0, rc_next_index = 0\<rparr>"

text \<open>\<open>alloc\<close> says whether \<open>calloc\<close> returns a block.\<close>

definition replay_init :: "bool \<Rightarrow> replay_cache \<Rightarrow> nat \<Rightarrow> (errno + unit) \<times> replay_cache" where
  "replay_init alloc c capacity0 =
     (let capacity = (if capacity0 = 0 then REPLAY_DEFAULT_CAPACITY else capacity0)
      in if capacity > SIZE_MAX div REPLAY_NONCE_LEN then (Inl EOVERFLOW, c)
         else if \<not> alloc then (Inl ENOMEM, c\<lparr>rc_entries := None\<rparr>)
         else (Inr (), c\<lparr>rc_entries := Some (replicate (capacity * REPLAY_NONCE_LEN) 0),
                         rc_capacity := capacity, rc_count := 0, rc_next_index := 0\<rparr>))"

definition replay_free :: "replay_cache \<Rightarrow> replay_cache" where
  "replay_free c =
     c\<lparr>rc_entries := None, rc_capacity := 0, rc_count := 0, rc_next_index := 0\<rparr>"

text \<open>The slot at an index of the flat array, and overwriting it.\<close>

definition slot :: "bytes \<Rightarrow> nat \<Rightarrow> bytes" where
  "slot e i = take REPLAY_NONCE_LEN (drop (i * REPLAY_NONCE_LEN) e)"

definition set_slot :: "bytes \<Rightarrow> nat \<Rightarrow> bytes \<Rightarrow> bytes" where
  "set_slot e i n = take (i * REPLAY_NONCE_LEN) e @ n @ drop (Suc i * REPLAY_NONCE_LEN) e"

definition replay_check_and_add :: "replay_cache \<Rightarrow> bytes \<Rightarrow> int \<times> replay_cache" where
  "replay_check_and_add c nonce =
     (case rc_entries c of
        None \<Rightarrow> (-1, c)
      | Some e \<Rightarrow>
          if rc_capacity c = 0 then (-1, c)
          else if list_ex (\<lambda>i. slot e i = nonce) [0 ..< rc_count c] then (0, c)
          else (1, c\<lparr>rc_entries := Some (set_slot e (rc_next_index c) nonce),
                     rc_next_index := Suc (rc_next_index c) mod rc_capacity c,
                     rc_count := (if rc_count c < rc_capacity c then Suc (rc_count c)
                                  else rc_count c)\<rparr>))"

section \<open>The ring\<close>

definition replay_inv :: "replay_cache \<Rightarrow> bool" where
  "replay_inv c \<longleftrightarrow>
     (\<exists>e. rc_entries c = Some e \<and> length e = rc_capacity c * REPLAY_NONCE_LEN) \<and>
     0 < rc_capacity c \<and> rc_count c \<le> rc_capacity c \<and> rc_next_index c < rc_capacity c \<and>
     (rc_count c < rc_capacity c \<longrightarrow> rc_next_index c = rc_count c)"

definition slots :: "replay_cache \<Rightarrow> bytes list" where
  "slots c = (case rc_entries c of None \<Rightarrow> [] | Some e \<Rightarrow> map (slot e) [0 ..< rc_count c])"

text \<open>The nonces in the cache, oldest first: the ring read from its write position.\<close>

definition recent :: "replay_cache \<Rightarrow> bytes list" where
  "recent c = drop (rc_next_index c) (slots c) @ take (rc_next_index c) (slots c)"

text \<open>What the cache is for: a queue of the last \<open>cap\<close> accepted nonces.\<close>

definition fifo_add :: "nat \<Rightarrow> bytes list \<Rightarrow> bytes \<Rightarrow> bool \<times> bytes list" where
  "fifo_add cap q x =
     (if x \<in> set q then (False, q)
      else (True, (if length q < cap then q else tl q) @ [x]))"

lemma set_recent [simp]: "set (recent c) = set (slots c)"
proof -
  have "set (recent c) = set (take (rc_next_index c) (slots c) @ drop (rc_next_index c) (slots c))"
    unfolding recent_def by (simp del: append_take_drop_id add: Un_commute)
  then show ?thesis by simp
qed

lemma length_recent [simp]: "length (recent c) = length (slots c)"
  by (simp add: recent_def)

lemma length_slots: "rc_entries c = Some e \<Longrightarrow> length (slots c) = rc_count c"
  by (simp add: slots_def)

lemma length_set_slot:
  "length e = cap * REPLAY_NONCE_LEN \<Longrightarrow> k < cap \<Longrightarrow> length n = REPLAY_NONCE_LEN \<Longrightarrow>
     length (set_slot e k n) = cap * REPLAY_NONCE_LEN"
  by (simp add: set_slot_def REPLAY_NONCE_LEN_def)

lemma slot_set_slot:
  assumes "length e = cap * REPLAY_NONCE_LEN" and "k < cap" and "length n = REPLAY_NONCE_LEN"
  shows "slot (set_slot e k n) i = (if i = k then n else slot e i)"
proof -
  have k: "length (take (k * REPLAY_NONCE_LEN) e) = k * REPLAY_NONCE_LEN"
    using assms by (simp add: REPLAY_NONCE_LEN_def)
  consider "i < k" | "i = k" | "k < i" by linarith
  then show ?thesis
  proof cases
    case 1
    then have "(i + 1) * REPLAY_NONCE_LEN \<le> k * REPLAY_NONCE_LEN" by (intro mult_le_mono1) simp
    with 1 k show ?thesis
      by (simp add: slot_def set_slot_def REPLAY_NONCE_LEN_def take_drop min_absorb1 min_absorb2)
  next
    case 2
    with k assms(3) show ?thesis by (simp add: slot_def set_slot_def REPLAY_NONCE_LEN_def)
  next
    case 3
    then obtain d where "i = k + 1 + d" by (metis add.commute less_iff_Suc_add plus_1_eq_Suc add.assoc)
    with k assms(3) show ?thesis
      by (simp add: slot_def set_slot_def REPLAY_NONCE_LEN_def ac_simps)
  qed
qed

lemma slots_after_write:
  assumes inv: "replay_inv c" and n: "length n = REPLAY_NONCE_LEN"
    and e: "rc_entries c = Some e" and cnt: "m \<le> rc_capacity c"
  shows "map (slot (set_slot e (rc_next_index c) n)) [0..<m] =
    (map (slot e) [0..<m])[rc_next_index c := n]"
proof (rule nth_equalityI)
  have w: "length e = rc_capacity c * REPLAY_NONCE_LEN" "rc_next_index c < rc_capacity c"
    using inv e by (auto simp: replay_inv_def)
  fix i assume "i < length (map (slot (set_slot e (rc_next_index c) n)) [0..<m])"
  then show "map (slot (set_slot e (rc_next_index c) n)) [0..<m] ! i =
      (map (slot e) [0..<m])[rc_next_index c := n] ! i"
    by (simp add: slot_set_slot [OF w n] nth_list_update)
qed simp

lemma replay_inv_init: "replay_init True c k = (Inr (), c') \<Longrightarrow> replay_inv c'"
  by (auto simp: replay_init_def replay_inv_def REPLAY_DEFAULT_CAPACITY_def Let_def split: if_splits)

lemma recent_init: "replay_init True c k = (Inr (), c') \<Longrightarrow> recent c' = []"
  by (auto simp: replay_init_def recent_def slots_def Let_def split: if_splits)

lemma seen_iff: "replay_inv c \<Longrightarrow> rc_entries c = Some e \<Longrightarrow>
    list_ex (\<lambda>i. slot e i = nonce) [0 ..< rc_count c] \<longleftrightarrow> nonce \<in> set (recent c)"
  by (auto simp: slots_def list_ex_iff)

lemma replay_add_fresh:
  assumes inv: "replay_inv c" and n: "length n = REPLAY_NONCE_LEN"
    and fresh: "n \<notin> set (recent c)"
  shows "\<exists>c'. replay_check_and_add c n = (1, c') \<and> replay_inv c' \<and>
    rc_capacity c' = rc_capacity c \<and>
    recent c' = (if length (recent c) < rc_capacity c then recent c else tl (recent c)) @ [n]"
proof -
  obtain e where e: "rc_entries c = Some e" "length e = rc_capacity c * REPLAY_NONCE_LEN"
    using inv by (auto simp: replay_inv_def)
  let ?k = "rc_next_index c" and ?cap = "rc_capacity c"
  define c' where "c' = c\<lparr>rc_entries := Some (set_slot e ?k n),
     rc_next_index := Suc ?k mod ?cap,
     rc_count := (if rc_count c < ?cap then Suc (rc_count c) else rc_count c)\<rparr>"
  have k: "?k < ?cap" "0 < ?cap" "rc_count c \<le> ?cap" using inv by (auto simp: replay_inv_def)
  have run: "replay_check_and_add c n = (1, c')"
    using inv e fresh k by (simp add: replay_check_and_add_def c'_def seen_iff)
  have inv': "replay_inv c'"
    using inv e n k
    by (auto simp: replay_inv_def c'_def length_set_slot mod_Suc split: if_splits)
  have len: "length (slots c) = rc_count c" using e by (simp add: length_slots)
  have "recent c' = (if length (recent c) < ?cap then recent c else tl (recent c)) @ [n]"
  proof (cases "rc_count c < ?cap")
    case True
    then have kc: "?k = rc_count c" using inv by (auto simp: replay_inv_def)
    have "slots c' = (map (slot e) [0..<Suc (rc_count c)])[?k := n]"
      using slots_after_write [OF inv n e(1), of "Suc (rc_count c)"] True
      by (simp add: slots_def c'_def)
    also have "\<dots> = slots c @ [n]"
      using e by (simp add: slots_def kc list_update_append)
    finally have s: "slots c' = slots c @ [n]" .
    show ?thesis
    proof (cases "Suc ?k = ?cap")
      case True
      with s kc len e show ?thesis by (simp add: recent_def c'_def)
    next
      case False
      with k have "Suc ?k < ?cap" by simp
      with s kc len True show ?thesis by (simp add: recent_def c'_def)
    qed
  next
    case False
    with k have full: "rc_count c = ?cap" by simp
    have s: "slots c' = (slots c)[?k := n]"
      using slots_after_write [OF inv n e(1), of "rc_count c"] full e
      by (simp add: slots_def c'_def)
    have u: "(slots c)[?k := n] = take ?k (slots c) @ n # drop (Suc ?k) (slots c)"
      using k len full by (simp add: upd_conv_take_nth_drop)
    have r: "tl (recent c) = drop (Suc ?k) (slots c) @ take ?k (slots c)"
      using k len full by (simp add: recent_def drop_Suc tl_drop Cons_nth_drop_Suc [symmetric])
    show ?thesis
    proof (cases "Suc ?k = ?cap")
      case True
      then have "rc_next_index c' = 0" by (simp add: c'_def)
      then have "recent c' = slots c'" by (simp add: recent_def)
      with True s u r len full show ?thesis by simp
    next
      case False
      with k have "Suc ?k < ?cap" by simp
      then have "rc_next_index c' = Suc ?k" by (simp add: c'_def)
      then have "recent c' = drop (Suc ?k) (slots c') @ take (Suc ?k) (slots c')"
        by (simp add: recent_def)
      with s u r len full k show ?thesis by simp
    qed
  qed
  with run inv' show ?thesis by (auto simp: c'_def)
qed

lemma replay_add_seen:
  "replay_inv c \<Longrightarrow> n \<in> set (recent c) \<Longrightarrow> replay_check_and_add c n = (0, c)"
  using seen_iff [of c _ n] by (auto simp: replay_check_and_add_def replay_inv_def simp del: set_recent)

lemma replay_step:
  assumes "replay_inv c" and "length n = REPLAY_NONCE_LEN"
  obtains r c' where "replay_check_and_add c n = (r, c')" and "r = 0 \<or> r = 1"
    and "replay_inv c'" and "rc_capacity c' = rc_capacity c"
    and "fifo_add (rc_capacity c) (recent c) n = (r = 1, recent c')"
  using replay_add_fresh [OF assms] replay_add_seen [OF assms(1), of n] assms(1)
  by (cases "n \<in> set (recent c)") (auto simp: fifo_add_def)

text \<open>Checking a sequence of nonces.\<close>

fun replay_run :: "replay_cache \<Rightarrow> bytes list \<Rightarrow> replay_cache" where
  "replay_run c [] = c"
| "replay_run c (n # ns) = replay_run (snd (replay_check_and_add c n)) ns"

lemma replay_run_inv:
  "replay_inv c \<Longrightarrow> \<forall>n \<in> set ns. length n = REPLAY_NONCE_LEN \<Longrightarrow>
     replay_inv (replay_run c ns) \<and> rc_capacity (replay_run c ns) = rc_capacity c"
proof (induction ns arbitrary: c)
  case Nil
  then show ?case by simp
next
  case (Cons n ns)
  from Cons.prems have n: "length n = REPLAY_NONCE_LEN" by simp
  from Cons.prems(1) n show ?case
    by (rule replay_step) (use Cons in auto)
qed

lemma recent_kept:
  assumes "replay_inv c" and "\<forall>n \<in> set ns. length n = REPLAY_NONCE_LEN"
    and "recent c = a @ x # b" and "length b + length ns < rc_capacity c"
  shows "x \<in> set (recent (replay_run c ns))"
  using assms
proof (induction ns arbitrary: c a b)
  case Nil
  then show ?case by (simp del: set_recent)
next
  case (Cons n ns)
  from Cons.prems have n: "length n = REPLAY_NONCE_LEN" by simp
  show ?case
  proof (cases "n \<in> set (recent c)")
    case True
    with Cons.prems replay_add_seen [of c n] Cons.IH [of c a b] show ?thesis by simp
  next
    case False
    from replay_add_fresh [OF Cons.prems(1) n False] obtain c' where
      c': "replay_check_and_add c n = (1, c')" "replay_inv c'" "rc_capacity c' = rc_capacity c"
      "recent c' = (if length (recent c) < rc_capacity c then recent c else tl (recent c)) @ [n]"
      by blast
    obtain a' where "recent c' = a' @ x # (b @ [n])"
    proof (cases "length (recent c) < rc_capacity c")
      case True
      with c' Cons.prems that show ?thesis by simp
    next
      case False
      with Cons.prems(3,4) have "a \<noteq> []" by (cases a) auto
      with False c' Cons.prems(3) that [of "tl a"] show ?thesis by simp
    qed
    from Cons.IH [OF c'(2) _ this] c' Cons.prems show ?thesis by simp
  qed
qed

lemma replay_window:
  assumes inv: "replay_inv c" and x: "length x = REPLAY_NONCE_LEN"
    and acc: "replay_check_and_add c x = (1, c')"
    and ns: "\<forall>n \<in> set ns. length n = REPLAY_NONCE_LEN" "length ns < rc_capacity c"
  shows "fst (replay_check_and_add (replay_run c' ns) x) = 0"
proof -
  have fresh: "x \<notin> set (recent c)"
    using acc replay_add_seen [OF inv, of x] by auto
  from replay_add_fresh [OF inv x fresh] acc obtain a where
    c': "replay_inv c'" "rc_capacity c' = rc_capacity c" "recent c' = a @ [x]"
    by auto
  have "x \<in> set (recent (replay_run c' ns))"
    by (rule recent_kept [of _ _ a x "[]"]) (use c' ns in auto)
  moreover have "replay_inv (replay_run c' ns)"
    using replay_run_inv [OF c'(1) ns(1)] by simp
  ultimately show ?thesis by (simp add: replay_add_seen)
qed

text \<open>Once as many other nonces have been accepted as the ring has slots, it has forgotten.\<close>

lemma replay_run_fresh:
  assumes "replay_inv c" and "\<forall>n \<in> set ns. length n = REPLAY_NONCE_LEN"
    and "distinct ns" and "set ns \<inter> set (recent c) = {}"
    and "length ns \<le> rc_capacity c"
  shows "\<exists>q. recent (replay_run c ns) = q @ ns \<and> set q \<subseteq> set (recent c) \<and>
           length q + length ns \<le> rc_capacity c"
  using assms
proof (induction ns rule: rev_induct)
  case Nil
  have "rc_count c \<le> rc_capacity c" using Nil by (simp add: replay_inv_def)
  moreover obtain e where "rc_entries c = Some e" using Nil by (auto simp: replay_inv_def)
  ultimately have "length (recent c) \<le> rc_capacity c" by (simp add: length_slots)
  then show ?case by simp
next
  case (snoc n ns)
  have app: "replay_run c (ns @ [n]) = snd (replay_check_and_add (replay_run c ns) n)" for c
    by (induction ns arbitrary: c) auto
  from snoc obtain q where q: "recent (replay_run c ns) = q @ ns"
    "set q \<subseteq> set (recent c)" "length q + length ns \<le> rc_capacity c" by auto
  have inv: "replay_inv (replay_run c ns)" "rc_capacity (replay_run c ns) = rc_capacity c"
    using replay_run_inv [OF snoc.prems(1), of ns] snoc.prems by auto
  have "n \<notin> set (recent (replay_run c ns))" using q snoc.prems by auto
  from replay_add_fresh [OF inv(1) _ this] snoc.prems inv(2) q(1)
  have r: "recent (replay_run c (ns @ [n])) =
      (if length (q @ ns) < rc_capacity c then q @ ns else tl (q @ ns)) @ [n]"
    by (auto simp: app)
  show ?case
  proof (cases "length (q @ ns) < rc_capacity c")
    case True
    with r q show ?thesis by auto
  next
    case False
    with snoc.prems q(3) have "q \<noteq> []" by auto
    then obtain y q' where "q = y # q'" by (cases q) auto
    with r q False show ?thesis by auto
  qed
qed

section \<open>Properties\<close>

text \<open>C21: The ring buffer implements a bounded queue.  On every well-formed cache
  \<open>replay_check_and_add\<close> reports a nonce as new exactly when it is not among the recent ones, and
  then makes it the most recent, dropping the oldest only when the cache is full.\<close>

theorem replay_refines_fifo:
  assumes "replay_inv c" and "length n = REPLAY_NONCE_LEN"
  shows "\<exists>r c'. replay_check_and_add c n = (r, c') \<and> (r = 0 \<or> r = 1) \<and> replay_inv c' \<and>
    rc_capacity c' = rc_capacity c \<and>
    fifo_add (rc_capacity c) (recent c) n = (r = 1, recent c')"
  using assms by (rule replay_step) blast

theorem replay_refines_fifo_witness:
  "\<exists>r c'. replay_check_and_add (snd (replay_init True replay_zero 2)) (replicate 16 7) = (r, c') \<and>
    (r = 0 \<or> r = 1) \<and> replay_inv c' \<and> rc_capacity c' = 2 \<and>
    fifo_add 2 [] (replicate 16 7) = (r = 1, recent c')"
proof -
  obtain c where c: "replay_init True replay_zero 2 = (Inr (), c)" "rc_capacity c = 2"
    by (simp add: replay_init_def SIZE_MAX_def REPLAY_NONCE_LEN_def Let_def)
  from replay_refines_fifo [OF replay_inv_init [OF c(1)], of "replicate 16 7"] c recent_init [OF c(1)]
  show ?thesis by (simp add: REPLAY_NONCE_LEN_def)
qed

text \<open>The replay window.  A nonce that has been accepted is recognised as a repetition for at
  least as many further requests as the cache has slots, less one.\<close>

theorem replay_window_length:
  assumes "replay_inv c" and "length x = REPLAY_NONCE_LEN"
    and "replay_check_and_add c x = (1, c')"
    and "\<forall>n \<in> set ns. length n = REPLAY_NONCE_LEN" and "length ns < rc_capacity c"
  shows "fst (replay_check_and_add (replay_run c' ns) x) = 0"
  using assms by (rule replay_window)

theorem replay_window_length_witness:
  "\<exists>c c' x. replay_inv c \<and> replay_check_and_add c x = (1, c') \<and>
     fst (replay_check_and_add (replay_run c' [replicate 16 9, replicate 16 8]) x) = 0"
proof -
  obtain c where c: "replay_init True replay_zero 3 = (Inr (), c)" "rc_capacity c = 3"
    by (simp add: replay_init_def SIZE_MAX_def REPLAY_NONCE_LEN_def Let_def)
  note inv = replay_inv_init [OF c(1)]
  have x: "length (replicate 16 7 :: bytes) = REPLAY_NONCE_LEN" by (simp add: REPLAY_NONCE_LEN_def)
  from replay_add_fresh [OF inv x] recent_init [OF c(1)] obtain c' where
    a: "replay_check_and_add c (replicate 16 7) = (1, c')" by auto
  have ns: "\<forall>n \<in> set [replicate 16 9, replicate 16 8 :: bytes]. length n = REPLAY_NONCE_LEN"
    by (simp add: REPLAY_NONCE_LEN_def)
  from replay_window_length [OF inv x a ns] inv a c(2) show ?thesis by auto
qed

text \<open>The window is no longer than that: after as many different new nonces as the cache has
  slots, the oldest is forgotten and accepted again.\<close>

theorem replay_window_forgets:
  assumes "replay_inv c" and "\<forall>n \<in> set ns. length n = REPLAY_NONCE_LEN" and "distinct ns"
    and "set ns \<inter> set (recent c) = {}" and "length ns = rc_capacity c"
    and "length x = REPLAY_NONCE_LEN" and "x \<notin> set ns"
  shows "fst (replay_check_and_add (replay_run c ns) x) = 1"
proof -
  from replay_run_fresh [OF assms(1-4)] assms(5) have "recent (replay_run c ns) = ns" by auto
  with replay_run_inv [OF assms(1,2)] replay_add_fresh [of "replay_run c ns" x] assms(6,7)
  show ?thesis by auto
qed

theorem replay_window_forgets_witness:
  "\<exists>c. replay_inv c \<and> fst (replay_check_and_add c (replicate 16 7)) = 0 \<and>
     fst (replay_check_and_add (replay_run c [replicate 16 9, replicate 16 8]) (replicate 16 7)) = 1"
proof -
  obtain c where c: "replay_init True replay_zero 2 = (Inr (), c)" "rc_capacity c = 2"
    by (simp add: replay_init_def SIZE_MAX_def REPLAY_NONCE_LEN_def Let_def)
  note inv = replay_inv_init [OF c(1)]
  have x: "length (replicate 16 7 :: bytes) = REPLAY_NONCE_LEN" by (simp add: REPLAY_NONCE_LEN_def)
  from replay_add_fresh [OF inv x] recent_init [OF c(1)] obtain c' where
    a: "replay_inv c'" "rc_capacity c' = 2" "recent c' = [replicate 16 7]" using c(2) by auto
  have ne: "replicate 16 7 \<noteq> (replicate 16 9 :: bytes)" "replicate 16 7 \<noteq> (replicate 16 8 :: bytes)"
    "replicate 16 9 \<noteq> (replicate 16 8 :: bytes)" by (simp_all add: numeral_eq_Suc)
  have "fst (replay_check_and_add (replay_run c' [replicate 16 9, replicate 16 8]) (replicate 16 7)) = 1"
    by (rule replay_window_forgets [OF a(1)]) (use a x ne in \<open>auto simp: REPLAY_NONCE_LEN_def simp del: set_recent\<close>)
  moreover have "replay_check_and_add c' (replicate 16 7) = (0, c')"
    by (rule replay_add_seen [OF a(1)]) (simp add: a(3) del: set_recent)
  ultimately show ?thesis using a(1) by auto
qed

end
