(* ===== verification/Server.thy ===== *)
theory Server
  imports Storage Handshake Replay Tcp
begin

text \<open>
  \<^verbatim>\<open>server/main.c\<close>: the session kept for the connected client, one operation per opcode, the
  checks in front of them, and the loop that receives, decrypts, executes and answers requests.
  An operation that ends with an error status is a raise of that status, and one that ends
  with \<open>ST_OK\<close> returns the response data.
\<close>

record session_state =
  ss_is_authenticated :: int
  ss_username :: bytes
  ss_must_change :: int
  ss_deleted :: int
  ss_key :: bytes
  ss_has_key :: int

record server_env = auth_env +
  sv_session :: session_state
  sv_cache :: replay_cache

definition session_clear :: session_state where
  "session_clear = \<lparr>ss_is_authenticated = 0, ss_username = [], ss_must_change = 0,
     ss_deleted = 0, ss_key = replicate 32 0, ss_has_key = 0\<rparr>"

definition set_session :: "(session_state \<Rightarrow> session_state) \<Rightarrow> ('r server_env_scheme, 'e, unit) io" where
  "set_session f = put_io (\<lambda>s. s\<lparr>sv_session := f (sv_session s)\<rparr>)"

section \<open>Responses\<close>

definition sizeof_response_header :: nat where "sizeof_response_header = 6"

definition response_header_image :: "'p platform_scheme \<Rightarrow> 16 word \<Rightarrow> 32 word \<Rightarrow> bytes" where
  "response_header_image P status data_len = store16 P status @ store32 P data_len"

definition send_encrypted_response ::
  "'p platform_scheme \<Rightarrow> int \<Rightarrow> bytes \<Rightarrow> byte \<Rightarrow> bytes \<Rightarrow> dss_status \<Rightarrow> bytes \<Rightarrow>
   ('r env_scheme, unit, unit) io" where
  "send_encrypted_response P fd key_out opcode req_nonce status data =
     (if length data > 65535 then raise ()
      else let pt_len = 1 + sizeof_response_header + length data;
               payload_len = GCM_IV_LEN + GCM_TAG_LEN + pt_len
      in if payload_len > UINT32_MAX then raise ()
      else let out_hdr = \<lparr>hdr_req_nonce = req_nonce, hdr_payload_len = htonl P (of_nat payload_len)\<rparr>;
               aad = dsspacket_build_aad out_hdr;
               pt = opcode # response_header_image P (htons P (status_val status))
                      (htonl P (of_nat (length data))) @ data
      in then_io (lib_calls 2 ())
        (bind_io (rand_bytes () GCM_IV_LEN) (\<lambda>iv.
         bind_io (sc_aead_encrypt P key_out iv aad pt) (\<lambda>(ct, tag).
         or_raise () (dsspacket_send P fd out_hdr (Some (iv @ tag @ ct)))))))"

section \<open>The operations\<close>

text \<open>
  When no session key can be derived at a login, the buffer of the key keeps whatever
  \<open>ks_derive_session_key\<close> left there; nothing reads it while \<open>has_key\<close> is 0, and here it stays zero.
\<close>

definition op_auth ::
  "'p platform_scheme \<Rightarrow> bytes \<Rightarrow> ('r server_env_scheme, dss_status, bytes) io" where
  "op_auth P pt =
     (if length pt < 3 then raise ST_ERR_BAD_REQ
      else let ulen = unat (pt ! 1) in
      if length pt < 1 + 1 + ulen + 1 then raise ST_ERR_BAD_REQ
      else let plen = unat (pt ! (1 + 1 + ulen)) in
      if length pt \<noteq> 1 + 2 + ulen + plen \<or> ulen = 0 \<or> plen = 0 then raise ST_ERR_BAD_REQ
      else let user = cstr (take ulen (drop 2 pt));
               pw = cstr (take plen (drop (3 + ulen) pt))
      in bind_io (or_raise ST_ERR_AUTH (auth_verify_password P user pw)) (\<lambda>(must_change, deleted).
      then_io (set_session (\<lambda>_. session_clear\<lparr>ss_is_authenticated := 1, ss_must_change := must_change,
                                  ss_deleted := deleted, ss_username := user\<rparr>))
      (bind_io (try_io (ks_derive_session_key P user pw)) (\<lambda>r.
      then_io (case r of
                 Inl _ \<Rightarrow> ret ()
               | Inr key \<Rightarrow> set_session (\<lambda>ss. ss\<lparr>ss_key := key, ss_has_key := 1\<rparr>))
      (then_io (lib_call ST_ERR_INTERNAL)
        (ret [word_of_int must_change, word_of_int deleted]))))))"

definition op_change_password ::
  "'p platform_scheme \<Rightarrow> bytes \<Rightarrow> ('r server_env_scheme, dss_status, bytes) io" where
  "op_change_password P pt =
     bind_io (get_io sv_session) (\<lambda>ss.
     if ss_is_authenticated ss \<noteq> 1 \<or> ss_has_key ss \<noteq> 1 then raise ST_ERR_AUTH
     else if ss_deleted ss = 1 then raise ST_ERR_DELETED
     else if length pt < 2 then raise ST_ERR_BAD_REQ
     else let nlen = unat (pt ! 1) in
     if length pt \<noteq> 1 + 1 + nlen \<or> nlen = 0 then raise ST_ERR_BAD_REQ
     else let new_pw = cstr (take nlen (drop 2 pt)) in
     bind_io (or_raise ST_ERR_INTERNAL (ks_derive_session_key P (ss_username ss) new_pw)) (\<lambda>new_key.
     then_io (or_raise ST_ERR_INTERNAL
       (ks_reencrypt_private_for_new_session_key P (ss_username ss) (ss_key ss) new_key))
     (then_io (or_raise ST_ERR_INTERNAL (auth_change_password_authenticated P (ss_username ss) new_pw))
     (then_io (set_session (\<lambda>ss. ss\<lparr>ss_key := new_key, ss_must_change := 0\<rparr>))
       (ret [])))))"

definition op_create_keys ::
  "'p platform_scheme \<Rightarrow> ('r server_env_scheme, dss_status, bytes) io" where
  "op_create_keys P =
     bind_io (get_io sv_session) (\<lambda>ss.
     if ss_is_authenticated ss \<noteq> 1 \<or> ss_has_key ss \<noteq> 1 then raise ST_ERR_AUTH
     else if ss_deleted ss \<noteq> 0 then raise ST_ERR_DELETED
     else bind_io (or_raise ST_ERR_INTERNAL (auth_get_deleted (ss_username ss))) (\<lambda>deleted.
     if deleted \<noteq> 0
     then then_io (set_session (\<lambda>ss. ss\<lparr>ss_deleted := 1\<rparr>)) (raise ST_ERR_DELETED)
     else then_io (or_raise ST_ERR_INTERNAL (ks_create_keys_session P (ss_username ss) (ss_key ss)))
       (ret [])))"

definition op_sign_doc ::
  "'p platform_scheme \<Rightarrow> bytes \<Rightarrow> ('r server_env_scheme, dss_status, bytes) io" where
  "op_sign_doc P pt =
     bind_io (get_io sv_session) (\<lambda>ss.
     if ss_is_authenticated ss \<noteq> 1 \<or> ss_has_key ss \<noteq> 1 then raise ST_ERR_AUTH
     else if ss_deleted ss = 1 then raise ST_ERR_DELETED
     else if length pt - 1 > 65535 then raise ST_ERR_BAD_REQ
     else or_raise ST_ERR_INTERNAL
       (ks_sign_doc_session P (ss_username ss) (ss_key ss) (drop 1 pt)))"

definition op_get_public_key ::
  "'p platform_scheme \<Rightarrow> bytes \<Rightarrow> ('r server_env_scheme, dss_status, bytes) io" where
  "op_get_public_key P pt =
     bind_io (get_io sv_session) (\<lambda>ss.
     bind_io
       (if length pt = 1
        then if ss_is_authenticated ss = 0 then raise ST_ERR_AUTH else ret (ss_username ss)
        else let ulen = unat (pt ! 1) in
          if length pt \<noteq> 1 + 1 + ulen \<or> ulen = 0 then raise ST_ERR_BAD_REQ
          else ret (cstr (take ulen (drop 2 pt))))
       (\<lambda>target_user. or_raise ST_ERR_NOT_FOUND (ks_get_public target_user)))"

definition op_delete_keys :: "('r server_env_scheme, dss_status, bytes) io" where
  "op_delete_keys =
     bind_io (get_io sv_session) (\<lambda>ss.
     if ss_is_authenticated ss \<noteq> 1 \<or> ss_has_key ss \<noteq> 1 then raise ST_ERR_AUTH
     else if ss_deleted ss = 1 then raise ST_ERR_DELETED
     else then_io (or_raise ST_ERR_INTERNAL (ks_delete_keys (ss_username ss)))
       (then_io (set_session (\<lambda>ss. ss\<lparr>ss_deleted := 1\<rparr>)) (ret [])))"

definition op_logout :: "('r server_env_scheme, dss_status, bytes) io" where
  "op_logout = then_io (set_session (\<lambda>_. session_clear)) (ret [])"

text \<open>The checks in front of the operations, in their order.\<close>

definition server_handle ::
  "'p platform_scheme \<Rightarrow> bytes \<Rightarrow> ('r server_env_scheme, dss_status, bytes) io" where
  "server_handle P pt =
     bind_io (get_io sv_session) (\<lambda>ss.
     let in_opcode = pt ! 0 in
     if in_opcode \<noteq> opcode_val OP_AUTH \<and> in_opcode \<noteq> opcode_val OP_GET_PUBLIC_KEY \<and>
        ss_is_authenticated ss = 0 then raise ST_ERR_AUTH
     else if ss_is_authenticated ss = 1 \<and> ss_deleted ss = 1 \<and>
        in_opcode \<noteq> opcode_val OP_AUTH \<and> in_opcode \<noteq> opcode_val OP_GET_PUBLIC_KEY \<and>
        in_opcode \<noteq> opcode_val OP_LOGOUT then raise ST_ERR_DELETED
     else if in_opcode = opcode_val OP_AUTH then op_auth P pt
     else if ss_must_change ss = 1 \<and> in_opcode \<noteq> opcode_val OP_CHANGE_PASSWORD \<and>
        in_opcode \<noteq> opcode_val OP_AUTH \<and> in_opcode \<noteq> opcode_val OP_LOGOUT then raise ST_ERR_AUTH
     else case opcode_of in_opcode of
        Some OP_CHANGE_PASSWORD \<Rightarrow> op_change_password P pt
      | Some OP_CREATE_KEYS \<Rightarrow> op_create_keys P
      | Some OP_SIGN_DOC \<Rightarrow> op_sign_doc P pt
      | Some OP_GET_PUBLIC_KEY \<Rightarrow> op_get_public_key P pt
      | Some OP_DELETE_KEYS \<Rightarrow> op_delete_keys
      | Some OP_LOGOUT \<Rightarrow> op_logout
      | _ \<Rightarrow> raise ST_ERR_BAD_REQ)"

section \<open>The request loop\<close>

text \<open>
  Receiving a request: the nonce of its header and the decrypted text.  GCM plaintexts are as
  long as their ciphertexts, so the length of the text is the \<open>ct_len\<close> of the source.
\<close>

definition server_check_replay :: "bytes \<Rightarrow> ('r server_env_scheme, unit, int) io" where
  "server_check_replay nonce = (\<lambda>s. case replay_check_and_add (sv_cache s) nonce of
     (r, c) \<Rightarrow> (Inr r, s\<lparr>sv_cache := c\<rparr>))"

definition server_receive ::
  "'p platform_scheme \<Rightarrow> int \<Rightarrow> bytes \<Rightarrow> ('r server_env_scheme, unit, bytes \<times> bytes) io" where
  "server_receive P fd key_in =
     bind_io (or_raise () (dsspacket_recv P fd)) (\<lambda>(in_hdr, payload).
     bind_io (server_check_replay (hdr_req_nonce in_hdr)) (\<lambda>r.
     if r < 0 then raise ()
     else let payload_len = unat (ntohl P (hdr_payload_len in_hdr)) in
     if payload_len < GCM_IV_LEN + GCM_TAG_LEN then raise ()
     else let aad = dsspacket_build_aad in_hdr;
              iv = take GCM_IV_LEN (the payload);
              tag = take GCM_TAG_LEN (drop GCM_IV_LEN (the payload));
              ct = drop (GCM_IV_LEN + GCM_TAG_LEN) (the payload)
     in then_io (if 0 < length ct then lib_call () else ret ())
       (bind_io (sc_aead_decrypt P key_in iv aad ct tag) (\<lambda>pt.
        if length ct < 1 then raise () else ret (hdr_req_nonce in_hdr, pt)))))"

definition server_answer ::
  "'p platform_scheme \<Rightarrow> bytes \<Rightarrow> ('r server_env_scheme, unit, dss_status \<times> bytes) io" where
  "server_answer P pt = bind_io (try_io (server_handle P pt))
     (\<lambda>r. case r of Inl status \<Rightarrow> ret (status, []) | Inr data \<Rightarrow> ret (ST_OK, data))"

text \<open>One iteration: \<open>Inl\<close> leaves the loop, \<open>Inr\<close> is the opcode and the status answered.\<close>

definition server_step ::
  "'p platform_scheme \<Rightarrow> int \<Rightarrow> bytes \<Rightarrow> bytes \<Rightarrow> ('r server_env_scheme, unit, byte \<times> dss_status) io" where
  "server_step P fd key_in key_out =
     bind_io (server_receive P fd key_in) (\<lambda>(nonce, pt).
     bind_io (server_answer P pt) (\<lambda>(status, data).
     then_io (send_encrypted_response P fd key_out (pt ! 0) nonce status data)
       (ret (pt ! 0, status))))"

section \<open>What a request may change\<close>

locale server_frame = auth_frame R P
    for R :: "'r server_env_scheme \<Rightarrow> 'r server_env_scheme \<Rightarrow> bool" and P :: "'p platform_scheme" +
  assumes frame_session: "R s (s\<lparr>sv_session := x\<rparr>)"
begin

lemma within_set_session [simp, intro]: "within R (set_session f)"
  unfolding set_session_def by (rule within_put) (rule frame_session)

lemma within_op_auth: "within R (op_auth P pt)"
  unfolding op_auth_def Let_def
  by (intro within_if within_raise within_bind within_or_raise within_case_prod within_then
      within_try within_case_sum) auto

lemma within_op_change_password: "within R (op_change_password P pt)"
  unfolding op_change_password_def Let_def
  by (intro within_bind within_if within_raise within_then within_or_raise) auto

lemma within_op_create_keys: "within R (op_create_keys P)"
  unfolding op_create_keys_def
  by (intro within_bind within_if within_raise within_then within_or_raise) auto

lemma within_op_sign_doc: "within R (op_sign_doc P pt)"
  unfolding op_sign_doc_def by (intro within_bind within_if within_raise within_or_raise) auto

lemma within_op_get_public_key: "within R (op_get_public_key P pt)"
  unfolding op_get_public_key_def Let_def
  by (intro within_bind within_if within_raise within_or_raise) auto

lemma within_op_delete_keys: "within R op_delete_keys"
  unfolding op_delete_keys_def
  by (intro within_bind within_if within_raise within_then within_or_raise) auto

lemma within_op_logout: "within R op_logout"
  unfolding op_logout_def by (intro within_then) auto

lemmas within_ops = within_op_auth within_op_change_password within_op_create_keys
  within_op_sign_doc within_op_get_public_key within_op_delete_keys within_op_logout

lemma within_handle [simp, intro]: "within R (server_handle P pt)"
proof -
  have "within R (case opcode_of b of
        Some OP_CHANGE_PASSWORD \<Rightarrow> op_change_password P pt
      | Some OP_CREATE_KEYS \<Rightarrow> op_create_keys P
      | Some OP_SIGN_DOC \<Rightarrow> op_sign_doc P pt
      | Some OP_GET_PUBLIC_KEY \<Rightarrow> op_get_public_key P pt
      | Some OP_DELETE_KEYS \<Rightarrow> op_delete_keys
      | Some OP_LOGOUT \<Rightarrow> op_logout
      | _ \<Rightarrow> raise ST_ERR_BAD_REQ)" for b
    by (auto simp: within_ops split: option.split dss_opcode.split)
  then show ?thesis
    unfolding server_handle_def Let_def
    by (intro within_bind within_if within_raise within_get within_op_auth)
qed

lemma within_answer [simp, intro]: "within R (server_answer P pt)"
  unfolding server_answer_def by (intro within_bind within_try within_case_sum) auto

end

interpretation srv_net: server_frame
  "\<lambda>s t. (w_rx s, w_plan s, w_tx s) = (w_rx t, w_plan t, w_tx t)" P for P
  by unfold_locales simp

interpretation srv_oracle: server_frame "\<lambda>s t. w_fault s = w_fault t" P for P
  by unfold_locales simp

interpretation srv_cache: server_frame "\<lambda>s t. sv_cache s = sv_cache t" P for P
  by unfold_locales (auto simp: auth_update_user_def intro!: auth_set_deleted_within)

interpretation srv_keeps: server_frame "\<lambda>s t. pbkdf2_spec P \<and> auth_inv s \<longrightarrow> auth_inv t" P for P
  by unfold_locales (simp add: auth_inv_def)

interpretation srv_tombs: server_frame tomb_le P for P
  by unfold_locales simp

context env_frame
begin

lemma within_send_response:
  assumes 1: "\<And>s p. R s (s\<lparr>w_rpos := p\<rparr>)" and 2: "\<And>s es b. R s (s\<lparr>w_plan := es, w_tx := b\<rparr>)"
  shows "within R (send_encrypted_response P fd key opc nonce st d)"
proof -
  have 3: "R s (s\<lparr>w_tick := k, w_rpos := p\<rparr>)" for s k p
    by (rule frame_trans [OF frame_tick 1])
  show ?thesis
    unfolding send_encrypted_response_def Let_def
    by (intro within_if within_then within_bind within_raise within_or_raise within_case_prod
        within_lib_calls within_sc_encrypt rand_bytes_within 3 dsspacket_send_within 2)
qed

lemma within_receive:
  assumes 1: "\<And>s es. R s (s\<lparr>w_rx := es\<rparr>)"
  shows "within R (or_raise () (dsspacket_recv P fd) :: ('r env_scheme, unit, dss_header \<times> bytes option) io)"
proof -
  have "R s (s\<lparr>w_tick := k, w_rx := es\<rparr>)" for s k es by (rule frame_trans [OF frame_tick 1])
  then show ?thesis by (intro within_or_raise dsspacket_recv_within)
qed

end

interpretation frame_rx: env_frame "\<lambda>s t. w_rx s = w_rx t"
  by unfold_locales auto

section \<open>The loop\<close>

text \<open>Every request that is answered has taken its length prefix and header from the socket.\<close>

lemma server_receive_Inr:
  assumes "server_receive P fd key_in s = (Inr (nonce, pt), t)"
  shows "\<exists>h p u r c k. dsspacket_recv P fd s = (Inr (h, Some p), u) \<and> nonce = hdr_req_nonce h \<and>
    replay_check_and_add (sv_cache u) nonce = (r, c) \<and> 0 \<le> r \<and>
    t = u\<lparr>sv_cache := c, w_tick := k\<rparr> \<and> GCM_IV_LEN + GCM_TAG_LEN < length p \<and>
    gcm_decrypt P key_in (take GCM_IV_LEN p) (dsspacket_build_aad h)
      (drop (GCM_IV_LEN + GCM_TAG_LEN) p) (take GCM_TAG_LEN (drop GCM_IV_LEN p)) = Some pt"
proof -
  from assms obtain h q u r c v where
    d: "dsspacket_recv P fd s = (Inr (h, q), u)" and
    c: "replay_check_and_add (sv_cache u) (hdr_req_nonce h) = (r, c)" "0 \<le> r" and
    n: "GCM_IV_LEN + GCM_TAG_LEN \<le> unat (ntohl P (hdr_payload_len h))" and
    v: "(if 0 < length (drop (GCM_IV_LEN + GCM_TAG_LEN) (the q)) then lib_call () else ret ())
         (u\<lparr>sv_cache := c\<rparr>) = (Inr (), v)" and
    g: "sc_aead_decrypt P key_in (take GCM_IV_LEN (the q)) (dsspacket_build_aad h)
       (drop (GCM_IV_LEN + GCM_TAG_LEN) (the q)) (take GCM_TAG_LEN (drop GCM_IV_LEN (the q))) v =
       (Inr pt, t)" and
    l: "1 \<le> length (drop (GCM_IV_LEN + GCM_TAG_LEN) (the q))" and nonce: "nonce = hdr_req_nonce h"
    by (auto simp: server_receive_def server_check_replay_def io_inv Let_def not_less
        split: if_splits prod.splits)
  have "0 \<le> fd" using d by (auto simp: dsspacket_recv_def io_inv split: if_splits)
  then have ok: "packet_ok P (h, q)" using dsspacket_recv_sound [of P "nat fd"] d by fastforce
  have "unat (ntohl P (hdr_payload_len h)) \<noteq> 0"
    using n by (simp add: GCM_IV_LEN_def GCM_TAG_LEN_def)
  with ok obtain p where q: "q = Some p" by (auto simp: packet_ok_def split: option.splits)
  from l v have "v = u\<lparr>sv_cache := c, w_tick := Suc (w_tick u)\<rparr>"
    by (auto simp: q split: if_splits dest!: lib_call_run)
  with sc_aead_decrypt_Inr [OF g] have "\<exists>k. t = u\<lparr>sv_cache := c, w_tick := k\<rparr>" by auto
  with sc_aead_decrypt_Inr [OF g] d c l nonce show ?thesis
    by (auto simp: q)
qed

lemma server_receive_consumes:
  assumes "server_receive P fd key_in s = (Inr x, t)"
  shows "rx_size (w_rx t) + 24 \<le> rx_size (w_rx s)"
proof -
  obtain nonce pt where "x = (nonce, pt)" by fastforce
  with server_receive_Inr assms obtain h p u c k where
    d: "dsspacket_recv P fd s = (Inr (h, Some p), u)" and t: "t = u\<lparr>sv_cache := c, w_tick := k\<rparr>"
    by blast
  have "0 \<le> fd" using d by (auto simp: dsspacket_recv_def io_inv split: if_splits)
  then show ?thesis using dsspacket_recv_consumes [of P "nat fd" s] d t by simp
qed

lemma server_step_consumes24:
  assumes "server_step P fd key_in key_out s = (Inr x, t)"
  shows "rx_size (w_rx t) + 24 \<le> rx_size (w_rx s)"
proof -
  from assms obtain y u z v r where
    u: "server_receive P fd key_in s = (Inr y, u)" and
    v: "server_answer P (snd y) u = (Inr z, v)" and
    r: "send_encrypted_response P fd key_out (snd y ! 0) (fst y) (fst z) (snd z) v = (Inr r, t)"
    by (auto simp: server_step_def io_inv split: prod.splits)
  have "w_rx v = w_rx u"
    using withinD [OF srv_net.within_answer v] by simp
  moreover have "w_rx t = w_rx v"
    using withinD [OF frame_rx.within_send_response r] by simp
  ultimately show ?thesis using server_receive_consumes [OF u] by simp
qed

lemma server_step_consumes:
  "server_step P fd key_in key_out s = (Inr x, t) \<Longrightarrow> rx_size (w_rx t) < rx_size (w_rx s)"
  using server_step_consumes24 by fastforce

function server_loop ::
  "'p platform_scheme \<Rightarrow> int \<Rightarrow> bytes \<Rightarrow> bytes \<Rightarrow> 'r server_env_scheme \<Rightarrow>
   (byte \<times> dss_status) list \<times> 'r server_env_scheme" where
  "server_loop P fd key_in key_out s =
     (case server_step P fd key_in key_out s of
        (Inl _, t) \<Rightarrow> ([], t)
      | (Inr answered, t) \<Rightarrow>
          (case server_loop P fd key_in key_out t of (log, u) \<Rightarrow> (answered # log, u)))"
  by pat_completeness auto
termination
  by (relation "measure (\<lambda>(P, fd, key_in, key_out, s). rx_size (w_rx s))")
     (auto dest: server_step_consumes [OF sym])

declare server_loop.simps [simp del]

section \<open>The connection and the program\<close>

definition server_handshake ::
  "'p platform_scheme \<Rightarrow> int \<Rightarrow> ('r env_scheme, unit, bytes \<times> bytes) io" where
  "server_handshake P client_fd =
     bind_io (hs_recv_chlo P client_fd) (\<lambda>client_pub.
     bind_io (hs_gen_ecdh_keypair P) (\<lambda>(server_pub, server_ecdh_priv).
     if length client_pub > SIZE_MAX - length server_pub then raise ()
     else then_io (lib_call ())
     (let transcript = client_pub @ server_pub in
      bind_io (hs_sign_transcript P (ascii ''server/res/keys/server_private.pem'') transcript) (\<lambda>sig.
      then_io (hs_send_shlo P client_fd server_pub sig)
      (bind_io (hs_compute_shared P server_ecdh_priv client_pub) (\<lambda>shared_secret.
       hs_derive_keys P shared_secret transcript))))))"

definition server_replay_init :: "('r server_env_scheme, unit, unit) io" where
  "server_replay_init = (\<lambda>s.
     case replay_init (\<not> w_fault s (w_tick s)) (sv_cache s) 0 of
       (r, c) \<Rightarrow> ((case r of Inl _ \<Rightarrow> Inl () | Inr _ \<Rightarrow> Inr ()),
                   s\<lparr>sv_cache := c, w_tick := Suc (w_tick s)\<rparr>))"

text \<open>Everything from the handshake to the \<open>cleanup\<close> block, for one connected client.\<close>

definition server_serve ::
  "'p platform_scheme \<Rightarrow> int \<Rightarrow> 'r server_env_scheme \<Rightarrow>
   (byte \<times> dss_status) list \<times> 'r server_env_scheme" where
  "server_serve P client_fd s =
     (let (log, t) =
        (case server_handshake P client_fd s of
           (Inl _, t) \<Rightarrow> ([], t)
         | (Inr (c2s_key, s2c_key), t) \<Rightarrow>
             (case server_replay_init t of
                (Inl _, u) \<Rightarrow> ([], u)
              | (Inr _, u) \<Rightarrow> server_loop P client_fd c2s_key s2c_key u))
      in (log, t\<lparr>sv_session := session_clear, sv_cache := replay_free (sv_cache t)\<rparr>))"

definition SERVER_DB :: bytes where "SERVER_DB = ascii ''server/res/users.db''"
definition SERVER_SEED :: bytes where "SERVER_SEED = ascii ''server/res/users.seed''"

definition server_init_db :: "'p platform_scheme \<Rightarrow> ('r server_env_scheme, unit, unit) io" where
  "server_init_db P = then_io (auth_bootstrap_from_seed_if_needed P (Some SERVER_DB) (Some SERVER_SEED))
     (auth_load_db P (Some SERVER_DB))"

text \<open>
  \<open>main\<close>: the exit code, the answered requests, the open descriptors and the state at the end,
  or \<open>None\<close> while it waits in \<open>accept\<close>.
\<close>

definition server_main ::
  "'p platform_scheme \<Rightarrow> gai_result \<Rightarrow> (errno + int) list \<Rightarrow> 'r server_env_scheme \<Rightarrow>
   (int \<times> (byte \<times> dss_status) list \<times> int list \<times> 'r server_env_scheme) option" where
  "server_main P gai accepts s0 =
     (let s = s0\<lparr>sv_session := session_clear, sv_cache := replay_zero\<rparr> in
      case server_init_db P s of
        (Inl _, t) \<Rightarrow> Some (1, [], [], t)
      | (Inr _, t) \<Rightarrow>
          (case tcp_listen gai [] of
             (Inl _, fds) \<Rightarrow> Some (1, [], fds, t)
           | (Inr listen_fd, fds) \<Rightarrow>
               (case tcp_accept listen_fd accepts of
                  None \<Rightarrow> None
                | Some (Inl _) \<Rightarrow> Some (1, [], close_fd listen_fd fds, t)
                | Some (Inr client_fd) \<Rightarrow>
                    (case server_serve P client_fd t of
                       (log, u) \<Rightarrow>
                         Some (0, log, close_fd listen_fd (close_fd client_fd (client_fd # fds)), u)))))"

end
