(* ===== verification/KeyStore.thy ===== *)
theory KeyStore
  imports Storage
begin

text \<open>
  What the operations of the key store achieve: the layout of an encrypted key, which operation
  writes which file, and how creating, signing, changing the wrapping key and deleting fit
  together.
\<close>

section \<open>Paths\<close>

definition key_dir :: "bytes \<Rightarrow> bytes" where "key_dir name = KS_ROOT @ [slash] @ name"
definition pub_file :: "bytes \<Rightarrow> bytes" where "pub_file name = key_dir name @ [slash] @ ascii ''public.pem''"
definition enc_file :: "bytes \<Rightarrow> bytes" where "enc_file name = key_dir name @ [slash] @ ascii ''private.enc''"

definition name_ok :: "bytes \<Rightarrow> bool" where
  "name_ok name \<longleftrightarrow> name \<noteq> [] \<and> slash \<notin> set name \<and> length (enc_file name) < PATH_MAX"

lemma ks_build_user_paths_eq:
  "ks_build_user_paths name =
     (if name_ok name then Some (key_dir name, pub_file name, enc_file name) else None)"
  by (auto simp: ks_build_user_paths_def ks_join_path_def name_ok_def key_dir_def pub_file_def
      enc_file_def Let_def)

text \<open>Two users never share a file, and the two files of a user differ.\<close>

lemma key_files_distinct:
  assumes "slash \<notin> set a" and "slash \<notin> set b"
  shows "pub_file a = pub_file b \<longleftrightarrow> a = b" and "enc_file a = enc_file b \<longleftrightarrow> a = b"
    and "pub_file a \<noteq> enc_file b"
proof -
  have tw: "takeWhile (\<lambda>c. c \<noteq> slash) (x @ slash # r) = x" if "slash \<notin> set x" for x r :: bytes
    using that by (induction x) auto
  have u: "x = y \<and> r = q" if "x @ slash # r = y @ slash # q" "slash \<notin> set x" "slash \<notin> set y"
    for x y r q :: bytes
  proof -
    from tw [OF that(2), of r] tw [OF that(3), of q] that(1) have "x = y" by metis
    with that(1) show ?thesis by simp
  qed
  show "pub_file a = pub_file b \<longleftrightarrow> a = b" "enc_file a = enc_file b \<longleftrightarrow> a = b"
    by (auto simp: pub_file_def enc_file_def key_dir_def)
  show "pub_file a \<noteq> enc_file b"
  proof
    assume "pub_file a = enc_file b"
    then have "a @ slash # ascii ''public.pem'' = b @ slash # ascii ''private.enc''"
      by (simp add: pub_file_def enc_file_def key_dir_def)
    from u [OF this assms] have "length (ascii ''public.pem'') = length (ascii ''private.enc'')" by simp
    then show False by simp
  qed
qed

section \<open>Reading and writing files\<close>

lemma open_read_run:
  "open_read e p s = (r, t) \<Longrightarrow> (\<exists>k. t = s\<lparr>w_tick := k\<rparr>) \<and> (\<forall>b. r = Inr b \<longrightarrow> file_at s p = Some b)"
  by (auto simp: open_read_def lib_call_def io_def split: if_splits option.splits)

lemma open_read_calm:
  "calm s \<Longrightarrow> open_read e p s =
     ((case file_at s p of None \<Rightarrow> Inl e | Some b \<Rightarrow> Inr b), s\<lparr>w_tick := Suc (w_tick s)\<rparr>)"
  by (simp add: open_read_def io_def split: option.split)

lemma ks_read_all_run:
  "ks_read_all p s = (r, t) \<Longrightarrow> (\<exists>k. t = s\<lparr>w_tick := k\<rparr>) \<and> (\<forall>b. r = Inr b \<longrightarrow> file_at s p = Some b)"
  by (cases r) (auto simp: ks_read_all_def io_inv simp del: lib_calls.simps
      dest!: open_read_run lib_calls_run)

lemma ks_read_all_calm:
  "calm s \<Longrightarrow> \<exists>k. ks_read_all p s =
     ((case file_at s p of None \<Rightarrow> Inl () | Some b \<Rightarrow> Inr b), s\<lparr>w_tick := k\<rparr>)"
  by (auto simp: ks_read_all_def open_read_calm io_def simp del: lib_calls.simps split: option.split)

lemma file_write_Inr:
  "file_write e p d s = (Inr u, t) \<Longrightarrow> file_at s p = Some c \<Longrightarrow> file_at t p = Some (c @ d)"
  by (auto simp: file_write_def Let_def split: if_splits)

text \<open>Programs that change no file but one, and none of the table of accounts.\<close>

definition only_file :: "bytes \<Rightarrow> 'r env_scheme \<Rightarrow> 'r env_scheme \<Rightarrow> bool" where
  "only_file p s t \<longleftrightarrow> (\<forall>q. q \<noteq> p \<longrightarrow> file_at t q = file_at s q)"

interpretation only_file: env_frame "only_file p" for p
  by unfold_locales (auto simp: only_file_def)

lemma only_file_prims [simp]: "only_file p s (s\<lparr>w_tick := k\<rparr>)"
  "only_file p s (set_file p c (s\<lparr>w_tick := k\<rparr>))" "only_file p s (del_file p (s\<lparr>w_tick := k\<rparr>))"
  "only_file p s (s\<lparr>w_tick := k, w_rpos := i\<rparr>)" "only_file p s (s\<lparr>w_tick := k, w_dirs := d\<rparr>)"
  by (simp_all add: only_file_def)

lemma ks_write_all_only: "within (only_file p) (ks_write_all p b)"
  unfolding ks_write_all_def
  by (intro only_file.within_then only_file.within_if only_file.within_on_error
      only_file.within_try only_file.within_ret prims only_file_prims)

lemma ks_write_all_Inr:
  assumes "ks_write_all p b s = (Inr u, t)"
  shows "file_at t p = Some b"
proof -
  from assms obtain s1 s2 where o: "open_write () p s = (Inr (), s1)" and
    w: "(if 0 < length b then file_write () p b s1 = (Inr (), s2) else s2 = s1)" and
    c: "file_close () p s2 = (Inr u, t)"
    by (auto simp: ks_write_all_def io_inv split: if_splits)
  have "file_at s1 p = Some []" using open_write_Inr [OF o] by auto
  with w have "file_at s2 p = Some b" by (auto split: if_splits dest: file_write_Inr)
  with file_close_Inr [OF c] show ?thesis by auto
qed

lemma ks_write_all_calm:
  assumes "calm s" and "p \<notin> set (w_dirs s)"
  shows "\<exists>t. ks_write_all p b s = (Inr (), t)"
  using assms
  by (simp add: ks_write_all_def open_write_def file_write_def file_close_def io_def Let_def
      calm_def set_file_def lib_call_def)

section \<open>The encrypted private key\<close>

definition key_blob ::
  "'p platform_scheme \<Rightarrow> byte \<Rightarrow> bytes \<Rightarrow> bytes \<Rightarrow> bytes \<Rightarrow> bytes \<Rightarrow> bytes" where
  "key_blob P version key salt iv plain =
     (case gcm_encrypt P key iv [] plain of
        (ct, tag) \<Rightarrow> KS_MAGIC @ [version] @ salt @ iv @ tag @ be32 (of_nat (length ct)) @ ct)"

lemma ks_encrypt_Inr:
  assumes "ks_encrypt_private_pem_with_key P plain key s = (Inr blob, t)"
  shows "\<exists>salt iv k i. length salt = 16 \<and> length iv = 12 \<and> blob = key_blob P 2 key salt iv plain \<and>
    length plain \<le> INT_MAX \<and> t = s\<lparr>w_tick := k, w_rpos := i\<rparr>"
proof -
  from assms obtain salt iv s1 s2 s3 where
    r: "rand_bytes () 16 s = (Inr salt, s1)" "rand_bytes () 12 s1 = (Inr iv, s2)"
    and l: "lib_calls 5 () s2 = (Inr (), s3)" "lib_calls 3 () s3 = (Inr (), t)"
    and n: "length plain \<le> INT_MAX" and b: "blob = key_blob P 2 key salt iv plain"
    by (auto simp: ks_encrypt_private_pem_with_key_def key_blob_def be32_def io_inv Let_def
        simp del: lib_calls.simps split: if_splits prod.splits)
  obtain k1 i1 where "s1 = s\<lparr>w_tick := k1, w_rpos := i1\<rparr>" using rand_bytes_run [OF r(1)] by blast
  moreover obtain k2 i2 where "s2 = s1\<lparr>w_tick := k2, w_rpos := i2\<rparr>" using rand_bytes_run [OF r(2)] by blast
  moreover obtain k3 where "s3 = s2\<lparr>w_tick := k3\<rparr>" using lib_calls_run [OF l(1)] by blast
  moreover obtain k4 where "t = s3\<lparr>w_tick := k4\<rparr>" using lib_calls_run [OF l(2)] by blast
  ultimately have "t = s\<lparr>w_tick := k4, w_rpos := i2\<rparr>" by simp
  with r n b show ?thesis by (blast dest: rand_bytes_length)
qed

lemma ks_encrypt_calm:
  assumes "calm s" and "length plain \<le> INT_MAX"
  shows "\<exists>blob t. ks_encrypt_private_pem_with_key P plain key s = (Inr blob, t) \<and> calm t"
  using assms
  by (simp add: ks_encrypt_private_pem_with_key_def rand_bytes_calm io_def INT_MAX_def Let_def
      del: lib_calls.simps split: prod.split)

lemma key_blob_parts:
  assumes "gcm_spec P" and "length salt = 16" and "length iv = 12" and "length plain \<le> INT_MAX"
    and "gcm_encrypt P key iv [] plain = (ct, tag)" and b: "b = key_blob P v key salt iv plain"
  shows "take 4 b = KS_MAGIC" and "b ! 4 = v" and "take 16 (drop 5 b) = salt"
    and "take 12 (drop 21 b) = iv" and "take 16 (drop 33 b) = tag" and "drop 53 b = ct"
    and "u32_of (b ! 49) (b ! 50) (b ! 51) (b ! 52) = of_nat (length ct)"
    and "length b = 53 + length ct" and "length ct \<le> INT_MAX"
proof -
  note g = gcm_specD [OF assms(1,5)]
  have t16: "length tag = 16" using g(2) by (simp add: GCM_TAG_LEN_def)
  show "take 4 b = KS_MAGIC" "b ! 4 = v" "take 16 (drop 5 b) = salt" "take 12 (drop 21 b) = iv"
    "take 16 (drop 33 b) = tag" "drop 53 b = ct" "length b = 53 + length ct"
    using assms t16 by (simp_all add: key_blob_def KS_MAGIC_def nth_append)
  have len: "take 4 (drop 49 b) = be32 (of_nat (length ct))"
    using assms t16 by (simp add: key_blob_def KS_MAGIC_def)
  have "take 4 (drop 49 b) = [b ! 49, b ! 50, b ! 51, b ! 52]"
    using assms t16 g(1)
    by (simp add: key_blob_def KS_MAGIC_def be32_def nth_append)
  with len have "de32 [b ! 49, b ! 50, b ! 51, b ! 52] = of_nat (length ct)"
    by (metis de32_be32)
  then show "u32_of (b ! 49) (b ! 50) (b ! 51) (b ! 52) = of_nat (length ct)" by simp
  show "length ct \<le> INT_MAX" using g(1) assms(4) by simp
qed

text \<open>What a blob contains for the holder of a key.\<close>

definition unwrap :: "'p platform_scheme \<Rightarrow> bytes \<Rightarrow> bytes \<Rightarrow> bytes option" where
  "unwrap P blob key =
     (let ct_len = unat (u32_of (blob ! 49) (blob ! 50) (blob ! 51) (blob ! 52)) in
      if 53 \<le> length blob \<and> take 4 blob = KS_MAGIC \<and> length blob = 53 + ct_len \<and> ct_len \<le> INT_MAX
      then gcm_decrypt P key (take 12 (drop 21 blob)) [] (drop 53 blob) (take 16 (drop 33 blob))
      else None)"

lemma ks_decrypt_Inr:
  assumes "ks_decrypt_private_blob_with_key P blob key s = (Inr plain, t)"
  shows "unwrap P blob key = Some plain \<and> (\<exists>k. t = s\<lparr>w_tick := k\<rparr>)"
  using assms
  by (auto simp: ks_decrypt_private_blob_with_key_def KS_PRIV_HDR_LEN_def unwrap_def io_inv Let_def
      not_less simp del: lib_calls.simps split: if_splits option.splits dest!: lib_calls_run)

lemma ks_decrypt_calm:
  assumes "calm s"
  shows "\<exists>k. ks_decrypt_private_blob_with_key P blob key s =
    ((case unwrap P blob key of None \<Rightarrow> Inl () | Some plain \<Rightarrow> Inr plain), s\<lparr>w_tick := k\<rparr>)"
proof -
  define n where "n = unat (u32_of (blob ! 49) (blob ! 50) (blob ! 51) (blob ! 52))"
  show ?thesis
  proof (cases "53 \<le> length blob \<and> take 4 blob = KS_MAGIC \<and> length blob = 53 + n")
    case False
    then have "ks_decrypt_private_blob_with_key P blob key s = (Inl (), s)" "unwrap P blob key = None"
      by (auto simp: ks_decrypt_private_blob_with_key_def KS_PRIV_HDR_LEN_def unwrap_def n_def Let_def raise_run)
    then show ?thesis by (intro exI [of _ "w_tick s"]) simp
  next
    case True
    note n = True[unfolded n_def]
    have "ks_decrypt_private_blob_with_key P blob key s = then_io (lib_calls 5 ())
         (if n > INT_MAX then raise ()
          else then_io (lib_calls 2 ())
            (case gcm_decrypt P key (take 12 (drop 21 blob)) [] (drop 53 blob) (take 16 (drop 33 blob)) of
               None \<Rightarrow> raise () | Some plain \<Rightarrow> ret plain)) s"
      using n by (simp add: ks_decrypt_private_blob_with_key_def KS_PRIV_HDR_LEN_def n_def Let_def)
    moreover have "unwrap P blob key = (if n \<le> INT_MAX
        then gcm_decrypt P key (take 12 (drop 21 blob)) [] (drop 53 blob) (take 16 (drop 33 blob)) else None)"
      using n by (simp add: unwrap_def n_def Let_def)
    ultimately show ?thesis
      using assms by (simp add: io_def not_less del: lib_calls.simps split: option.split)
  qed
qed

lemma unwrap_key_blob:
  assumes "gcm_spec P" and "length salt = 16" and "length iv = 12" and "length plain \<le> INT_MAX"
  shows "unwrap P (key_blob P v key salt iv plain) key = Some plain"
proof -
  obtain ct tag where e: "gcm_encrypt P key iv [] plain = (ct, tag)" by fastforce
  note p = key_blob_parts [OF assms e refl [of "key_blob P v key salt iv plain"]]
  have "unat (of_nat (length ct) :: 32 word) = length ct"
    using p(9) by (simp add: unat_of_nat_32 INT_MAX_def)
  moreover have "gcm_decrypt P key iv [] ct tag = Some plain" using gcm_specD(3) [OF assms(1) e] .
  ultimately show ?thesis using p by (simp add: unwrap_def)
qed

section \<open>Creating keys and signing\<close>

text \<open>What a PEM reader does with what a PEM writer wrote, and the size of a PEM file.\<close>

definition pem_spec :: "'p platform_scheme \<Rightarrow> bool" where
  "pem_spec P \<longleftrightarrow> (\<forall>k. pem_private P (pem_of_private P k) = Some k)"

text \<open>The key pair of a user on disk, encrypted under a key.\<close>

definition holds_key :: "'p platform_scheme \<Rightarrow> 'r env_scheme \<Rightarrow> bytes \<Rightarrow> bytes \<Rightarrow> bytes \<Rightarrow> bool" where
  "holds_key P s name key pkey \<longleftrightarrow> (\<exists>salt iv. length salt = 16 \<and> length iv = 12 \<and>
     length (pem_of_private P pkey) \<le> INT_MAX \<and>
     file_at s (enc_file name) = Some (key_blob P 2 key salt iv (pem_of_private P pkey)))"

interpretation faults: file_frame "\<lambda>s t. w_fault s = w_fault t"
  by unfold_locales auto

lemma calm_within: "within (\<lambda>s t. w_fault s = w_fault t) m \<Longrightarrow> m s = (r, t) \<Longrightarrow> calm s \<Longrightarrow> calm t"
  unfolding within_def calm_def by (metis snd_conv)

lemma ks_create_key_files_Inr:
  assumes run: "ks_create_key_files P pub enc key s = (Inr u, t)" and d: "pub \<noteq> enc"
  shows "\<exists>seed salt iv. length seed = 32 \<and> length salt = 16 \<and> length iv = 12 \<and>
    length (pem_of_private P (rsa_keygen P seed)) \<le> INT_MAX \<and>
    file_at t pub = Some (pem_of_public P (rsa_keygen P seed)) \<and>
    file_at t enc = Some (key_blob P 2 key salt iv (pem_of_private P (rsa_keygen P seed)))"
proof -
  from run obtain seed s1 s2 s3 s4 s5 blob where
    seed: "length seed = 32" and
    o: "open_write () pub s1 = (Inr (), s2)" and
    w: "file_write () pub (pem_of_public P (rsa_keygen P seed)) s2 = (Inr (), s3)" and
    c: "file_close () pub s3 = (Inr (), s4)" and
    b: "\<exists>v k. v = s4\<lparr>w_tick := k\<rparr> \<and>
      ks_encrypt_private_pem_with_key P (pem_of_private P (rsa_keygen P seed)) key v = (Inr blob, s5)" and
    e: "ks_write_all enc blob s5 = (Inr u, t)"
    by (auto simp: ks_create_key_files_def ks_generate_rsa_key_def io_inv Let_def
        simp del: lib_calls.simps split: if_splits dest!: lib_calls_run lib_call_run rand_bytes_length)
       fastforce
  obtain k2 where s2: "s2 = set_file pub [] (s1\<lparr>w_tick := k2\<rparr>)" using open_write_Inr [OF o] by blast
  have "file_at s4 pub = Some (pem_of_public P (rsa_keygen P seed))"
    using file_write_Inr [OF w] s2 file_close_Inr [OF c] by auto
  moreover from b obtain v k where v: "v = s4\<lparr>w_tick := k\<rparr>"
    "ks_encrypt_private_pem_with_key P (pem_of_private P (rsa_keygen P seed)) key v = (Inr blob, s5)" by blast
  from ks_encrypt_Inr [OF v(2)] obtain salt iv k i where
    bl: "length salt = 16" "length iv = 12" "blob = key_blob P 2 key salt iv (pem_of_private P (rsa_keygen P seed))"
      "length (pem_of_private P (rsa_keygen P seed)) \<le> INT_MAX" "s5 = v\<lparr>w_tick := k, w_rpos := i\<rparr>" by blast
  moreover have "file_at t pub = file_at s5 pub"
    using withinD [OF ks_write_all_only e] d by (simp add: only_file_def)
  ultimately show ?thesis
    using ks_write_all_Inr [OF e] seed v(1) by (metis file_at_other(1,2))
qed

lemma ks_create_keys_session_Inr:
  assumes run: "ks_create_keys_session P name key s = (Inr u, t)"
  shows "name_ok name \<and> auth_get_deleted name s = (Inr 0, s) \<and> g_users t = g_users s \<and>
    (if path_exists s (pub_file name) \<and> path_exists s (enc_file name) then t = s
     else \<exists>seed. holds_key P t name key (rsa_keygen P seed) \<and>
       file_at t (pub_file name) = Some (pem_of_public P (rsa_keygen P seed)))"
proof -
  have within_acc: "within (\<lambda>s t. (g_users s, g_users_cap s, g_db_path s) = (g_users t, g_users_cap t, g_db_path t))
    (then_io (ks_ensure_dir a) (then_io (ks_ensure_dir b) (then_io (ks_ensure_dir c) (ks_create_key_files P x y k))))" for a b c x y k
    
    by (intro frame_same.within_then table_frame.within_ensure_dir table_frame.within_key_files)
  from run have n: "name_ok name" and del: "auth_get_deleted name s = (Inr 0, s)" and
    cases: "if path_exists s (pub_file name) \<and> path_exists s (enc_file name) then t = s
      else then_io (ks_ensure_dir (ascii ''server/res'')) (then_io (ks_ensure_dir KS_ROOT)
        (then_io (ks_ensure_dir (key_dir name)) (ks_create_key_files P (pub_file name) (enc_file name) key))) s = (Inr (), t)"
    by (auto simp: ks_create_keys_session_def io_inv ks_build_user_paths_eq ks_file_exists_def
        auth_get_deleted_run split: if_splits option.splits)
  show ?thesis
  proof (cases "path_exists s (pub_file name) \<and> path_exists s (enc_file name)")
    case True
    with n del cases show ?thesis by simp
  next
    case False
    with cases have r: "then_io (ks_ensure_dir (ascii ''server/res'')) (then_io (ks_ensure_dir KS_ROOT)
        (then_io (ks_ensure_dir (key_dir name)) (ks_create_key_files P (pub_file name) (enc_file name) key))) s = (Inr (), t)"
      by simp
    then obtain v where f: "ks_create_key_files P (pub_file name) (enc_file name) key v = (Inr (), t)"
      by (auto simp: io_inv)
    have "pub_file name \<noteq> enc_file name" using n key_files_distinct(3) by (auto simp: name_ok_def)
    from ks_create_key_files_Inr [OF f this] withinD [OF within_acc r] n del False show ?thesis
      unfolding holds_key_def by auto
  qed
qed

lemma ks_sign_doc_calm:
  assumes "gcm_spec P" and "pem_spec P" and "calm s" and "name_ok name"
    and "auth_get_deleted name s = (Inr 0, s)" and "holds_key P s name key pkey"
  shows "\<exists>salt t. length salt = 32 \<and> ks_sign_doc_session P name key doc s = (Inr (pss_sign P pkey salt doc), t)"
proof -
  obtain salt iv where b: "length salt = 16" "length iv = 12" "length (pem_of_private P pkey) \<le> INT_MAX"
    "file_at s (enc_file name) = Some (key_blob P 2 key salt iv (pem_of_private P pkey))"
    using assms(6) by (auto simp: holds_key_def)
  obtain k where r: "ks_read_all (enc_file name) s =
      (Inr (key_blob P 2 key salt iv (pem_of_private P pkey)), s\<lparr>w_tick := k\<rparr>)"
    using ks_read_all_calm [OF assms(3), of "enc_file name"] b(4) by auto
  have "calm (s\<lparr>w_tick := k\<rparr>)" using assms(3) by simp
  then obtain k' where
    d: "ks_decrypt_private_blob_with_key P (key_blob P 2 key salt iv (pem_of_private P pkey)) key
      (s\<lparr>w_tick := k\<rparr>) = (Inr (pem_of_private P pkey), s\<lparr>w_tick := k'\<rparr>)"
    using ks_decrypt_calm [of "s\<lparr>w_tick := k\<rparr>" P "key_blob P 2 key salt iv (pem_of_private P pkey)" key]
      unwrap_key_blob [OF assms(1) b(1-3), of 2 key] by auto
  show ?thesis
    using assms(2-5) r d
    by (auto simp: ks_sign_doc_session_def ks_build_user_paths_eq io_def pem_spec_def rand_bytes_calm
        simp del: lib_calls.simps intro!: exI [of _ "map f xs" for f xs])
qed

lemma ks_sign_doc_Inr:
  assumes "ks_sign_doc_session P name key doc s = (Inr sig, t)"
  shows "name_ok name \<and> auth_get_deleted name s = (Inr 0, s) \<and>
    (\<exists>blob plain pkey salt. file_at s (enc_file name) = Some blob \<and> unwrap P blob key = Some plain \<and>
       pem_private P plain = Some pkey \<and> length salt = 32 \<and> sig = pss_sign P pkey salt doc)"
  using assms
  by (auto simp: ks_sign_doc_session_def ks_build_user_paths_eq io_inv auth_get_deleted_run
      simp del: lib_calls.simps split: if_splits option.splits
      dest!: ks_read_all_run rand_bytes_length ks_decrypt_Inr)

section \<open>Changing the wrapping key\<close>

lemma ks_reencrypt_cases [consumes 1, case_names unread rewritten]:
  assumes run: "ks_reencrypt_private_for_new_session_key P name old new s = (Inr u, t)"
  obtains "name_ok name" "ks_read_all (enc_file name) s = (Inl (), t)"
  | b v plain salt iv where "name_ok name" "ks_read_all (enc_file name) s = (Inr b, v)"
      "file_at s (enc_file name) = Some b" "unwrap P b old = Some plain"
      "length salt = 16" "length iv = 12" "length plain \<le> INT_MAX" "only_file (enc_file name) s t"
      "file_at t (enc_file name) = Some (key_blob P 2 new salt iv plain)"
proof -
  obtain r v where rd: "ks_read_all (enc_file name) s = (r, v)" by fastforce
  have n: "name_ok name"
    using run by (auto simp: ks_reencrypt_private_for_new_session_key_def ks_build_user_paths_eq io_inv
        split: if_splits)
  show ?thesis
  proof (cases r)
    case (Inl e)
    with run rd n have "ks_read_all (enc_file name) s = (Inl (), t)"
      by (auto simp: ks_reencrypt_private_for_new_session_key_def ks_build_user_paths_eq io_inv)
    then show ?thesis using n that(1) by blast
  next
    case (Inr b)
    with run rd n obtain plain v' blob w where
      d: "ks_decrypt_private_blob_with_key P b old v = (Inr plain, v')" and
      e: "ks_encrypt_private_pem_with_key P plain new v' = (Inr blob, w)" and
      wr: "ks_write_all (enc_file name) blob w = (Inr u, t)"
      by (auto simp: ks_reencrypt_private_for_new_session_key_def ks_build_user_paths_eq io_inv)
    from ks_read_all_run [OF rd] Inr obtain k where v: "v = s\<lparr>w_tick := k\<rparr>" "file_at s (enc_file name) = Some b"
      by blast
    from ks_decrypt_Inr [OF d] v obtain k' where v': "v' = s\<lparr>w_tick := k'\<rparr>" "unwrap P b old = Some plain" by auto
    from ks_encrypt_Inr [OF e] obtain salt iv k2 i where
      s: "length salt = 16" "length iv = 12" "blob = key_blob P 2 new salt iv plain"
        "length plain \<le> INT_MAX" "w = v'\<lparr>w_tick := k2, w_rpos := i\<rparr>" by blast
    have "only_file (enc_file name) w t" using withinD [OF ks_write_all_only wr] .
    then have "only_file (enc_file name) s t" using s(5) v' by (simp add: only_file_def)
    moreover have "file_at t (enc_file name) = Some (key_blob P 2 new salt iv plain)"
      using ks_write_all_Inr [OF wr] s(3) by simp
    ultimately show ?thesis using that(2) n rd Inr v(2) v'(2) s(1,2,4) by blast
  qed
qed

lemma ks_reencrypt_Inr:
  assumes run: "ks_reencrypt_private_for_new_session_key P name old new s = (Inr u, t)" and "calm s"
  shows "name_ok name \<and> only_file (enc_file name) s t \<and>
    (case file_at s (enc_file name) of
       None \<Rightarrow> file_at t (enc_file name) = None
     | Some b \<Rightarrow> \<exists>plain salt iv. unwrap P b old = Some plain \<and>
         length salt = 16 \<and> length iv = 12 \<and> length plain \<le> INT_MAX \<and>
         file_at t (enc_file name) = Some (key_blob P 2 new salt iv plain))"
  using run
proof (cases rule: ks_reencrypt_cases)
  case unread
  with ks_read_all_calm [OF assms(2), of "enc_file name"] show ?thesis
    by (auto simp: only_file_def split: option.splits)
qed auto

text \<open>The session key of a login.\<close>

definition login_key :: "'p platform_scheme \<Rightarrow> bytes option \<Rightarrow> bytes \<Rightarrow> bytes \<Rightarrow> bytes" where
  "login_key P file name pw =
     (let salt = (case file of
          Some b \<Rightarrow> if 53 \<le> length b \<and> take 4 b = KS_MAGIC \<and> b ! 4 = KS_VERSION then take 16 (drop 5 b)
            else ascii ''dss-session:'' @ name
        | None \<Rightarrow> ascii ''dss-session:'' @ name)
      in pbkdf2 P (cstr pw) salt KS_PBKDF2_ITERS 32)"

lemma ks_derive_session_key_calm:
  assumes "calm s" and "name_ok name" and "length name < 244"
  shows "\<exists>k. ks_derive_session_key P name pw s =
    (Inr (login_key P (file_at s (enc_file name)) name pw), s\<lparr>w_tick := k\<rparr>)"
proof -
  let ?s1 = "s\<lparr>w_tick := Suc (w_tick s)\<rparr>"
  have l: "ks_derive_login_session_key P name pw s =
      (Inr (pbkdf2 P (cstr pw) (ascii ''dss-session:'' @ name) KS_PBKDF2_ITERS 32), ?s1)"
    using assms by (simp add: ks_derive_login_session_key_def io_def Let_def)
  obtain k where r: "ks_read_all (enc_file name) ?s1 =
      ((case file_at s (enc_file name) of None \<Rightarrow> Inl () | Some b \<Rightarrow> Inr b), s\<lparr>w_tick := k\<rparr>)"
    using ks_read_all_calm [of ?s1 "enc_file name"] assms(1) by auto
  show ?thesis
    using assms(1,2) l r
    by (cases "file_at s (enc_file name)")
       (auto simp: ks_derive_session_key_def ks_build_user_paths_eq ks_pbkdf2_key_def io_def
        login_key_def KS_PRIV_HDR_LEN_def Let_def)
qed

text \<open>
  Re-encryption succeeds in two ways: the key file was read, and then the key pair is under the
  new key; or it was not, and then nothing has changed.
\<close>

lemma ks_reencrypt_holds_key:
  assumes "gcm_spec P" and "holds_key P s name old pkey"
    and run: "ks_reencrypt_private_for_new_session_key P name old new s = (Inr u, t)"
  shows "(\<exists>b v. ks_read_all (enc_file name) s = (Inr b, v)) \<and> holds_key P t name new pkey \<or>
    ks_read_all (enc_file name) s = (Inl (), t) \<and> holds_key P t name old pkey"
  using run
proof (cases rule: ks_reencrypt_cases)
  case unread
  from ks_read_all_run [OF unread(2)] have "file_at t (enc_file name) = file_at s (enc_file name)" by auto
  with assms(2) unread(2) show ?thesis by (simp add: holds_key_def)
next
  case (rewritten b v plain salt' iv')
  obtain salt iv where b: "length salt = 16" "length iv = 12" "length (pem_of_private P pkey) \<le> INT_MAX"
    "file_at s (enc_file name) = Some (key_blob P 2 old salt iv (pem_of_private P pkey))"
    using assms(2) by (auto simp: holds_key_def)
  have "plain = pem_of_private P pkey" using rewritten(3,4) b(4) unwrap_key_blob [OF assms(1) b(1-3), of 2 old] by simp
  with rewritten(2,5-9) show ?thesis unfolding holds_key_def by blast
qed

text \<open>A key pair stays usable: it is the same pair, under the new key.\<close>

lemma ks_reencrypt_keeps_key:
  assumes "gcm_spec P" and "calm s" and "holds_key P s name old pkey"
    and run: "ks_reencrypt_private_for_new_session_key P name old new s = (Inr u, t)"
  shows "holds_key P t name new pkey"
  using ks_reencrypt_holds_key [OF assms(1,3) run] ks_read_all_calm [OF assms(2), of "enc_file name"] assms(3)
  by (auto simp: holds_key_def)

section \<open>Deleting keys\<close>

lemma ks_remove_run:
  assumes "ks_remove_if_there p s = (r, t)"
  shows "only_file p s t" and "r = Inr u \<Longrightarrow> file_at t p = None"
proof -
  have "within (only_file p) (ks_remove_if_there p)"
    unfolding ks_remove_if_there_def ks_file_exists_def
    by (intro only_file.within_bind only_file.within_if only_file.within_get only_file.within_ret prims only_file_prims)
  from withinD [OF this assms] show "only_file p s t" .
  show "r = Inr u \<Longrightarrow> file_at t p = None"
    using assms by (auto simp: ks_remove_if_there_def ks_file_exists_def unlink_def io_inv path_exists_def
        split: if_splits dest!: lib_call_run)
qed

lemma rmdir_run: "rmdir p s = (r, t) \<Longrightarrow> \<exists>k d. t = s\<lparr>w_tick := k, w_dirs := d\<rparr>"
  by (rule exI [of _ "w_tick t"], rule exI [of _ "w_dirs t"])
     (auto simp: rmdir_def lib_call_def io_def split: if_splits)

lemma try_ignored:
  assumes "bind_io (try_io m) (case_sum (\<lambda>e. if c e then raise () else ret ()) ret) s = (Inr u, t)"
  shows "\<exists>x. m s = (x, t)"
proof -
  obtain x v where m: "m s = (x, v)" by fastforce
  with assms show ?thesis by (cases x) (auto simp: io_def split: if_split_asm)
qed

lemma ks_delete_keys_Inr:
  assumes run: "ks_delete_keys name s = (Inr u, t)"
  shows "\<exists>v. name_ok name \<and> auth_set_deleted name 1 s = (Inr (), v) \<and> g_users t = g_users v \<and>
    file_at t (pub_file name) = None \<and> file_at t (enc_file name) = None \<and>
    (\<forall>q. q \<noteq> pub_file name \<longrightarrow> q \<noteq> enc_file name \<longrightarrow> file_at t q = file_at v q)"
proof -
  from run obtain v v1 v2 x where n: "name_ok name" and
    d: "auth_set_deleted name 1 s = (Inr (), v)" and
    p: "ks_remove_if_there (pub_file name) v = (Inr (), v1)" and
    e: "ks_remove_if_there (enc_file name) v1 = (Inr (), v2)" and
    m: "rmdir (key_dir name) v2 = (x, t)"
    by (auto simp: ks_delete_keys_def ks_build_user_paths_eq then_io_Inr from_option_Inr bind_io_Inr [of "from_option _ _"]
        split: if_split_asm dest!: try_ignored)
  from rmdir_run [OF m] obtain k ds where t: "t = v2\<lparr>w_tick := k, w_dirs := ds\<rparr>" by blast
  have g: "g_users v2 = g_users v"
    using withinD [OF table_frame.within_remove p] withinD [OF table_frame.within_remove e] by simp
  have ne: "pub_file name \<noteq> enc_file name" using n key_files_distinct(3) by (auto simp: name_ok_def)
  from ks_remove_run(1) [OF p] ks_remove_run(1) [OF e] ks_remove_run(2) [OF p refl]
    ks_remove_run(2) [OF e refl] ne t g n d
  show ?thesis by (intro exI [of _ v]) (auto simp: only_file_def)
qed

text \<open>If marking the account fails, no file is removed.\<close>

lemma ks_delete_keys_Inl:
  assumes "ks_delete_keys name s = (Inl e, t)" and "auth_set_deleted name 1 s = (Inl e', v)"
  shows "t = s \<or> t = v"
  using assms by (auto simp: ks_delete_keys_def io_inv split: if_splits sum.splits)

section \<open>In a working environment\<close>

lemma ks_ensure_dir_calm:
  "calm s \<Longrightarrow> \<exists>t. ks_ensure_dir p s = (Inr (), t) \<and> calm t \<and> set (w_dirs t) \<subseteq> insert p (set (w_dirs s))"
  by (auto simp: ks_ensure_dir_def mkdir_def io_def)

lemma file_write_calm:
  "calm s \<Longrightarrow> \<exists>t. file_write e p d s = (Inr (), t) \<and> calm t \<and> w_dirs t = w_dirs s"
  by (simp add: file_write_def Let_def calm_def set_file_def)

lemma ks_create_key_files_calm:
  assumes "calm s" and "pub \<notin> set (w_dirs s)" and "enc \<notin> set (w_dirs s)"
    and "\<And>seed. length seed = 32 \<Longrightarrow> pem_of_private P (rsa_keygen P seed) \<noteq> [] \<and>
        length (pem_of_private P (rsa_keygen P seed)) \<le> INT_MAX"
  shows "\<exists>t. ks_create_key_files P pub enc key s = (Inr (), t)"
proof -
  define seed where "seed = map (w_tape s) [w_rpos s ..< w_rpos s + 32]"
  have pem: "pem_of_private P (rsa_keygen P seed) \<noteq> []" "length (pem_of_private P (rsa_keygen P seed)) \<le> INT_MAX"
    using assms(4) [of seed] by (simp_all add: seed_def)
  obtain s1 where s1: "then_io (lib_calls 3 ()) (rand_bytes () 32) s = (Inr seed, s1)" "calm s1" "w_dirs s1 = w_dirs s"
    using assms(1) by (simp add: io_def rand_bytes_calm seed_def del: lib_calls.simps)
  then have g: "ks_generate_rsa_key P s = (Inr (rsa_keygen P seed), s1)"
    using assms(1) by (auto simp: ks_generate_rsa_key_def io_def simp del: lib_calls.simps)
  let ?d = "pem_of_public P (rsa_keygen P seed)"
  let ?s2 = "set_file pub [] (s1\<lparr>w_tick := Suc (w_tick s1)\<rparr>)"
  have o: "open_write () pub s1 = (Inr (), ?s2)"
    using s1 assms(2) by (simp add: open_write_def io_def)
  obtain s4 where w: "file_write () pub ?d ?s2 = (Inr (), s4)" "calm s4" "w_dirs s4 = w_dirs s1"
    using file_write_calm [of ?s2 "()" pub ?d] s1(2) by (fastforce simp: set_file_def)
  obtain s5 where c: "file_close () pub s4 = (Inr (), s5)" "calm s5" "w_dirs s5 = w_dirs s1"
    using w by (simp add: file_close_def Let_def calm_def)
  let ?s6 = "s5\<lparr>w_tick := Suc (w_tick s5 + 2)\<rparr>"
  obtain blob s7 where e: "ks_encrypt_private_pem_with_key P (pem_of_private P (rsa_keygen P seed)) key ?s6 = (Inr blob, s7)"
    "calm s7" using ks_encrypt_calm [of ?s6 "pem_of_private P (rsa_keygen P seed)" P key] c(2) pem by auto
  have "w_dirs s7 = w_dirs s" using ks_encrypt_Inr [OF e(1)] c(3) s1(3) by auto
  then obtain t where "ks_write_all enc blob s7 = (Inr (), t)"
    using ks_write_all_calm [OF e(2)] assms(3) by auto
  then show ?thesis
    using g o w c e pem by (simp add: ks_create_key_files_def io_def Let_def del: lib_calls.simps)
qed

lemma ks_create_keys_session_calm:
  assumes c: "calm s" and n: "name_ok name" and d: "auth_get_deleted name s = (Inr 0, s)"
    and dirs: "w_dirs s = []"
    and pem: "\<And>seed. length seed = 32 \<Longrightarrow> pem_of_private P (rsa_keygen P seed) \<noteq> [] \<and>
        length (pem_of_private P (rsa_keygen P seed)) \<le> INT_MAX"
  shows "\<exists>t. ks_create_keys_session P name key s = (Inr (), t)"
proof -
  obtain s1 where s1: "ks_ensure_dir (ascii ''server/res'') s = (Inr (), s1)" "calm s1"
    "set (w_dirs s1) \<subseteq> {ascii ''server/res''}" using ks_ensure_dir_calm [OF c] dirs by fastforce
  obtain s2 where s2: "ks_ensure_dir KS_ROOT s1 = (Inr (), s2)" "calm s2"
    "set (w_dirs s2) \<subseteq> {KS_ROOT, ascii ''server/res''}" using ks_ensure_dir_calm [OF s1(2)] s1(3) by fastforce
  obtain s3 where s3: "ks_ensure_dir (key_dir name) s2 = (Inr (), s3)" "calm s3"
    "set (w_dirs s3) \<subseteq> {key_dir name, KS_ROOT, ascii ''server/res''}"
    using ks_ensure_dir_calm [OF s2(2)] s2(3) by fastforce
  have l: "length (ascii ''server/res'') < length KS_ROOT" "length KS_ROOT < length (key_dir name)"
    by (simp_all add: KS_ROOT_def key_dir_def)
  have "q \<notin> set (w_dirs s3)" if "length (key_dir name) < length q" for q using that s3(3) l by auto
  then have "pub_file name \<notin> set (w_dirs s3)" "enc_file name \<notin> set (w_dirs s3)"
    by (simp_all add: pub_file_def enc_file_def)
  from ks_create_key_files_calm [OF s3(2) this pem] obtain t where
    "ks_create_key_files P (pub_file name) (enc_file name) key s3 = (Inr (), t)" by blast
  with s1(1) s2(1) s3(1) n d show ?thesis
    by (simp add: ks_create_keys_session_def ks_build_user_paths_eq ks_file_exists_def io_def)
qed

lemma ks_reencrypt_calm:
  assumes "calm s" and "name_ok name" and "file_at s (enc_file name) = Some b" and "unwrap P b old = Some plain"
    and "length plain \<le> INT_MAX" and "enc_file name \<notin> set (w_dirs s)"
  shows "\<exists>t. ks_reencrypt_private_for_new_session_key P name old new s = (Inr (), t)"
proof -
  obtain k where rd: "ks_read_all (enc_file name) s = (Inr b, s\<lparr>w_tick := k\<rparr>)"
    using ks_read_all_calm [OF assms(1), of "enc_file name"] assms(3) by auto
  obtain k' where d: "ks_decrypt_private_blob_with_key P b old (s\<lparr>w_tick := k\<rparr>) = (Inr plain, s\<lparr>w_tick := k'\<rparr>)"
    using ks_decrypt_calm [of "s\<lparr>w_tick := k\<rparr>" P b old] assms(1,4) by auto
  obtain blob v where e: "ks_encrypt_private_pem_with_key P plain new (s\<lparr>w_tick := k'\<rparr>) = (Inr blob, v)" "calm v"
    using ks_encrypt_calm [of "s\<lparr>w_tick := k'\<rparr>" plain P new] assms(1,5) by auto
  have "w_dirs v = w_dirs s" using ks_encrypt_Inr [OF e(1)] by auto
  then obtain t where "ks_write_all (enc_file name) blob v = (Inr (), t)"
    using ks_write_all_calm [OF e(2)] assms(6) by auto
  with rd d e(1) assms(2) show ?thesis
    by (simp add: ks_reencrypt_private_for_new_session_key_def ks_build_user_paths_eq io_def)
qed

section \<open>A sample key store\<close>

definition sample_keys :: "byte \<Rightarrow> auth_env" where
  "sample_keys v = sample_auth\<lparr>w_files := [(enc_file (ascii ''bob''),
     key_blob sample_platform v (replicate 32 5) (replicate 16 6) (replicate 12 7) [9, 9])]\<rparr>"

lemma sample_gcm_spec: "gcm_spec sample_platform"
  by (auto simp: gcm_spec_def sample_platform_def GCM_TAG_LEN_def min_def split: if_splits)

lemma sample_pem_spec: "pem_spec sample_platform"
  by (simp add: pem_spec_def sample_platform_def)

lemma sample_name_ok: "name_ok (ascii ''bob'')"
  by (simp add: name_ok_def enc_file_def key_dir_def KS_ROOT_def PATH_MAX_def ascii_def)

lemma sample_not_deleted:
  "g_users s = [sample_user] \<Longrightarrow> auth_get_deleted (ascii ''bob'') s = (Inr 0, s)"
  by (simp add: auth_get_deleted_run sample_user_def)

lemma sample_keys_facts:
  "calm (sample_keys v)" "g_users (sample_keys v) = [sample_user]" "w_dirs (sample_keys v) = []"
  "file_at (sample_keys v) (enc_file (ascii ''bob'')) =
     Some (key_blob sample_platform v (replicate 32 5) (replicate 16 6) (replicate 12 7) [9, 9])"
  by (simp_all add: sample_keys_def sample_auth_def calm_def file_at_def)

lemma sample_unwrap:
  "unwrap sample_platform (key_blob sample_platform v (replicate 32 5) (replicate 16 6) (replicate 12 7) [9, 9])
     (replicate 32 5) = Some [9, 9]"
  by (rule unwrap_key_blob [OF sample_gcm_spec]) (simp_all add: INT_MAX_def)

lemma sample_holds_key: "holds_key sample_platform (sample_keys 2) (ascii ''bob'') (replicate 32 5) [9, 9]"
  unfolding holds_key_def
  by (intro exI [of _ "replicate 16 6"] exI [of _ "replicate 12 7"])
     (simp add: sample_keys_facts sample_platform_def [THEN arg_cong, of pem_of_private] INT_MAX_def)

section \<open>Properties\<close>

text \<open>A private key survives encryption: what \<open>ks_encrypt_private_pem_with_key\<close> writes has the
  53-byte header with the magic number, version 2 and the length of the ciphertext, and
  \<open>ks_decrypt_private_blob_with_key\<close> under the same key returns the same plaintext.\<close>

theorem key_blob_round_trip:
  assumes "gcm_spec P" and "ks_encrypt_private_pem_with_key P plain key s = (Inr blob, t)" and "calm v"
  shows "length blob = KS_PRIV_HDR_LEN + length plain \<and> take 5 blob = KS_MAGIC @ [2] \<and>
    (\<exists>w. ks_decrypt_private_blob_with_key P blob key v = (Inr plain, w))"
proof -
  from ks_encrypt_Inr [OF assms(2)] obtain salt iv where
    b: "length salt = 16" "length iv = 12" "length plain \<le> INT_MAX" and blob: "blob = key_blob P 2 key salt iv plain"
    by blast
  obtain ct tag where e: "gcm_encrypt P key iv [] plain = (ct, tag)" by fastforce
  note p = key_blob_parts [OF assms(1) b e blob]
  have "take 5 blob = take 4 blob @ [blob ! 4]"
    using p(8) by (simp add: take_Suc_conv_app_nth numeral_eq_Suc)
  with p gcm_specD(1) [OF assms(1) e] ks_decrypt_calm [OF assms(3), of P blob key]
    unwrap_key_blob [OF assms(1) b, of 2 key]
  show ?thesis by (auto simp: KS_PRIV_HDR_LEN_def blob)
qed

theorem key_blob_round_trip_witness:
  "\<exists>blob t w. ks_encrypt_private_pem_with_key sample_platform [1, 2, 3] (replicate 32 5) (sample_env [] []) = (Inr blob, t) \<and>
     ks_decrypt_private_blob_with_key sample_platform blob (replicate 32 5) (sample_env [] []) = (Inr [1, 2, 3], w)"
proof -
  have c: "calm (sample_env [] [])" by (simp add: sample_env_def calm_def)
  obtain blob t where
    e: "ks_encrypt_private_pem_with_key sample_platform [1, 2, 3] (replicate 32 5) (sample_env [] []) = (Inr blob, t)"
    using ks_encrypt_calm [OF c, of "[1, 2, 3]" sample_platform "replicate 32 5"] by (auto simp: INT_MAX_def)
  from key_blob_round_trip [OF sample_gcm_spec e c] e show ?thesis by blast
qed

text \<open>C19: Signing is with the key whose public half is published.  If key creation succeeds for a
  user who had no keys, then in a working environment a document is signed, with RSA-PSS, by the
  private key belonging to the public key in the user's \<open>public.pem\<close>.\<close>

theorem create_then_sign:
  assumes "gcm_spec P" and "pem_spec P" and "calm s"
    and "\<not> (path_exists s (pub_file name) \<and> path_exists s (enc_file name))"
    and "ks_create_keys_session P name key s = (Inr u, t)"
  shows "\<exists>seed salt pem w v. ks_get_public name t = (Inr pem, w) \<and>
    pem = pem_of_public P (rsa_keygen P seed) \<and>
    ks_sign_doc_session P name key doc t = (Inr (pss_sign P (rsa_keygen P seed) salt doc), v)"
proof -
  have "within (\<lambda>s t. w_fault s = w_fault t) (ks_create_keys_session P name key)"
    by (rule auth_oracle.within_create_keys)
  from calm_within [OF this assms(5,3)] have c: "calm t" .
  from ks_create_keys_session_Inr [OF assms(5)] assms(4) obtain seed where
    n: "name_ok name" and d: "auth_get_deleted name s = (Inr 0, s)" "g_users t = g_users s" and
    h: "holds_key P t name key (rsa_keygen P seed)"
      "file_at t (pub_file name) = Some (pem_of_public P (rsa_keygen P seed))" by auto
  have "auth_get_deleted name t = (Inr 0, t)" using d(1) unfolding auth_get_deleted_run d(2) by simp
  from ks_sign_doc_calm [OF assms(1,2) c n this h(1), of doc] obtain salt v where
    sgn: "ks_sign_doc_session P name key doc t = (Inr (pss_sign P (rsa_keygen P seed) salt doc), v)" by blast
  from ks_read_all_calm [OF c, of "pub_file name"] h(2) n obtain w where
    "ks_get_public name t = (Inr (pem_of_public P (rsa_keygen P seed)), w)"
    by (auto simp: ks_get_public_def ks_build_user_paths_eq io_def)
  with sgn show ?thesis by blast
qed

theorem create_then_sign_witness:
  "\<exists>t seed salt pem w v.
     ks_create_keys_session sample_platform (ascii ''bob'') (replicate 32 5) sample_auth = (Inr (), t) \<and>
     ks_get_public (ascii ''bob'') t = (Inr pem, w) \<and> pem = pem_of_public sample_platform (rsa_keygen sample_platform seed) \<and>
     ks_sign_doc_session sample_platform (ascii ''bob'') (replicate 32 5) [1] t =
       (Inr (pss_sign sample_platform (rsa_keygen sample_platform seed) salt [1]), v)"
proof -
  have g: "g_users sample_auth = [sample_user]" "w_dirs sample_auth = []"
    and n: "\<not> (path_exists sample_auth (pub_file (ascii ''bob'')) \<and> path_exists sample_auth (enc_file (ascii ''bob'')))"
    by (simp_all add: sample_auth_def path_exists_def file_at_def)
  have pem: "pem_of_private sample_platform (rsa_keygen sample_platform seed) \<noteq> [] \<and>
      length (pem_of_private sample_platform (rsa_keygen sample_platform seed)) \<le> INT_MAX"
    if "length seed = 32" for seed using that by (auto simp: sample_platform_def INT_MAX_def)
  obtain t where t: "ks_create_keys_session sample_platform (ascii ''bob'') (replicate 32 5) sample_auth = (Inr (), t)"
    using ks_create_keys_session_calm [OF sample_auth_ok(2) sample_name_ok sample_not_deleted [OF g(1)] g(2) pem] by blast
  from create_then_sign [OF sample_gcm_spec sample_pem_spec sample_auth_ok(2) n t, of "[1]"] t
  show ?thesis by blast
qed

text \<open>C0: A deleted account gets no keys and no signatures: while the account database says the user
  is deleted, \<open>ks_create_keys_session\<close>, \<open>ks_create_keys\<close>, \<open>ks_sign_doc_session\<close> and \<open>ks_sign_doc\<close>
  fail without changing anything, whatever keys are on disk.\<close>

theorem deleted_user_refused:
  assumes "auth_get_deleted name s = (Inr d, s)" and "d \<noteq> 0"
  shows "ks_create_keys_session P name key s = (Inl (), s) \<and> ks_create_keys P name pw s = (Inl (), s) \<and>
    ks_sign_doc_session P name key doc s = (Inl (), s) \<and> ks_sign_doc P name pw doc s = (Inl (), s)"
  using assms
  by (simp add: ks_create_keys_session_def ks_create_keys_def ks_sign_doc_session_def ks_sign_doc_def io_def)

theorem deleted_user_refused_witness:
  "let s = sample_auth\<lparr>g_users := [sample_user\<lparr>u_deleted := 1\<rparr>]\<rparr> in
     auth_get_deleted (ascii ''bob'') s = (Inr 1, s) \<and>
     ks_create_keys_session sample_platform (ascii ''bob'') [] s = (Inl (), s) \<and>
     ks_sign_doc_session sample_platform (ascii ''bob'') [] [1] s = (Inl (), s)"
proof -
  let ?s = "sample_auth\<lparr>g_users := [sample_user\<lparr>u_deleted := 1\<rparr>]\<rparr>"
  have d: "auth_get_deleted (ascii ''bob'') ?s = (Inr 1, ?s)"
    by (simp add: auth_get_deleted_run sample_user_def)
  from deleted_user_refused [OF d one_neq_zero] d show ?thesis unfolding Let_def by blast
qed

text \<open>C30: Deleting keys marks the account first.  If \<open>ks_delete_keys\<close> succeeds, the account is marked
  deleted in memory and in the database file and both key files are gone; if the marking fails,
  no key file has been touched.\<close>

theorem delete_keys_tombstone_first:
  assumes "auth_inv s" and "g_db_path s = Some path"
    and "path \<noteq> pub_file name" and "path \<noteq> enc_file name" and "ks_delete_keys name s = (r, t)"
  shows "(r = Inr () \<longrightarrow> tomb t name \<and> file_at t path = Some (db_text (g_users t)) \<and>
            file_at t (pub_file name) = None \<and> file_at t (enc_file name) = None) \<and>
    (\<forall>e v. auth_set_deleted name 1 s = (Inl e, v) \<longrightarrow>
       g_users t = g_users s \<and>
       (\<forall>q. q \<noteq> path \<longrightarrow> q \<noteq> path @ ascii ''.tmp'' \<longrightarrow> file_at t q = file_at s q))"
proof (intro conjI impI allI)
  assume "r = Inr ()"
  with assms(5) obtain v where v: "auth_set_deleted name 1 s = (Inr (), v)" "g_users t = g_users v"
    and f: "file_at t (pub_file name) = None" "file_at t (enc_file name) = None"
      "\<forall>q. q \<noteq> pub_file name \<longrightarrow> q \<noteq> enc_file name \<longrightarrow> file_at t q = file_at v q"
    using ks_delete_keys_Inr by blast
  show "file_at t (pub_file name) = None" "file_at t (enc_file name) = None" using f by blast+
  from auth_set_deleted_Inr [OF v(1)] assms(2) obtain i u where
    i: "auth_find_user (g_users s) name = Some i" and u: "u = auth_update_user i (with_deleted 1) s"
      "auth_write_db path u = (Inr (), v)" "g_users v = g_users u" by auto
  note i' = auth_find_user_Some [OF i]
  have "with_deleted 1 (g_users s ! i) \<in> set (g_users v)"
    using i' u by (simp add: set_update_memI)
  then show "tomb t name"
    unfolding tomb_def v(2) by (rule rev_bexI) (simp add: i')
  have "auth_inv u" unfolding u(1) by (rule auth_inv_update) (use assms(1) user_ok_with(2) in auto)
  from auth_write_db_contents(1) [OF u(2) this] f(3) assms(3,4) v(2) u(3)
  show "file_at t path = Some (db_text (g_users t))" by simp
next
  fix e v assume v: "auth_set_deleted name 1 s = (Inl e, v)"
  have t: "t = s \<or> t = v"
    using assms(5) v by (cases r) (auto simp: ks_delete_keys_def io_inv dest: ks_delete_keys_Inl)
  note a = auth_set_deleted_Inl [OF v]
  show "g_users t = g_users s" using t a by auto
  fix q assume q: "q \<noteq> path" "q \<noteq> path @ ascii ''.tmp''"
  show "file_at t q = file_at s q"
    using t auth_set_deleted_other [OF v assms(2) q] by auto
qed

theorem delete_keys_tombstone_first_witness:
  "\<exists>r t. ks_delete_keys (ascii ''bob'') sample_auth = (r, t) \<and>
     (r = Inr () \<longrightarrow> tomb t (ascii ''bob'') \<and> file_at t (enc_file (ascii ''bob'')) = None)"
proof -
  have p: "ascii ''users.db'' \<noteq> pub_file (ascii ''bob'')" "ascii ''users.db'' \<noteq> enc_file (ascii ''bob'')"
    by (simp_all add: pub_file_def enc_file_def key_dir_def KS_ROOT_def ascii_def)
  obtain r t where run: "ks_delete_keys (ascii ''bob'') sample_auth = (r, t)" by fastforce
  from delete_keys_tombstone_first [OF sample_auth_ok(1,4) p run] run show ?thesis by blast
qed

text \<open>C20: Changing the wrapping key keeps the key pair.  If a user's private key is stored under the
  old session key in a file of version 2 and \<open>ks_reencrypt_private_for_new_session_key\<close> succeeds in a working
  environment, the same private key is stored under the new session key and no other file has
  changed.  For an account without a tombstone, every document is then signed by that private
  key under the new session key; for one with a tombstone, signing is refused.\<close>

theorem reencrypt_keeps_signing_key:
  assumes "gcm_spec P" and "pem_spec P" and "calm s" and "holds_key P s name old pkey"
    and "ks_reencrypt_private_for_new_session_key P name old new s = (Inr u, t)"
  shows "holds_key P t name new pkey \<and>
    (\<forall>q. q \<noteq> enc_file name \<longrightarrow> file_at t q = file_at s q) \<and>
    (auth_get_deleted name s = (Inr 0, s) \<longrightarrow>
       (\<exists>salt v. ks_sign_doc_session P name new doc t = (Inr (pss_sign P pkey salt doc), v))) \<and>
    (\<forall>d. auth_get_deleted name s = (Inr d, s) \<longrightarrow> d \<noteq> 0 \<longrightarrow>
       ks_sign_doc_session P name new doc t = (Inl (), t))"
proof -
  have g: "g_users t = g_users s"
    using withinD [OF table_frame.within_reencrypt assms(5)] by simp
  have c: "calm t" using calm_within [OF faults.within_reencrypt assms(5,3)] .
  have d: "auth_get_deleted name t = (Inr d, t)" if "auth_get_deleted name s = (Inr d, s)" for d
    using that unfolding auth_get_deleted_run g by simp
  have h: "holds_key P t name new pkey" using ks_reencrypt_keeps_key [OF assms(1,3,4,5)] .
  note r = ks_reencrypt_Inr [OF assms(5,3)]
  have "ks_sign_doc_session P name new doc t = (Inl (), t)" if "auth_get_deleted name s = (Inr d, s)" "d \<noteq> 0" for d
    using d [OF that(1)] that(2) by (simp add: ks_sign_doc_session_def io_def)
  then show ?thesis
    using ks_sign_doc_calm [OF assms(1,2) c _ d h, of doc] h r by (auto simp: only_file_def)
qed

theorem reencrypt_keeps_signing_key_witness:
  "\<exists>t salt v. ks_reencrypt_private_for_new_session_key sample_platform (ascii ''bob'') (replicate 32 5) (replicate 32 8)
       (sample_keys 2) = (Inr (), t) \<and>
     ks_sign_doc_session sample_platform (ascii ''bob'') (replicate 32 8) [1] t =
       (Inr (pss_sign sample_platform [9, 9] salt [1]), v)"
proof -
  have "enc_file (ascii ''bob'') \<notin> set (w_dirs (sample_keys 2))" "length [9, 9 :: byte] \<le> INT_MAX"
    by (simp_all add: sample_keys_facts INT_MAX_def)
  from ks_reencrypt_calm [OF sample_keys_facts(1) sample_name_ok sample_keys_facts(4) sample_unwrap this(2,1)]
  obtain t where t: "ks_reencrypt_private_for_new_session_key sample_platform (ascii ''bob'') (replicate 32 5)
      (replicate 32 8) (sample_keys 2) = (Inr (), t)" by blast
  from reencrypt_keeps_signing_key [OF sample_gcm_spec sample_pem_spec sample_keys_facts(1) sample_holds_key t, of "[1]"]
    sample_not_deleted [OF sample_keys_facts(2)] t
  show ?thesis by blast
qed

text \<open>C40: A key file of version 1 is lost by a password change.  The session key of such a user is
  derived with the salt in the file; changing the password re-encrypts the private key under a
  key derived with that salt but writes a file of version 2, and the next login derives its
  session key with the salt \<open>dss-session:\<close> and the name instead, which is a different key
  unless PBKDF2 collides.\<close>

theorem version_1_key_lost_after_change:
  assumes "gcm_spec P" and "calm s" and "name_ok name" and "length name < 244"
    and "length salt = 16" and "length iv = 12" and "length plain \<le> INT_MAX"
    and "file_at s (enc_file name) = Some (key_blob P 1 old salt iv plain)"
    and "ks_derive_session_key P name new_pw s = (Inr new_key, v)"
    and "ks_reencrypt_private_for_new_session_key P name old new_key v = (Inr u, t)"
  shows "new_key = pbkdf2 P (cstr new_pw) salt KS_PBKDF2_ITERS 32 \<and>
    (\<exists>salt' iv'. file_at t (enc_file name) = Some (key_blob P 2 new_key salt' iv' plain)) \<and>
    (\<exists>w. ks_derive_session_key P name new_pw t =
       (Inr (pbkdf2 P (cstr new_pw) (ascii ''dss-session:'' @ name) KS_PBKDF2_ITERS 32), w))"
proof -
  obtain ct tag where e: "gcm_encrypt P old iv [] plain = (ct, tag)" by fastforce
  note p = key_blob_parts [OF assms(1,5-7) e refl [of "key_blob P 1 old salt iv plain"]]
  from ks_derive_session_key_calm [OF assms(2-4), of P new_pw] assms(8,9) obtain k where
    v: "new_key = pbkdf2 P (cstr new_pw) salt KS_PBKDF2_ITERS 32" "v = s\<lparr>w_tick := k\<rparr>"
    using p by (auto simp: login_key_def KS_VERSION_def)
  have cv: "calm v" "file_at v (enc_file name) = Some (key_blob P 1 old salt iv plain)"
    using assms(2,8) v(2) by simp_all
  from ks_reencrypt_Inr [OF assms(10) cv(1)] obtain plain' salt' iv' where
    n: "unwrap P (key_blob P 1 old salt iv plain) old = Some plain'" "length salt' = 16" "length iv' = 12"
      "length plain' \<le> INT_MAX" "file_at t (enc_file name) = Some (key_blob P 2 new_key salt' iv' plain')"
    unfolding cv(2) option.case by blast
  have pl: "plain' = plain" using n(1) unwrap_key_blob [OF assms(1,5-7), of 1 old] by simp
  obtain ct' tag' where e': "gcm_encrypt P new_key iv' [] plain = (ct', tag')" by fastforce
  note p' = key_blob_parts [OF assms(1) n(2,3) assms(7) e' refl [of "key_blob P 2 new_key salt' iv' plain"]]
  have "calm t" using calm_within [OF faults.within_reencrypt assms(10) cv(1)] .
  from ks_derive_session_key_calm [OF this assms(3,4), of P new_pw] n(5) p'(2)
  have "\<exists>w. ks_derive_session_key P name new_pw t =
       (Inr (pbkdf2 P (cstr new_pw) (ascii ''dss-session:'' @ name) KS_PBKDF2_ITERS 32), w)"
    by (auto simp: login_key_def KS_VERSION_def pl)
  with v(1) n(5) pl show ?thesis by blast
qed

theorem version_1_key_lost_after_change_witness:
  "\<exists>k v t w. ks_derive_session_key sample_platform (ascii ''bob'') (ascii ''new'') (sample_keys 1) = (Inr k, v) \<and>
     ks_reencrypt_private_for_new_session_key sample_platform (ascii ''bob'') (replicate 32 5) k v = (Inr (), t) \<and>
     ks_derive_session_key sample_platform (ascii ''bob'') (ascii ''new'') t =
       (Inr (pbkdf2 sample_platform (cstr (ascii ''new'')) (ascii ''dss-session:'' @ ascii ''bob'') KS_PBKDF2_ITERS 32), w)"
proof -
  let ?s = "sample_keys 1"
  have l: "length (ascii ''bob'') < 244" "length (replicate 16 6 :: bytes) = 16" "length (replicate 12 7 :: bytes) = 12"
    "length [9, 9 :: byte] \<le> INT_MAX" by (simp_all add: INT_MAX_def)
  from ks_derive_session_key_calm [OF sample_keys_facts(1) sample_name_ok l(1), of sample_platform "ascii ''new''" 1]
  obtain key k where d: "ks_derive_session_key sample_platform (ascii ''bob'') (ascii ''new'') ?s = (Inr key, ?s\<lparr>w_tick := k\<rparr>)"
    by blast
  have v: "calm (?s\<lparr>w_tick := k\<rparr>)" "enc_file (ascii ''bob'') \<notin> set (w_dirs (?s\<lparr>w_tick := k\<rparr>))"
    "file_at (?s\<lparr>w_tick := k\<rparr>) (enc_file (ascii ''bob'')) =
       Some (key_blob sample_platform 1 (replicate 32 5) (replicate 16 6) (replicate 12 7) [9, 9])"
    by (simp_all add: sample_keys_facts)
  from ks_reencrypt_calm [OF v(1) sample_name_ok v(3) sample_unwrap l(4) v(2)] obtain t where
    r: "ks_reencrypt_private_for_new_session_key sample_platform (ascii ''bob'') (replicate 32 5) key
      (?s\<lparr>w_tick := k\<rparr>) = (Inr (), t)" by blast
  from version_1_key_lost_after_change [OF sample_gcm_spec sample_keys_facts(1) sample_name_ok l sample_keys_facts(4) d r] d r
  show ?thesis by blast
qed

end
