(* ===== verification/Access.thy ===== *)
theory Access
  imports Server KeyStore
begin

text \<open>
  Who may do what at the server: the checks in front of the operations as one function of the
  session (\<open>gate\<close>), the effect of every operation on the accounts and the disk
  (\<open>same_store\<close>, \<open>touches_only\<close>), and what a login does to the session.
\<close>

section \<open>Dispatch\<close>

text \<open>The operations behind the checks, and the checks themselves as a function of the session.\<close>

definition dispatch ::
  "'p platform_scheme \<Rightarrow> bytes \<Rightarrow> ('r server_env_scheme, dss_status, bytes) io" where
  "dispatch P pt = (case opcode_of (pt ! 0) of
        Some OP_AUTH \<Rightarrow> op_auth P pt
      | Some OP_CHANGE_PASSWORD \<Rightarrow> op_change_password P pt
      | Some OP_CREATE_KEYS \<Rightarrow> op_create_keys P
      | Some OP_SIGN_DOC \<Rightarrow> op_sign_doc P pt
      | Some OP_GET_PUBLIC_KEY \<Rightarrow> op_get_public_key P pt
      | Some OP_DELETE_KEYS \<Rightarrow> op_delete_keys
      | Some OP_LOGOUT \<Rightarrow> op_logout
      | None \<Rightarrow> raise ST_ERR_BAD_REQ)"

definition gate :: "session_state \<Rightarrow> byte \<Rightarrow> dss_status option" where
  "gate ss b =
     (let public = b \<in> {opcode_val OP_AUTH, opcode_val OP_GET_PUBLIC_KEY} in
      if \<not> public \<and> ss_is_authenticated ss = 0 then Some ST_ERR_AUTH
      else if ss_is_authenticated ss = 1 \<and> ss_deleted ss = 1 \<and> \<not> public \<and> b \<noteq> opcode_val OP_LOGOUT
        then Some ST_ERR_DELETED
      else if ss_must_change ss = 1 \<and>
          b \<notin> {opcode_val OP_AUTH, opcode_val OP_CHANGE_PASSWORD, opcode_val OP_LOGOUT}
        then Some ST_ERR_AUTH
      else None)"

lemma server_handle_gate:
  "server_handle P pt s = (case gate (sv_session s) (pt ! 0) of
     Some e \<Rightarrow> (Inl e, s) | None \<Rightarrow> dispatch P pt s)"
proof -
  have auth: "opcode_of (pt ! 0) = Some OP_AUTH \<longleftrightarrow> pt ! 0 = 0" by (simp add: opcode_of_Some)
  show ?thesis
  proof (cases "pt ! 0 = 0")
    case True
    then show ?thesis
      using auth by (simp add: server_handle_def gate_def dispatch_def io_def Let_def)
  next
    case False
    then have "opcode_of (pt ! 0) \<noteq> Some OP_AUTH" using auth by simp
    then have d: "dispatch P pt = (case opcode_of (pt ! 0) of
        Some OP_CHANGE_PASSWORD \<Rightarrow> op_change_password P pt
      | Some OP_CREATE_KEYS \<Rightarrow> op_create_keys P
      | Some OP_SIGN_DOC \<Rightarrow> op_sign_doc P pt
      | Some OP_GET_PUBLIC_KEY \<Rightarrow> op_get_public_key P pt
      | Some OP_DELETE_KEYS \<Rightarrow> op_delete_keys
      | Some OP_LOGOUT \<Rightarrow> op_logout
      | _ \<Rightarrow> raise ST_ERR_BAD_REQ)"
      unfolding dispatch_def by (cases "opcode_of (pt ! 0)") (auto split: dss_opcode.split)
    show ?thesis
      using False unfolding server_handle_def d gate_def
      by (simp add: bind_io_ok [OF get_io_run [THEN iffD2]] Let_def raise_run)
  qed
qed

text \<open>What a successful operation says about the session and the account it acted for.\<close>

lemma op_create_keys_Inr:
  assumes "op_create_keys P s = (Inr d, t)"
  shows "ss_is_authenticated (sv_session s) = 1 \<and> ss_has_key (sv_session s) = 1 \<and>
    ss_deleted (sv_session s) = 0 \<and> d = [] \<and>
    ks_create_keys_session P (ss_username (sv_session s)) (ss_key (sv_session s)) s = (Inr (), t)"
  using assms by (auto simp: op_create_keys_def io_inv auth_get_deleted_run split: if_splits)

lemma op_sign_doc_Inr:
  assumes "op_sign_doc P pt s = (Inr d, t)"
  shows "ss_is_authenticated (sv_session s) = 1 \<and> ss_has_key (sv_session s) = 1 \<and>
    ss_deleted (sv_session s) \<noteq> 1 \<and> length pt - 1 \<le> 65535 \<and>
    ks_sign_doc_session P (ss_username (sv_session s)) (ss_key (sv_session s)) (drop 1 pt) s = (Inr d, t)"
  using assms by (auto simp: op_sign_doc_def io_inv split: if_splits)

lemma op_delete_keys_Inr:
  assumes "op_delete_keys s = (Inr d, t)"
  shows "ss_is_authenticated (sv_session s) = 1 \<and> ss_has_key (sv_session s) = 1 \<and>
    ss_deleted (sv_session s) \<noteq> 1 \<and> d = [] \<and>
    (\<exists>u. ks_delete_keys (ss_username (sv_session s)) s = (Inr (), u) \<and>
      t = u\<lparr>sv_session := (sv_session u)\<lparr>ss_deleted := 1\<rparr>\<rparr>)"
  using assms by (auto simp: op_delete_keys_def set_session_def io_inv split: if_splits)

lemma op_change_password_Inr:
  assumes "op_change_password P pt s = (Inr d, t)"
  shows "ss_is_authenticated (sv_session s) = 1 \<and> ss_has_key (sv_session s) = 1 \<and>
    ss_deleted (sv_session s) \<noteq> 1 \<and> d = [] \<and>
    (\<exists>new_key u v w. let ss = sv_session s; new_pw = cstr (take (unat (pt ! 1)) (drop 2 pt)) in
      ks_derive_session_key P (ss_username ss) new_pw s = (Inr new_key, u) \<and>
      ks_reencrypt_private_for_new_session_key P (ss_username ss) (ss_key ss) new_key u = (Inr (), v) \<and>
      auth_change_password_authenticated P (ss_username ss) new_pw v = (Inr (), w) \<and>
      t = w\<lparr>sv_session := (sv_session w)\<lparr>ss_key := new_key, ss_must_change := 0\<rparr>\<rparr>)"
  using assms by (auto simp: op_change_password_def set_session_def io_inv Let_def split: if_splits)

interpretation ticks_only: env_frame "\<lambda>s t. \<exists>k. t = s\<lparr>w_tick := k\<rparr>"
proof
  show "\<exists>k. s = s\<lparr>w_tick := k\<rparr>" for s :: "'a env_scheme" by (rule exI [of _ "w_tick s"]) simp
qed auto

text \<open>A session key is a PBKDF2 output over the password, whatever reading the key file gives.\<close>

lemma unit_sum: "x \<noteq> Inl () \<longleftrightarrow> (\<exists>y. x = Inr y)"
  by (cases x) auto

lemma ks_derive_session_key_run:
  assumes "ks_derive_session_key P name pw s = (r, t)"
  shows "(\<exists>k. t = s\<lparr>w_tick := k\<rparr>) \<and> (\<forall>key. r = Inr key \<longrightarrow>
    (\<exists>salt. key = pbkdf2 P (cstr pw) salt KS_PBKDF2_ITERS 32) \<and> name_ok name)"
proof -
  have "within (\<lambda>s t. \<exists>k. t = s\<lparr>w_tick := k\<rparr>) (ks_derive_session_key P name pw)"
    unfolding ks_derive_session_key_def ks_derive_login_session_key_def ks_pbkdf2_key_def
      ks_read_all_def Let_def
    by (intro ticks_only.within_bind ticks_only.within_then ticks_only.within_try
        ticks_only.within_case_sum ticks_only.within_case_prod ticks_only.within_if) auto
  moreover have "(\<exists>salt. key = pbkdf2 P (cstr pw) salt KS_PBKDF2_ITERS 32) \<and> name_ok name" if "r = Inr key" for key
    using assms that
    by (auto simp: ks_derive_session_key_def ks_derive_login_session_key_def ks_pbkdf2_key_def
        ks_build_user_paths_eq Let_def io_inv unit_sum simp del: lib_calls.simps
        split: if_split_asm sum.split_asm)
  ultimately show ?thesis using withinD [where m = "ks_derive_session_key P name pw", OF _ assms] by blast
qed

text \<open>
  A login changes nothing but the session, and the session only if the password is right; the
  key is set when it could be derived.
\<close>

definition auth_name :: "bytes \<Rightarrow> bytes" where
  "auth_name pt = cstr (take (unat (pt ! 1)) (drop 2 pt))"

definition auth_pw :: "bytes \<Rightarrow> bytes" where
  "auth_pw pt = (let ulen = unat (pt ! 1) in cstr (take (unat (pt ! (2 + ulen))) (drop (3 + ulen) pt)))"

definition auth_shape :: "bytes \<Rightarrow> bool" where
  "auth_shape pt \<longleftrightarrow> 3 \<le> length pt \<and> 0 < unat (pt ! 1) \<and> 3 + unat (pt ! 1) \<le> length pt \<and>
     0 < unat (pt ! (2 + unat (pt ! 1))) \<and> length pt = 3 + unat (pt ! 1) + unat (pt ! (2 + unat (pt ! 1)))"

definition fresh_session :: "bytes \<Rightarrow> int \<Rightarrow> int \<Rightarrow> bytes option \<Rightarrow> session_state" where
  "fresh_session name mc del key = (let ss = session_clear\<lparr>ss_is_authenticated := 1,
       ss_must_change := mc, ss_deleted := del, ss_username := name\<rparr>
     in case key of None \<Rightarrow> ss | Some k \<Rightarrow> ss\<lparr>ss_key := k, ss_has_key := 1\<rparr>)"

lemma op_auth_eq:
  "op_auth P pt =
     (if \<not> auth_shape pt then raise ST_ERR_BAD_REQ
      else bind_io (or_raise ST_ERR_AUTH (auth_verify_password P (auth_name pt) (auth_pw pt))) (\<lambda>(must_change, deleted).
      then_io (set_session (\<lambda>_. session_clear\<lparr>ss_is_authenticated := 1, ss_must_change := must_change,
                                  ss_deleted := deleted, ss_username := auth_name pt\<rparr>))
      (bind_io (try_io (ks_derive_session_key P (auth_name pt) (auth_pw pt))) (\<lambda>r.
      then_io (case r of
                 Inl _ \<Rightarrow> ret ()
               | Inr key \<Rightarrow> set_session (\<lambda>ss. ss\<lparr>ss_key := key, ss_has_key := 1\<rparr>))
      (then_io (lib_call ST_ERR_INTERNAL)
        (ret [word_of_int must_change, word_of_int deleted]))))))"
  unfolding op_auth_def auth_name_def auth_pw_def auth_shape_def Let_def
  by (auto simp: numeral_eq_Suc)

lemma session_tick [simp]:
  "s\<lparr>w_tick := k, sv_session := x\<rparr> = s\<lparr>sv_session := x, w_tick := k\<rparr>"
  by (cases s) simp

lemma op_auth_run:
  assumes "op_auth P pt s = (r, t)"
  shows "(\<exists>e k. r = Inl e \<and> e = (if auth_shape pt then ST_ERR_AUTH else ST_ERR_BAD_REQ) \<and> t = s\<lparr>w_tick := k\<rparr>) \<or>
    (\<exists>mc del u key k. auth_shape pt \<and> auth_verify_password P (auth_name pt) (auth_pw pt) s = (Inr (mc, del), u) \<and>
       r \<in> {Inr [word_of_int mc, word_of_int del], Inl ST_ERR_INTERNAL} \<and>
       (\<forall>x. key = Some x \<longrightarrow> (\<exists>salt. x = pbkdf2 P (auth_pw pt) salt KS_PBKDF2_ITERS 32)) \<and>
       t = s\<lparr>sv_session := fresh_session (auth_name pt) mc del key, w_tick := k\<rparr>)"
proof (cases "auth_shape pt")
  case False
  with assms show ?thesis by (intro disjI1) (auto simp: op_auth_eq raise_run intro: exI [of _ "w_tick s"])
next
  case True
  obtain rv u where v: "auth_verify_password P (auth_name pt) (auth_pw pt) s = (rv, u)" by fastforce
  from auth_verify_password_run(1) [OF v] obtain ku where u: "u = s\<lparr>w_tick := ku\<rparr>" by blast
  show ?thesis
  proof (cases rv)
    case (Inl e)
    with assms True v u show ?thesis by (auto simp: op_auth_eq io_def)
  next
    case (Inr f)
    obtain mc del where f: "f = (mc, del)" by fastforce
    let ?u = "u\<lparr>sv_session := fresh_session (auth_name pt) mc del None\<rparr>"
    obtain rk v' where d: "ks_derive_session_key P (auth_name pt) (auth_pw pt) ?u = (rk, v')" by fastforce
    from ks_derive_session_key_run [OF d] obtain kv where v': "v' = ?u\<lparr>w_tick := kv\<rparr>"
      and kk: "\<And>x. rk = Inr x \<Longrightarrow> \<exists>salt. x = pbkdf2 P (cstr (auth_pw pt)) salt KS_PBKDF2_ITERS 32" by blast
    have pw: "cstr (auth_pw pt) = auth_pw pt" by (simp add: auth_pw_def Let_def)
    have eq: "op_auth P pt s = then_io (case rk of Inl _ \<Rightarrow> ret ()
               | Inr key \<Rightarrow> set_session (\<lambda>ss. ss\<lparr>ss_key := key, ss_has_key := 1\<rparr>))
        (then_io (lib_call ST_ERR_INTERNAL) (ret [word_of_int mc, word_of_int del])) v'"
      using True v Inr f d by (simp add: op_auth_eq io_def set_session_def fresh_session_def)
    define key where "key = (case rk of Inl _ \<Rightarrow> None | Inr x \<Rightarrow> Some x)"
    let ?v = "s\<lparr>sv_session := fresh_session (auth_name pt) mc del key, w_tick := kv\<rparr>"
    have "op_auth P pt s = then_io (lib_call ST_ERR_INTERNAL) (ret [word_of_int mc, word_of_int del]) ?v"
      unfolding eq by (cases rk) (simp_all add: v' u key_def io_def set_session_def fresh_session_def Let_def)
    with assms have "r \<in> {Inr [word_of_int mc, word_of_int del], Inl ST_ERR_INTERNAL} \<and>
        t = s\<lparr>sv_session := fresh_session (auth_name pt) mc del key, w_tick := Suc kv\<rparr>"
      by (auto simp: io_def lib_call_def split: if_splits)
    moreover have "\<forall>x. key = Some x \<longrightarrow> (\<exists>salt. x = pbkdf2 P (auth_pw pt) salt KS_PBKDF2_ITERS 32)"
      using kk pw by (auto simp: key_def split: sum.splits)
    ultimately show ?thesis using True v Inr f by blast
  qed
qed

section \<open>What an operation touches\<close>

text \<open>The table of accounts and the disk.\<close>

definition same_store :: "'r auth_env_scheme \<Rightarrow> 'r auth_env_scheme \<Rightarrow> bool" where
  "same_store s t \<longleftrightarrow> g_users t = g_users s \<and> g_db_path t = g_db_path s \<and>
     w_files t = w_files s \<and> w_dirs t = w_dirs s"

interpretation same_store: env_frame same_store
  by unfold_locales (auto simp: same_store_def)

lemma sign_doc_same_store: "within same_store (ks_sign_doc_session P name key doc)"
proof -
  have "same_store s (s\<lparr>w_tick := k, w_rpos := p\<rparr>)" for s :: "'r auth_env_scheme" and k p
    by (simp add: same_store_def)
  then show ?thesis
    unfolding ks_sign_doc_session_def auth_get_deleted_def ks_read_all_def
      ks_decrypt_private_blob_with_key_def Let_def
    by (intro same_store.within_bind same_store.within_if same_store.within_then rand_bytes_within
        same_store.within_case_prod same_store.within_case_option same_store.within_raise
        same_store.within_ret same_store.within_get same_store.within_from_option
        same_store.within_open_read same_store.within_lib_calls same_store.within_lib_call)
qed

lemma get_public_same_store: "within same_store (ks_get_public name)"
  unfolding ks_get_public_def ks_read_all_def
  by (intro same_store.within_bind same_store.within_then same_store.within_case_prod) auto

text \<open>The files of a user and of the account database; only they and the user's own account change.\<close>

definition own_files :: "'r auth_env_scheme \<Rightarrow> bytes \<Rightarrow> bytes set" where
  "own_files s u = {pub_file u, enc_file u} \<union>
     (case g_db_path s of None \<Rightarrow> {} | Some p \<Rightarrow> {p, p @ ascii ''.tmp''})"

definition touches_only :: "bytes \<Rightarrow> 'r auth_env_scheme \<Rightarrow> 'r auth_env_scheme \<Rightarrow> bool" where
  "touches_only u s t \<longleftrightarrow> g_db_path t = g_db_path s \<and>
     map u_username (g_users t) = map u_username (g_users s) \<and>
     (\<forall>i < length (g_users s). u_username (g_users s ! i) \<noteq> u \<longrightarrow> g_users t ! i = g_users s ! i) \<and>
     (\<forall>q. q \<notin> own_files s u \<longrightarrow> file_at t q = file_at s q)"

interpretation touches: env_frame "touches_only u" for u
proof
  fix s t v :: "'a auth_env_scheme"
  assume a: "touches_only u s t" "touches_only u t v"
  have len: "length (g_users t) = length (g_users s)"
    using a(1) map_eq_imp_length_eq by (auto simp: touches_only_def)
  have nm: "u_username (g_users t ! i) = u_username (g_users s ! i)" if "i < length (g_users s)" for i
    using a(1) that len by (metis nth_map touches_only_def)
  show "touches_only u s v"
    using a len nm by (auto simp: touches_only_def own_files_def)
qed (auto simp: touches_only_def own_files_def)

lemma touches_prims [simp]:
  "touches_only u s (s\<lparr>w_tick := k, w_rpos := p\<rparr>)" "touches_only u s (s\<lparr>w_tick := k, w_dirs := d\<rparr>)"
  "touches_only u s (set_file (pub_file u) c (s\<lparr>w_tick := k\<rparr>))"
  "touches_only u s (set_file (enc_file u) c (s\<lparr>w_tick := k\<rparr>))"
  "touches_only u s (del_file (pub_file u) (s\<lparr>w_tick := k\<rparr>))"
  "touches_only u s (del_file (enc_file u) (s\<lparr>w_tick := k\<rparr>))"
  by (auto simp: touches_only_def own_files_def file_at_def set_file_def del_file_def update_conv' delete_conv')

lemma touches_session [simp]: "touches_only u s (s\<lparr>sv_session := x\<rparr>)"
  by (auto simp: touches_only_def own_files_def file_at_def)

lemma find_user_name: "auth_find_user us name = Some i \<Longrightarrow> i < length us \<and> u_username (us ! i) = name"
  using auth_find_user_Some by blast

lemma touches_update:
  assumes "auth_find_user (g_users s) u = Some i" and "g_users t = (g_users s)[i := f (g_users s ! i)]"
    and "g_db_path t = g_db_path s" and "\<And>x. u_username (f x) = u_username x"
    and "\<And>q. q \<notin> own_files s u \<Longrightarrow> file_at t q = file_at s q"
  shows "touches_only u s t"
  using assms find_user_name [OF assms(1)]
  by (auto simp: touches_only_def map_update_same nth_update)

lemma touches_set_deleted: "within (touches_only u) (auth_set_deleted u 1)"
proof (rule withinI)
  fix s t :: "'a auth_env_scheme" and r assume run: "auth_set_deleted u 1 s = (r, t)"
  show "touches_only u s t"
  proof (cases "g_db_path s")
    case None
    with run have "t = s" by (auto simp: auth_set_deleted_def io_def)
    then show ?thesis using touches.frame_refl by simp
  next
    case (Some p)
    have files: "file_at t q = file_at s q" if "q \<notin> own_files s u" for q
      using auth_set_deleted_other [OF run Some] that by (simp add: own_files_def Some)
    show ?thesis
    proof (cases r)
      case (Inl e)
      with run auth_set_deleted_Inl [of u 1 s e t] files show ?thesis by (simp add: touches_only_def)
    next
      case (Inr x)
      with run auth_set_deleted_Inr obtain i path where
        "auth_find_user (g_users s) u = Some i" "g_users t = g_users (auth_update_user i (with_deleted 1) s)"
        and w: "auth_write_db path (auth_update_user i (with_deleted 1) s) = (Inr (), t)" by blast
      with auth_write_db_fields(3) [OF w] files show ?thesis
        by (intro touches_update [where f = "with_deleted 1"]) auto
    qed
  qed
qed

lemma touches_change_password: "within (touches_only u) (auth_change_password_authenticated P u pw)"
proof (rule withinI)
  fix s t :: "'a auth_env_scheme" and r
  assume run: "auth_change_password_authenticated P u pw s = (r, t)"
  show "touches_only u s t"
  proof (cases "g_db_path s = None \<or> auth_find_user (g_users s) u = None")
    case True
    with run have "t = s" by (auto simp: auth_change_password_authenticated_def io_def split: option.splits)
    then show ?thesis using touches.frame_refl by simp
  next
    case False
    then obtain p i where p: "g_db_path s = Some p" "auth_find_user (g_users s) u = Some i" by auto
    obtain ra v where a: "auth_apply_new_password P i pw s = (ra, v)" by fastforce
    show ?thesis
    proof (cases ra)
      case (Inl e)
      with run p a have "t = v" by (auto simp: auth_change_password_authenticated_def io_def)
      with auth_apply_new_password_Inl [of P i pw s e v] a Inl show ?thesis
        by (auto simp: touches_only_def)
    next
      case (Inr x)
      with auth_apply_new_password_Inr [of P i pw s x v] a obtain salt h k q where
        v: "v = auth_update_user i (with_password salt h) (s\<lparr>w_tick := k, w_rpos := q\<rparr>)" by blast
      have w: "auth_write_db p v = (r, t)"
        using run p a Inr by (simp add: auth_change_password_authenticated_def io_def)
      have "file_at t q = file_at s q" if "q \<notin> own_files s u" for q
        using preservesD [OF auth_write_db_other w, of q] that by (simp add: own_files_def p v)
      with auth_write_db_fields [OF w] p v show ?thesis
        by (intro touches_update [where f = "with_password salt h"]) auto
    qed
  qed
qed

lemmas touches_intros = touches.within_bind touches.within_then touches.within_if touches.within_on_error
  touches.within_try touches.within_or_raise touches.within_case_sum touches.within_case_prod
  touches.within_case_option touches.within_raise touches.within_ret touches.within_get
  touches.within_from_option touches.within_lib_call touches.within_lib_calls touches.within_open_read

lemma touches_write_all: "p \<in> {pub_file u, enc_file u} \<Longrightarrow> within (touches_only u) (ks_write_all p b)"
  unfolding ks_write_all_def by (elim insertE emptyE; simp only:)
    (intro touches_intros prims touches.frame_tick touches_prims)+

lemma touches_session_key: "within (touches_only u) (ks_derive_session_key P name pw)"
  using ks_derive_session_key_run touches.frame_tick by (intro withinI) blast

lemma touches_encrypt: "within (touches_only u) (ks_encrypt_private_pem_with_key P b k)"
  unfolding ks_encrypt_private_pem_with_key_def Let_def
  by (intro touches_intros rand_bytes_within touches_prims)

text \<open>Operations that first compute the paths of a user.\<close>

lemma bind_from_option: "bind_io (from_option e (Some x)) g = g x" "bind_io (from_option e None) g = raise e"
  by (simp_all add: io_def)

lemma touches_paths:
  assumes "name_ok u \<Longrightarrow> within (touches_only u) (g (key_dir u, pub_file u, enc_file u))"
  shows "within (touches_only u) (bind_io (from_option e (ks_build_user_paths u)) g)"
  using assms by (simp add: ks_build_user_paths_eq bind_from_option touches.within_raise)

lemma touches_reencrypt:
  "within (touches_only u) (ks_reencrypt_private_for_new_session_key P u k k')"
  unfolding ks_reencrypt_private_for_new_session_key_def ks_read_all_def
    ks_decrypt_private_blob_with_key_def Let_def
  by (rule touches_paths, unfold prod.case, intro touches_intros touches_encrypt touches_write_all) auto

lemma touches_get_deleted: "within (touches_only u) (auth_get_deleted name)"
  by (rule withinI) (simp add: auth_get_deleted_run touches.frame_refl)

lemma touches_key_files: "within (touches_only u) (ks_create_key_files P (pub_file u) (enc_file u) key)"
  unfolding ks_create_key_files_def ks_generate_rsa_key_def Let_def
  by (intro touches_intros touches_encrypt touches_write_all prims touches.frame_tick touches_prims) auto

lemma touches_ensure_dir: "within (touches_only u) (ks_ensure_dir p)"
  unfolding ks_ensure_dir_def by (intro touches_intros prims touches.frame_tick touches_prims)

lemma touches_remove:
  "p \<in> {pub_file u, enc_file u} \<Longrightarrow> within (touches_only u) (ks_remove_if_there p)"
  unfolding ks_remove_if_there_def ks_file_exists_def
  by (elim insertE emptyE; simp only:) (intro touches_intros prims touches.frame_tick touches_prims)+

lemma touches_create_keys: "within (touches_only u) (ks_create_keys_session P u key)"
  unfolding ks_create_keys_session_def ks_file_exists_def
  by (rule touches.within_bind [OF touches_get_deleted], rule touches.within_if [OF touches.within_raise],
      rule touches_paths, unfold prod.case, intro touches_intros touches_key_files touches_ensure_dir)

lemma touches_delete_keys: "within (touches_only u) (ks_delete_keys u)"
  unfolding ks_delete_keys_def
  by (rule touches_paths, unfold prod.case,
      intro touches_intros touches_set_deleted touches_remove prims touches.frame_tick touches_prims) auto

lemma same_store_touches: "same_store s t \<Longrightarrow> touches_only u s t"
  by (auto simp: same_store_def touches_only_def file_at_def)

text \<open>Logging in, logging out, signing and fetching a public key change nothing that is kept.\<close>

lemma op_auth_same_store: "within same_store (op_auth P pt)"
  by (rule withinI) (auto simp: same_store_def dest!: op_auth_run auth_verify_password_run(1))

lemma set_session_same_store: "within same_store (set_session f)"
  by (auto simp: within_def set_session_def put_io_def same_store_def)

lemma op_sign_doc_same_store: "within same_store (op_sign_doc P pt)"
  unfolding op_sign_doc_def
  by (intro same_store.within_bind same_store.within_if same_store.within_or_raise
      same_store.within_raise same_store.within_get sign_doc_same_store)

lemma op_get_public_key_same_store: "within same_store (op_get_public_key P pt)"
  unfolding op_get_public_key_def Let_def
  by (intro same_store.within_bind same_store.within_if same_store.within_or_raise
      same_store.within_raise same_store.within_get same_store.within_ret get_public_same_store)

lemma op_logout_same_store: "within same_store op_logout"
  unfolding op_logout_def by (intro same_store.within_then same_store.within_ret set_session_same_store)

text \<open>An operation acts for the user of the session.\<close>

lemma session_run: "bind_io (get_io sv_session) f s = f (sv_session s) s"
  by (simp add: bind_io_def get_io_def)

lemma touches_set_session: "within (touches_only u) (set_session f)"
  by (auto simp: within_def set_session_def put_io_def)

lemmas touches_ops = touches_session_key touches_reencrypt touches_create_keys touches_delete_keys
  touches_change_password touches_set_session touches_get_deleted

lemma op_change_password_touches:
  "op_change_password P pt s = (r, t) \<Longrightarrow> touches_only (ss_username (sv_session s)) s t"
  unfolding op_change_password_def Let_def session_run
  by (erule withinD [rotated]) (intro touches_intros touches_ops)

lemma op_create_keys_touches:
  "op_create_keys P s = (r, t) \<Longrightarrow> touches_only (ss_username (sv_session s)) s t"
  unfolding op_create_keys_def session_run
  by (erule withinD [rotated]) (intro touches_intros touches_ops)

lemma op_delete_keys_touches:
  "op_delete_keys s = (r, t) \<Longrightarrow> touches_only (ss_username (sv_session s)) s t"
  unfolding op_delete_keys_def session_run
  by (erule withinD [rotated]) (intro touches_intros touches_ops)

lemma dispatch_cases:
  assumes "dispatch P pt s = (r, t)"
  obtains (auth) "pt ! 0 = 0" "op_auth P pt s = (r, t)"
    | (change) "pt ! 0 = 1" "op_change_password P pt s = (r, t)"
    | (create) "pt ! 0 = 2" "op_create_keys P s = (r, t)"
    | (sign) "pt ! 0 = 3" "op_sign_doc P pt s = (r, t)"
    | (get) "pt ! 0 = 4" "op_get_public_key P pt s = (r, t)"
    | (delete) "pt ! 0 = 5" "op_delete_keys s = (r, t)"
    | (logout) "pt ! 0 = 6" "op_logout s = (r, t)"
    | (unknown) "opcode_of (pt ! 0) = None" "r = Inl ST_ERR_BAD_REQ" "t = s"
proof (cases "opcode_of (pt ! 0)")
  case None
  with assms that show thesis by (simp add: dispatch_def raise_run)
next
  case (Some c)
  then have "pt ! 0 = opcode_val c" by (simp add: opcode_of_Some)
  with assms Some that show thesis by (cases c) (simp_all add: dispatch_def)
qed

lemma dispatch_touches:
  assumes "dispatch P pt s = (r, t)"
  shows "touches_only (ss_username (sv_session s)) s t"
  using assms
proof (cases rule: dispatch_cases)
  case auth
  show ?thesis by (rule same_store_touches) (rule withinD [OF op_auth_same_store auth(2)])
next
  case change
  then show ?thesis by (intro op_change_password_touches)
next
  case create
  then show ?thesis by (intro op_create_keys_touches)
next
  case sign
  show ?thesis by (rule same_store_touches) (rule withinD [OF op_sign_doc_same_store sign(2)])
next
  case get
  show ?thesis by (rule same_store_touches) (rule withinD [OF op_get_public_key_same_store get(2)])
next
  case delete
  then show ?thesis by (intro op_delete_keys_touches)
next
  case logout
  show ?thesis by (rule same_store_touches) (rule withinD [OF op_logout_same_store logout(2)])
next
  case unknown
  then show ?thesis by (simp add: touches.frame_refl)
qed

text \<open>Which requests may change the accounts or the disk.\<close>

definition active :: "session_state \<Rightarrow> bool" where
  "active ss \<longleftrightarrow> ss_is_authenticated ss = 1 \<and> ss_has_key ss = 1 \<and> ss_deleted ss \<noteq> 1"

definition privileged :: "session_state \<Rightarrow> byte \<Rightarrow> bool" where
  "privileged ss b \<longleftrightarrow> active ss \<and>
     (b = opcode_val OP_CHANGE_PASSWORD \<or>
      ss_must_change ss \<noteq> 1 \<and> (b = opcode_val OP_CREATE_KEYS \<or> b = opcode_val OP_DELETE_KEYS))"

lemma gate_must_change:
  "gate ss b = None \<Longrightarrow> ss_must_change ss = 1 \<Longrightarrow> b = 0 \<or> b = 1 \<or> b = 6"
  by (auto simp: gate_def Let_def split: if_splits)

lemma inactive_same_store:
  assumes "\<not> active (sv_session s)"
  shows "op_change_password P pt s = (r, t) \<Longrightarrow> same_store s t"
    and "op_create_keys P s = (r, t) \<Longrightarrow> same_store s t"
    and "op_delete_keys s = (r, t) \<Longrightarrow> same_store s t"
  using assms same_store.frame_refl [of s]
  by (auto simp: op_change_password_def op_create_keys_def op_delete_keys_def session_run raise_run active_def
      split: if_split_asm)

lemma unprivileged_same_store:
  assumes "server_handle P pt s = (r, t)" and np: "\<not> privileged (sv_session s) (pt ! 0)"
  shows "same_store s t"
proof (cases "gate (sv_session s) (pt ! 0)")
  case (Some e)
  with assms(1) same_store.frame_refl [of s] show ?thesis by (simp add: server_handle_gate)
next
  case None
  then have "dispatch P pt s = (r, t)" using assms(1) by (simp add: server_handle_gate)
  then show ?thesis
  proof (cases rule: dispatch_cases)
    case auth
    then show ?thesis using withinD [OF op_auth_same_store] by blast
  next
    case change
    with np have "\<not> active (sv_session s)" by (auto simp: privileged_def)
    then show ?thesis using change(2) by (rule inactive_same_store)
  next
    case create
    with np gate_must_change [OF None] have "\<not> active (sv_session s)" by (auto simp: privileged_def)
    then show ?thesis using create(2) by (rule inactive_same_store)
  next
    case sign
    then show ?thesis using withinD [OF op_sign_doc_same_store] by blast
  next
    case get
    then show ?thesis using withinD [OF op_get_public_key_same_store] by blast
  next
    case delete
    with np gate_must_change [OF None] have "\<not> active (sv_session s)" by (auto simp: privileged_def)
    then show ?thesis using delete(2) by (rule inactive_same_store)
  next
    case logout
    then show ?thesis using withinD [OF op_logout_same_store] by blast
  next
    case unknown
    then show ?thesis by (simp add: same_store.frame_refl)
  qed
qed

end
