(* ===== verification/Sessions.thy ===== *)
theory Sessions
  imports Access
begin

text \<open>
  The meaning of a session (\<open>session_ok\<close>) and the contract under which an invariant of the
  operations holds across a whole connection (\<open>connection\<close>): through the handshake, the loop and
  the cleanup.
\<close>

section \<open>The session\<close>

text \<open>What the operations of the account database and of the key store do to the session: nothing.\<close>

interpretation same_session: auth_frame "\<lambda>s t. sv_session s = sv_session t" P for P
  by unfold_locales (auto simp: auth_update_user_def intro!: auth_set_deleted_within)

lemma op_change_password_fails:
  "op_change_password P pt s = (Inl e, t) \<Longrightarrow> sv_session t = sv_session s"
  by (auto simp: op_change_password_def session_run io_inv set_session_def Let_def split: if_split_asm
      dest!: withinD [OF same_session.within_session_key] withinD [OF same_session.within_reencrypt]
        withinD [OF same_session.within_change_authenticated])

lemma op_delete_keys_fails: "op_delete_keys s = (Inl e, t) \<Longrightarrow> sv_session t = sv_session s"
  by (auto simp: op_delete_keys_def session_run io_inv set_session_def
      split: if_split_asm dest!: withinD [OF same_session.within_delete_keys])

lemma op_change_password_session:
  assumes "op_change_password P pt s = (r, t)"
  shows "sv_session t = sv_session s \<or> (\<exists>pw salt.
    sv_session t = (sv_session s)\<lparr>ss_key := pbkdf2 P pw salt KS_PBKDF2_ITERS 32, ss_must_change := 0\<rparr>)"
proof (cases r)
  case (Inl e)
  with assms op_change_password_fails show ?thesis by blast
next
  case (Inr d)
  from op_change_password_Inr [OF assms [unfolded Inr]] obtain key u v w where
    k: "ks_derive_session_key P (ss_username (sv_session s)) (cstr (take (unat (pt ! 1)) (drop 2 pt))) s = (Inr key, u)"
    and v: "ks_reencrypt_private_for_new_session_key P (ss_username (sv_session s)) (ss_key (sv_session s)) key u = (Inr (), v)"
    and w: "auth_change_password_authenticated P (ss_username (sv_session s)) (cstr (take (unat (pt ! 1)) (drop 2 pt))) v = (Inr (), w)"
    and t: "t = w\<lparr>sv_session := (sv_session w)\<lparr>ss_key := key, ss_must_change := 0\<rparr>\<rparr>"
    unfolding Let_def by blast
  have "sv_session w = sv_session s"
    using withinD [OF same_session.within_session_key k] withinD [OF same_session.within_reencrypt v]
      withinD [OF same_session.within_change_authenticated w] by simp
  with t ks_derive_session_key_run [OF k] show ?thesis by auto
qed

lemma op_create_keys_session:
  assumes "op_create_keys P s = (r, t)"
  shows "sv_session t = sv_session s \<or>
    (sv_session t = (sv_session s)\<lparr>ss_deleted := 1\<rparr> \<and> r = Inl ST_ERR_DELETED \<and>
     ss_is_authenticated (sv_session s) = 1 \<and>
     (\<exists>d. auth_get_deleted (ss_username (sv_session s)) s = (Inr d, s) \<and> d \<noteq> 0) \<and>
     t = s\<lparr>sv_session := (sv_session s)\<lparr>ss_deleted := 1\<rparr>\<rparr>)"
proof (cases r)
  case (Inr d)
  with op_create_keys_Inr assms withinD [OF same_session.within_create_keys] show ?thesis by metis
next
  case (Inl e)
  with assms show ?thesis
    by (auto simp: op_create_keys_def session_run io_inv set_session_def auth_get_deleted_run
        split: if_split_asm dest!: withinD [OF same_session.within_create_keys])
qed

lemma op_delete_keys_session:
  assumes "op_delete_keys s = (r, t)"
  shows "sv_session t = sv_session s \<or>
    (\<exists>u. ks_delete_keys (ss_username (sv_session s)) s = (Inr (), u) \<and>
      ss_is_authenticated (sv_session s) = 1 \<and>
      t = u\<lparr>sv_session := (sv_session s)\<lparr>ss_deleted := 1\<rparr>\<rparr>)"
proof (cases r)
  case (Inr d)
  with op_delete_keys_Inr assms withinD [OF same_session.within_delete_keys] show ?thesis by metis
next
  case (Inl e)
  with assms op_delete_keys_fails show ?thesis by blast
qed

lemma tomb_get_deleted:
  assumes "auth_inv s" and "tomb s name"
  shows "\<exists>d. d \<noteq> 0 \<and> auth_get_deleted name s = (Inr d, s)"
proof -
  obtain i where i: "i < length (g_users s)" "u_username (g_users s ! i) = name" "u_deleted (g_users s ! i) \<noteq> 0"
    using assms(2) by (auto simp: tomb_def in_set_conv_nth)
  have "auth_find_user (g_users s) name = Some i"
    using auth_find_user_distinct i assms(1) by (auto simp: auth_inv_def)
  with i(3) show ?thesis by (auto simp: auth_get_deleted_run)
qed

lemma get_deleted_tomb: "auth_get_deleted name s = (Inr d, t) \<Longrightarrow> d \<noteq> 0 \<Longrightarrow> tomb s name"
  by (auto simp: auth_get_deleted_run tomb_def split: option.splits dest!: find_user_name)

text \<open>
  A session names an existing account, its flags are Booleans, it has a key only when it is
  authenticated, and it is marked deleted only if the account carries a tombstone.
\<close>

definition session_wf :: "session_state \<Rightarrow> bool" where
  "session_wf ss \<longleftrightarrow> ss_is_authenticated ss \<in> {0, 1} \<and> ss_has_key ss \<in> {0, 1} \<and>
     ss_must_change ss \<in> {0, 1} \<and> ss_deleted ss \<in> {0, 1} \<and> length (ss_key ss) = 32 \<and>
     (ss_is_authenticated ss = 0 \<longrightarrow> ss = session_clear)"

definition session_ok :: "'r server_env_scheme \<Rightarrow> bool" where
  "session_ok s \<longleftrightarrow> auth_inv s \<and> session_wf (sv_session s) \<and>
     (ss_is_authenticated (sv_session s) = 1 \<longrightarrow> ss_username (sv_session s) \<in> u_username ` set (g_users s)) \<and>
     (ss_deleted (sv_session s) = 1 \<longrightarrow> tomb s (ss_username (sv_session s)))"

lemma session_wf_clear [simp]: "session_wf session_clear"
  by (simp add: session_wf_def session_clear_def)

lemma session_clear_sel [simp]: "ss_is_authenticated session_clear = 0" "ss_deleted session_clear = 0"
  by (simp_all add: session_clear_def)

lemma tomb_session [simp]: "tomb (s\<lparr>sv_session := x\<rparr>) = tomb s" "tomb (s\<lparr>w_tick := k\<rparr>) = tomb s"
  by (simp_all add: tomb_def fun_eq_iff)

lemma auth_inv_session [simp]: "auth_inv (s\<lparr>sv_session := x\<rparr>) = auth_inv s"
  by (simp add: auth_inv_def)

lemma names_kept: "tomb_le s t \<Longrightarrow> u_username ` set (g_users t) = u_username ` set (g_users s)"
  unfolding tomb_le_def by (metis image_set)

lemma session_ok_store:
  assumes "session_ok s" and "sv_session t = sv_session s" and "auth_inv t" and "tomb_le s t"
  shows "session_ok t"
  using assms names_kept [OF assms(4)] tomb_leD [OF assms(4)] by (auto simp: session_ok_def)

lemma find_user_in: "auth_find_user us name = Some i \<Longrightarrow> name \<in> u_username ` set us"
  using find_user_name by (metis imageI nth_mem)

lemma session_ok_auth:
  assumes "session_ok s" and P: "pbkdf2_spec P" and "op_auth P pt s = (r, t)"
  shows "session_ok t"
  using op_auth_run [OF assms(3)]
proof (elim disjE exE conjE)
  fix e k assume "t = s\<lparr>w_tick := k\<rparr>"
  with assms(1) show ?thesis by (simp add: session_ok_def)
next
  fix mc del u key k
  assume v: "auth_verify_password P (auth_name pt) (auth_pw pt) s = (Inr (mc, del), u)"
    and key: "\<forall>x. key = Some x \<longrightarrow> (\<exists>salt. x = pbkdf2 P (auth_pw pt) salt KS_PBKDF2_ITERS 32)"
    and t: "t = s\<lparr>sv_session := fresh_session (auth_name pt) mc del key, w_tick := k\<rparr>"
  from auth_verify_password_run(2) [OF v refl] obtain i where i: "auth_find_user (g_users s) (auth_name pt) = Some i"
    and f: "mc = u_must_change (g_users s ! i)" "del = u_deleted (g_users s ! i)" by blast
  have inv: "auth_inv s" using assms(1) by (simp add: session_ok_def)
  with find_user_name [OF i] have "user_ok (g_users s ! i)" by (simp add: auth_inv_def)
  then have fl: "mc \<in> {0, 1}" "del \<in> {0, 1}" by (auto simp: f user_ok_def)
  have "tomb s (auth_name pt)" if "del = 1"
    using find_user_name [OF i] that f by (auto simp: tomb_def intro!: bexI [of _ "g_users s ! i"])
  moreover define ss where "ss = fresh_session (auth_name pt) mc del key"
  moreover have "length (ss_key ss) = 32"
    unfolding ss_def using key P by (cases key) (auto simp: fresh_session_def session_clear_def pbkdf2_spec_def Let_def)
  moreover have "ss_is_authenticated ss = 1" "ss_has_key ss \<in> {0, 1}" "ss_must_change ss = mc"
    "ss_deleted ss = del" "ss_username ss = auth_name pt"
    unfolding ss_def by (auto simp: fresh_session_def session_clear_def Let_def split: option.split)
  ultimately show ?thesis
    using inv fl find_user_in [OF i] by (simp add: t session_ok_def session_wf_def flip: ss_def)
qed

lemma op_sign_doc_session: "op_sign_doc P pt s = (r, t) \<Longrightarrow> sv_session s = sv_session t"
  unfolding op_sign_doc_def session_run
  by (erule withinD [rotated])
     (intro frame_same.within_if frame_same.within_raise frame_same.within_or_raise same_session.within_sign_doc)

lemma op_get_public_key_session: "op_get_public_key P pt s = (r, t) \<Longrightarrow> sv_session s = sv_session t"
  unfolding op_get_public_key_def session_run Let_def
  by (erule withinD [rotated])
     (intro frame_same.within_bind frame_same.within_if frame_same.within_raise frame_same.within_ret
       frame_same.within_or_raise same_session.within_get_public)

lemma op_logout_run: "op_logout s = (Inr [], s\<lparr>sv_session := session_clear\<rparr>)"
  by (simp add: op_logout_def set_session_def io_def)

lemma delete_keys_tomb:
  assumes "ks_delete_keys name s = (Inr x, t)"
  shows "tomb t name"
proof -
  from ks_delete_keys_Inr [OF assms] obtain v where v: "auth_set_deleted name 1 s = (Inr (), v)"
    "g_users t = g_users v" by blast
  from auth_set_deleted_Inr [OF v(1)] obtain i where i: "auth_find_user (g_users s) name = Some i"
    "g_users v = g_users (auth_update_user i (with_deleted 1) s)" by blast
  with find_user_name [OF i(1)] have g: "g_users v ! i = with_deleted 1 (g_users s ! i)" "i < length (g_users v)"
    by simp_all
  then have "with_deleted 1 (g_users s ! i) \<in> set (g_users v)" by (metis nth_mem)
  with find_user_name [OF i(1)] v(2) show ?thesis
    by (auto simp: tomb_def intro!: bexI [of _ "with_deleted 1 (g_users s ! i)"])
qed

lemma session_ok_handle:
  assumes ok: "session_ok s" and P: "pbkdf2_spec P" and run: "server_handle P pt s = (r, t)"
  shows "session_ok t"
proof (cases "gate (sv_session s) (pt ! 0)")
  case (Some e)
  with run ok show ?thesis by (simp add: server_handle_gate)
next
  case None
  then have d: "dispatch P pt s = (r, t)" using run by (simp add: server_handle_gate)
  have inv: "auth_inv t" using withinD [OF srv_keeps.within_handle run] P ok by (simp add: session_ok_def)
  have le: "tomb_le s t" using withinD [OF srv_tombs.within_handle run] .
  note st = session_ok_store [OF ok _ inv le]
  from d show ?thesis
  proof (cases rule: dispatch_cases)
    case auth
    then show ?thesis using session_ok_auth ok P by blast
  next
    case sign
    show ?thesis by (rule st [OF op_sign_doc_session [OF sign(2), symmetric]])
  next
    case get
    show ?thesis by (rule st [OF op_get_public_key_session [OF get(2), symmetric]])
  next
    case unknown
    with ok show ?thesis by simp
  next
    case logout
    with ok show ?thesis by (auto simp: op_logout_run session_ok_def)
  next
    case change
    from op_change_password_session [OF change(2)] show ?thesis
    proof (elim disjE exE)
      fix pw salt
      assume ss: "sv_session t = (sv_session s)\<lparr>ss_key := pbkdf2 P pw salt KS_PBKDF2_ITERS 32, ss_must_change := 0\<rparr>"
      have "ss_is_authenticated (sv_session s) = 1"
      proof (rule ccontr)
        assume "ss_is_authenticated (sv_session s) \<noteq> 1"
        with change(2) have "t = s" by (auto simp: op_change_password_def session_run raise_run)
        with ss ok \<open>ss_is_authenticated (sv_session s) \<noteq> 1\<close> None change(1) show False
          by (auto simp: session_ok_def session_wf_def gate_def)
      qed
      with ss ok inv le names_kept [OF le] tomb_leD [OF le] P show ?thesis
        by (auto simp: session_ok_def session_wf_def pbkdf2_spec_def)
    qed (rule st)
  next
    case create
    from op_create_keys_session [OF create(2)] show ?thesis
    proof (elim disjE exE conjE)
      fix d
      assume "auth_get_deleted (ss_username (sv_session s)) s = (Inr d, s)" "d \<noteq> 0"
        "t = s\<lparr>sv_session := (sv_session s)\<lparr>ss_deleted := 1\<rparr>\<rparr>" "ss_is_authenticated (sv_session s) = 1"
      with ok show ?thesis by (auto simp: session_ok_def session_wf_def dest: get_deleted_tomb)
    qed (rule st)
  next
    case delete
    from op_delete_keys_session [OF delete(2)] show ?thesis
    proof (elim disjE exE conjE)
      fix u
      assume u: "ks_delete_keys (ss_username (sv_session s)) s = (Inr (), u)"
        and t: "t = u\<lparr>sv_session := (sv_session s)\<lparr>ss_deleted := 1\<rparr>\<rparr>" "ss_is_authenticated (sv_session s) = 1"
      have "tomb u (ss_username (sv_session s))" using delete_keys_tomb [OF u] .
      with t ok inv names_kept [OF le] show ?thesis by (auto simp: session_ok_def session_wf_def)
    qed (rule st)
  qed
qed

section \<open>A connection\<close>

text \<open>
  What holds across every operation holds across the whole connection: receiving and sending
  involve the socket, the random source and the replay cache only.
\<close>

locale connection = net_frame R
    for R :: "'r server_env_scheme \<Rightarrow> 'r server_env_scheme \<Rightarrow> bool" +
  fixes P :: "'p platform_scheme"
  assumes frame_answer: "within R (server_answer P pt)"
    and frame_cache: "R s (s\<lparr>sv_cache := c\<rparr>)"
    and frame_close: "R s (s\<lparr>sv_session := session_clear\<rparr>)"
begin

lemma within_receive_request: "within R (server_receive P fd key)"
proof -
  have "within R (server_check_replay nonce)" for nonce
    by (auto simp: within_def server_check_replay_def frame_cache split: prod.split)
  then show ?thesis
    unfolding server_receive_def Let_def
    by (intro within_bind within_receive frame_rx within_case_prod within_if within_then) auto
qed

lemma within_step: "within R (server_step P fd key_in key_out)"
  unfolding server_step_def
  by (intro within_bind within_receive_request within_case_prod frame_answer within_then
      within_send_response frame_rpos frame_tx within_ret)

lemma loop_within: "server_loop P fd key_in key_out s = (log, t) \<Longrightarrow> R s t"
proof (induction "rx_size (w_rx s)" arbitrary: s log rule: less_induct)
  case less
  obtain r u where st: "server_step P fd key_in key_out s = (r, u)" by fastforce
  have Rs: "R s u" using withinD [OF within_step st] .
  show ?case
  proof (cases r)
    case (Inl e)
    with less.prems st Rs show ?thesis by (simp add: server_loop.simps [of P fd key_in key_out s])
  next
    case (Inr x)
    with less.prems st obtain log' where "server_loop P fd key_in key_out u = (log', t)"
      by (auto simp: server_loop.simps [of P fd key_in key_out s] split: prod.splits)
    with less.hyps server_step_consumes [of P fd key_in key_out s x u] st Inr have "R u t" by blast
    with Rs show ?thesis by (rule frame_trans)
  qed
qed

lemma within_handshake: "within R (server_handshake P fd)"
  unfolding server_handshake_def hs_recv_chlo_def hs_recv_frame_def hs_gen_ecdh_keypair_def
    hs_sign_transcript_def hs_send_shlo_def hs_send_frame_def hs_compute_shared_def
    hs_derive_keys_def hs_hkdf_extract_expand_def hs_hkdf_extract_def hs_hkdf_expand_def Let_def
  by (intro within_bind within_if within_then within_or_raise within_case_prod within_case_option
      within_raise within_ret within_lib_call within_lib_calls within_open_read net_prims)

lemma within_replay_init: "within R server_replay_init"
proof -
  have "R s (s\<lparr>sv_cache := c, w_tick := k\<rparr>)" for s c k by (rule frame_trans [OF frame_cache frame_tick])
  then show ?thesis by (auto simp: within_def server_replay_init_def split: prod.split)
qed

lemma serve_within:
  assumes "server_serve P fd s = (log, t)"
  shows "R s t"
proof -
  obtain r u where h: "server_handshake P fd s = (r, u)" by fastforce
  have Ru: "R s u" using withinD [OF within_handshake h] .
  obtain log' v where v: "(case r of Inl _ \<Rightarrow> ([], u)
      | Inr (c2s_key, s2c_key) \<Rightarrow> (case server_replay_init u of
          (Inl _, w) \<Rightarrow> ([], w) | (Inr _, w) \<Rightarrow> server_loop P fd c2s_key s2c_key w)) = (log', v)"
    by fastforce
  have "R u v"
  proof (cases r)
    case (Inl e)
    with v frame_refl show ?thesis by simp
  next
    case (Inr ks)
    obtain ri w where i: "server_replay_init u = (ri, w)" by fastforce
    have Rw: "R u w" using withinD [OF within_replay_init i] .
    show ?thesis
    proof (cases ri)
      case (Inl e)
      with v Inr i Rw show ?thesis by (simp split: prod.splits)
    next
      case ok: (Inr x)
      obtain k1 k2 where ks: "ks = (k1, k2)" by fastforce
      have "server_loop P fd k1 k2 w = (log', v)" using v Inr i ok ks by simp
      then have "R w v" by (rule loop_within)
      with Rw show ?thesis by (rule frame_trans)
    qed
  qed
  moreover have "R v t"
  proof -
    have "t = v\<lparr>sv_session := session_clear, sv_cache := replay_free (sv_cache v)\<rparr>"
      using assms h v by (cases r) (auto simp: server_serve_def Let_def split: prod.splits)
    then show ?thesis using frame_trans [OF frame_close frame_cache] by simp
  qed
  ultimately show ?thesis using Ru frame_trans by blast
qed

end

interpretation conn_tombs: connection tomb_le P for P
  by unfold_locales auto

interpretation conn_calm: connection "\<lambda>s t. w_fault s = w_fault t" P for P
  by unfold_locales auto

lemma session_ok_env [simp]:
  "session_ok (s\<lparr>w_tick := k\<rparr>) = session_ok s" "session_ok (s\<lparr>w_rpos := p\<rparr>) = session_ok s"
  "session_ok (s\<lparr>w_rx := es\<rparr>) = session_ok s" "session_ok (s\<lparr>w_plan := pl, w_tx := b\<rparr>) = session_ok s"
  "session_ok (s\<lparr>sv_cache := c\<rparr>) = session_ok s"
  by (simp_all add: session_ok_def auth_inv_def tomb_def)

lemma session_ok_cleared: "session_ok s \<Longrightarrow> session_ok (s\<lparr>sv_session := session_clear\<rparr>)"
  by (simp add: session_ok_def)

lemma answer_session_ok: "within (\<lambda>s t. pbkdf2_spec P \<and> session_ok s \<longrightarrow> session_ok t) (server_answer P pt)"
proof (rule withinI)
  fix s t :: "'a server_env_scheme" and r assume "server_answer P pt s = (r, t)"
  then obtain r' where "server_handle P pt s = (r', t)"
    by (auto simp: server_answer_def io_def split: prod.splits sum.splits)
  then show "pbkdf2_spec P \<and> session_ok s \<longrightarrow> session_ok t" using session_ok_handle by blast
qed

interpretation conn_session: connection "\<lambda>s t. pbkdf2_spec P \<and> session_ok s \<longrightarrow> session_ok t" P for P
  by unfold_locales (auto simp: session_ok_cleared intro: answer_session_ok)

end
