(* ===== verification/ServerProps.thy ===== *)
theory ServerProps
  imports Sessions
begin

text \<open>
  The properties of the server: who may change what, what a login needs, what a tombstone means,
  and the invariants of the request loop.
\<close>

section \<open>A sample server\<close>

definition sample_server :: "(bytes \<times> bytes) list \<Rightarrow> recv_event list \<Rightarrow> session_state \<Rightarrow> server_env" where
  "sample_server files rx ss = \<lparr>w_fault = (\<lambda>_. False), w_part = (\<lambda>_. 0), w_tick = 0, w_tape = of_nat,
     w_rpos = 0, w_files = files, w_dirs = [], w_rx = rx, w_plan = [], w_tx = [],
     g_users = [sample_user], g_users_cap = 8, g_db_path = Some SERVER_DB,
     sv_session = ss, sv_cache = replay_zero\<rparr>"

definition sample_session :: session_state where
  "sample_session = fresh_session (ascii ''bob'') 0 0 (Some (replicate 32 5))"

lemma sample_session_simps [simp]:
  "ss_is_authenticated sample_session = 1" "ss_username sample_session = ascii ''bob''"
  "ss_must_change sample_session = 0" "ss_deleted sample_session = 0"
  "ss_key sample_session = replicate 32 5" "ss_has_key sample_session = 1"
  by (simp_all add: sample_session_def fresh_session_def)

lemma sample_server_simps [simp]:
  "calm (sample_server files rx ss)" "g_users (sample_server files rx ss) = [sample_user]"
  "g_db_path (sample_server files rx ss) = Some SERVER_DB" "sv_session (sample_server files rx ss) = ss"
  "w_dirs (sample_server files rx ss) = []" "w_rx (sample_server files rx ss) = rx"
  "file_at (sample_server files rx ss) q = map_of files q" "auth_inv (sample_server files rx ss)"
  by (simp_all add: sample_server_def calm_def file_at_def auth_inv_def sample_user_ok)

lemma sample_username [simp]: "u_username sample_user = ascii ''bob''"
  by (simp add: sample_user_def)

lemma sample_session_ok: "session_ok (sample_server files rx sample_session)"
  by (simp add: session_ok_def session_wf_def sample_user_def)

lemma sample_clear_ok: "session_ok (sample_server files rx session_clear)"
  by (simp add: session_ok_def)

lemma key_files_not_db:
  "pub_file n \<noteq> SERVER_DB" "enc_file n \<noteq> SERVER_DB"
  "pub_file n \<noteq> SERVER_DB @ ascii ''.tmp''" "enc_file n \<noteq> SERVER_DB @ ascii ''.tmp''"
  by (simp_all add: pub_file_def enc_file_def key_dir_def KS_ROOT_def SERVER_DB_def ascii_def)

lemma set_deleted_calm:
  assumes "calm s" and "auth_inv s" and "g_db_path s = Some p" and "auth_find_user (g_users s) name = Some i"
    and "p @ ascii ''.tmp'' \<notin> set (w_dirs s)"
  shows "\<exists>t. auth_set_deleted name 1 s = (Inr (), t) \<and> w_dirs t = w_dirs s"
proof -
  let ?u = "auth_update_user i (with_deleted 1) s"
  have "auth_inv ?u" by (rule auth_inv_update) (use assms(2) user_ok_with(2) in auto)
  with assms obtain t where t: "auth_write_db p ?u = (Inr (), t)" using auth_write_db_calm [of ?u p] by auto
  then have "w_dirs t = w_dirs s" using auth_write_db_fields(4) [OF t] by simp
  with t assms(3,4) show ?thesis
    by (simp add: auth_set_deleted_def io_def with_deleted_def [abs_def] Let_def)
qed

lemma sample_delete:
  "\<exists>t. server_handle sample_platform [5] (sample_server [] [] sample_session) = (Inr [], t)"
proof -
  let ?s = "sample_server [] [] sample_session"
  have i: "auth_find_user (g_users ?s) (ascii ''bob'') = Some 0" by (simp add: sample_user_def)
  then obtain v where v: "auth_set_deleted (ascii ''bob'') 1 ?s = (Inr (), v)" "w_dirs v = []"
    using set_deleted_calm [of ?s SERVER_DB "ascii ''bob''" 0] by auto
  have "calm v"
    using withinD [OF auth_oracle.frame_tombstone v(1)] sample_server_simps(1) by (metis calm_def)
  moreover have "file_at v (pub_file (ascii ''bob'')) = None" "file_at v (enc_file (ascii ''bob'')) = None"
    using auth_set_deleted_other [OF v(1) sample_server_simps(3) key_files_not_db(1,3)]
      auth_set_deleted_other [OF v(1) sample_server_simps(3) key_files_not_db(2,4)] by simp_all
  ultimately have "\<exists>t. ks_delete_keys (ascii ''bob'') ?s = (Inr (), t)"
    using v sample_name_ok
    by (simp add: ks_delete_keys_def ks_build_user_paths_eq ks_remove_if_there_def ks_file_exists_def
        path_exists_def rmdir_def io_def)
  then show ?thesis
    by (auto simp: server_handle_gate gate_def dispatch_def opcode_of_def op_delete_keys_def session_run
        set_session_def io_def Let_def)
qed

section \<open>Who may change what\<close>

text \<open>C2: Only an active session changes anything that is kept.  If handling a request changes the table
  of accounts or any file, the session was authenticated, had its key and was not deleted, and the
  request was a password change, or the creation or deletion of keys by a user who does not have
  to change the password first.\<close>

theorem only_active_sessions_write:
  assumes "server_handle P pt s = (r, t)"
    and "g_users t \<noteq> g_users s \<or> (\<exists>q. file_at t q \<noteq> file_at s q)"
  shows "ss_is_authenticated (sv_session s) = 1 \<and> ss_has_key (sv_session s) = 1 \<and>
    ss_deleted (sv_session s) \<noteq> 1 \<and>
    (pt ! 0 = opcode_val OP_CHANGE_PASSWORD \<or>
     ss_must_change (sv_session s) \<noteq> 1 \<and>
       (pt ! 0 = opcode_val OP_CREATE_KEYS \<or> pt ! 0 = opcode_val OP_DELETE_KEYS))"
proof -
  have "\<not> same_store s t" using assms(2) by (auto simp: same_store_def file_at_def)
  with unprivileged_same_store [OF assms(1)] show ?thesis by (auto simp: privileged_def active_def)
qed

theorem only_active_sessions_write_witness:
  "\<exists>t. server_handle sample_platform [5] (sample_server [] [] sample_session) = (Inr [], t) \<and>
     g_users t \<noteq> [sample_user] \<and> ss_is_authenticated sample_session = 1 \<and> ss_has_key sample_session = 1"
proof -
  let ?s = "sample_server [] [] sample_session"
  obtain t where t: "server_handle sample_platform [5] ?s = (Inr [], t)" using sample_delete by blast
  then have "op_delete_keys ?s = (Inr [], t)"
    by (auto simp: server_handle_gate gate_def dispatch_def opcode_of_def Let_def)
  from op_delete_keys_Inr [OF this] have "tomb t (ascii ''bob'')" by (auto dest: delete_keys_tomb)
  then have u: "g_users t \<noteq> [sample_user]" by (auto simp: tomb_def sample_user_def)
  with only_active_sessions_write [OF t] t show ?thesis by simp
qed

text \<open>C9: A request touches only what belongs to the session's user: that user's account and key
  files, and the file of the account database with its temporary copy.  No account is added,
  removed or renamed, whichever library call fails.\<close>

theorem request_touches_own_data:
  assumes "server_handle P pt s = (r, t)"
  shows "map u_username (g_users t) = map u_username (g_users s) \<and>
    (\<forall>i < length (g_users s). u_username (g_users s ! i) \<noteq> ss_username (sv_session s) \<longrightarrow>
       g_users t ! i = g_users s ! i) \<and>
    (\<forall>q. q \<noteq> pub_file (ss_username (sv_session s)) \<longrightarrow> q \<noteq> enc_file (ss_username (sv_session s)) \<longrightarrow>
       (\<forall>db. g_db_path s = Some db \<longrightarrow> q \<noteq> db \<and> q \<noteq> db @ ascii ''.tmp'') \<longrightarrow> file_at t q = file_at s q)"
proof -
  have "touches_only (ss_username (sv_session s)) s t"
    using assms dispatch_touches touches.frame_refl
    by (auto simp: server_handle_gate split: option.splits)
  then show ?thesis by (auto simp: touches_only_def own_files_def split: option.splits)
qed

theorem request_touches_own_data_witness:
  "\<exists>r t. server_handle sample_platform [5] (sample_server [(ascii ''other'', [1])] [] sample_session) = (r, t) \<and>
     file_at t (ascii ''other'') = Some [1]"
proof -
  let ?s = "sample_server [(ascii ''other'', [1])] [] sample_session"
  obtain r t where t: "server_handle sample_platform [5] ?s = (r, t)" by fastforce
  have "ascii ''other'' \<noteq> pub_file (ascii ''bob'')" "ascii ''other'' \<noteq> enc_file (ascii ''bob'')"
    "ascii ''other'' \<noteq> SERVER_DB" "ascii ''other'' \<noteq> SERVER_DB @ ascii ''.tmp''"
    by (simp_all add: pub_file_def enc_file_def key_dir_def KS_ROOT_def SERVER_DB_def ascii_def)
  with request_touches_own_data [OF t] t show ?thesis by simp
qed

text \<open>C3: Nobody is logged in without the password.  If handling a request leaves a session that is
  authenticated and was not before, or one for another user, the request was a well-formed
  \<open>OP_AUTH\<close>, the session's user is the user it names, that account exists, PBKDF2 of the password it
  carries is the account's stored hash, and the session has the account's flags.\<close>

theorem login_needs_the_password:
  assumes "server_handle P pt s = (r, t)" and "ss_is_authenticated (sv_session t) = 1"
    and "ss_is_authenticated (sv_session s) \<noteq> 1 \<or> ss_username (sv_session t) \<noteq> ss_username (sv_session s)"
  shows "pt ! 0 = opcode_val OP_AUTH \<and> auth_shape pt \<and> ss_username (sv_session t) = auth_name pt \<and>
    (\<exists>i. auth_find_user (g_users s) (auth_name pt) = Some i \<and>
       pbkdf2 P (auth_pw pt) (u_salt (g_users s ! i)) AUTH_PBKDF2_ITERS AUTH_HASH_LEN = u_hash (g_users s ! i) \<and>
       ss_must_change (sv_session t) = u_must_change (g_users s ! i) \<and>
       ss_deleted (sv_session t) = u_deleted (g_users s ! i))"
proof -
  have differ: "\<not> (ss_is_authenticated (sv_session t) = ss_is_authenticated (sv_session s) \<and>
      ss_username (sv_session t) = ss_username (sv_session s))" using assms(2,3) by auto
  then have "gate (sv_session s) (pt ! 0) = None"
    using assms(1) by (auto simp: server_handle_gate split: option.splits)
  then have "dispatch P pt s = (r, t)" using assms(1) by (simp add: server_handle_gate)
  then show ?thesis
  proof (cases rule: dispatch_cases)
    case auth
    from op_auth_run [OF auth(2)] show ?thesis
    proof (elim disjE exE conjE)
      fix mc del u key k
      assume v: "auth_verify_password P (auth_name pt) (auth_pw pt) s = (Inr (mc, del), u)"
        and sh: "auth_shape pt" and t: "t = s\<lparr>sv_session := fresh_session (auth_name pt) mc del key, w_tick := k\<rparr>"
      have pw: "cstr (auth_pw pt) = auth_pw pt" by (simp add: auth_pw_def Let_def)
      have "ss_username (sv_session t) = auth_name pt" "ss_must_change (sv_session t) = mc"
        "ss_deleted (sv_session t) = del"
        by (auto simp: t fresh_session_def Let_def split: option.split)
      with auth_verify_password_run(2) [OF v refl] sh auth(1) pw show ?thesis by auto
    qed (use differ in auto)
  next
    case change
    with op_change_password_session [OF change(2)] differ show ?thesis by auto
  next
    case create
    with op_create_keys_session [OF create(2)] differ show ?thesis by auto
  next
    case sign
    with op_sign_doc_session [OF sign(2)] differ show ?thesis by auto
  next
    case get
    with op_get_public_key_session [OF get(2)] differ show ?thesis by auto
  next
    case delete
    with op_delete_keys_session [OF delete(2)] differ show ?thesis by auto
  next
    case logout
    with assms(2) show ?thesis by (auto simp: op_logout_run)
  next
    case unknown
    with differ show ?thesis by simp
  qed
qed

definition sample_login :: bytes where
  "sample_login = 0 # 3 # ascii ''bob'' @ 2 # ascii ''pw''"

lemma sample_login_parts:
  "sample_login ! 0 = 0" "auth_shape sample_login" "auth_name sample_login = ascii ''bob''"
  "auth_pw sample_login = ascii ''pw''" "cstr (ascii ''pw'') = ascii ''pw''"
  by (simp_all add: sample_login_def auth_shape_def auth_name_def auth_pw_def cstr_def ascii_def Let_def)

lemma sample_login_from:
  assumes "calm s" and "g_users s = [sample_user]" and "sv_session s = session_clear"
  shows "\<exists>t. server_handle sample_platform sample_login s = (Inr [0, 0], t) \<and>
     ss_is_authenticated (sv_session t) = 1 \<and> ss_username (sv_session t) = ascii ''bob''"
proof -
  have h: "server_handle sample_platform sample_login s = op_auth sample_platform sample_login s"
    by (simp add: server_handle_gate gate_def dispatch_def opcode_of_def sample_login_parts session_clear_def assms(3))
  have v: "auth_verify_password sample_platform (ascii ''bob'') (ascii ''pw'') s =
      (Inr (0, 0), s\<lparr>w_tick := Suc (w_tick s)\<rparr>)"
    unfolding auth_verify_password_calm [OF assms(1)] assms(2)
    by (simp add: sample_login_parts sample_user_def AUTH_PBKDF2_ITERS_def AUTH_HASH_LEN_def)
  let ?u = "s\<lparr>w_tick := Suc (w_tick s), sv_session := session_clear\<lparr>ss_is_authenticated := 1,
      ss_must_change := 0, ss_deleted := 0, ss_username := ascii ''bob''\<rparr>\<rparr>"
  have "calm ?u" using assms(1) by (simp add: calm_def)
  from ks_derive_session_key_calm [OF this sample_name_ok, of sample_platform "ascii ''pw''"] obtain key k where
    d: "ks_derive_session_key sample_platform (ascii ''bob'') (ascii ''pw'') ?u = (Inr key, ?u\<lparr>w_tick := k\<rparr>)"
    by auto
  have "\<not> w_fault ?u k" using \<open>calm ?u\<close> by (simp add: calm_def)
  then show ?thesis
    unfolding h op_auth_eq using v d
    by (simp add: sample_login_parts io_def set_session_def lib_call_def)
qed

theorem login_needs_the_password_witness:
  "\<exists>t. server_handle sample_platform sample_login (sample_server [] [] session_clear) = (Inr [0, 0], t) \<and>
     ss_is_authenticated (sv_session t) = 1 \<and> sample_login ! 0 = opcode_val OP_AUTH \<and>
     (\<exists>i. auth_find_user [sample_user] (auth_name sample_login) = Some i)"
proof -
  obtain t where t: "server_handle sample_platform sample_login (sample_server [] [] session_clear) = (Inr [0, 0], t)"
    "ss_is_authenticated (sv_session t) = 1" using sample_login_from [of "sample_server [] [] session_clear"] by auto
  from login_needs_the_password [OF t] t show ?thesis by (auto simp: sample_login_parts)
qed

text \<open>C8: A deleted account gets no keys and no signatures.  While the account of the session's user
  carries a tombstone, creating keys and signing fail, whatever the session says about the account
  and whatever key files exist, and no account or file changes.\<close>

theorem deleted_account_is_dead:
  assumes "auth_inv s" and "tomb s (ss_username (sv_session s))"
    and "pt ! 0 = opcode_val OP_CREATE_KEYS \<or> pt ! 0 = opcode_val OP_SIGN_DOC"
    and "server_handle P pt s = (r, t)"
  shows "(\<exists>e. r = Inl e) \<and> g_users t = g_users s \<and> (\<forall>q. file_at t q = file_at s q)"
proof -
  obtain d where d: "auth_get_deleted (ss_username (sv_session s)) s = (Inr d, s)" "d \<noteq> 0"
    using tomb_get_deleted [OF assms(1,2)] by blast
  have c: "(\<exists>e. r = Inl e) \<and> same_store s t" if "op_create_keys P s = (r, t)"
    using that d same_store.frame_refl [of s]
    by (auto simp: op_create_keys_def session_run io_def set_session_def same_store_def split: if_splits)
  have g: "(\<exists>e. r = Inl e) \<and> same_store s t" if "op_sign_doc P pt s = (r, t)"
    using that d same_store.frame_refl [of s]
    by (auto simp: op_sign_doc_def ks_sign_doc_session_def session_run io_def split: if_splits)
  have "(\<exists>e. r = Inl e) \<and> same_store s t"
  proof (cases "gate (sv_session s) (pt ! 0)")
    case (Some e)
    with assms(4) same_store.frame_refl [of s] show ?thesis by (auto simp: server_handle_gate)
  next
    case None
    then have "dispatch P pt s = (r, t)" using assms(4) by (simp add: server_handle_gate)
    then show ?thesis using c g assms(3) by (cases rule: dispatch_cases) (auto simp: opcode_of_def)
  qed
  then show ?thesis by (auto simp: same_store_def file_at_def)
qed

definition sample_dead :: server_env where
  "sample_dead = (sample_server [] [] sample_session)\<lparr>g_users := [sample_user\<lparr>u_deleted := 1\<rparr>]\<rparr>"

lemma sample_dead_facts: "auth_inv sample_dead" "tomb sample_dead (ascii ''bob'')"
  "sv_session sample_dead = sample_session" "g_users sample_dead = [sample_user\<lparr>u_deleted := 1\<rparr>]"
  using sample_user_ok
  by (simp_all add: sample_dead_def auth_inv_def tomb_def user_ok_def sample_server_def)

theorem deleted_account_is_dead_witness:
  "\<exists>e t. server_handle sample_platform [3, 1] sample_dead = (Inl e, t) \<and> g_users t = g_users sample_dead"
proof -
  obtain r t where t: "server_handle sample_platform [3, 1] sample_dead = (r, t)" by fastforce
  have "tomb sample_dead (ss_username (sv_session sample_dead))" by (simp add: sample_dead_facts)
  from deleted_account_is_dead [OF sample_dead_facts(1) this _ t] t show ?thesis by auto
qed

section \<open>Whole connections\<close>

text \<open>C25: Nothing a client sends brings an account back or takes one away.  Over a whole connection,
  handshake, any number of requests and cleanup, whatever arrives on the socket and whichever
  library call fails, the accounts keep their names and order and a tombstone once set stays set.\<close>

theorem tombstones_are_permanent:
  "map u_username (g_users (snd (server_serve P fd s))) = map u_username (g_users s) \<and>
   (tomb s name \<longrightarrow> tomb (snd (server_serve P fd s)) name)"
proof -
  obtain log t where r: "server_serve P fd s = (log, t)" by fastforce
  note le = conn_tombs.serve_within [OF this]
  then have "map u_username (g_users t) = map u_username (g_users s)" by (simp add: tomb_le_def)
  with r tomb_leD [OF le] show ?thesis by simp
qed

theorem tombstones_are_permanent_witness:
  "tomb (snd (server_serve sample_platform 4 sample_dead)) (ascii ''bob'')"
  using tombstones_are_permanent [of sample_platform 4 sample_dead "ascii ''bob''"] sample_dead_facts by simp

text \<open>C10: The loop keeps sessions meaningful: after any number of requests the table of accounts is well
  formed, an authenticated session names an existing account, has flags that are 0 or 1 and a
  32-byte key, an unauthenticated one is blank, and one marked deleted belongs to a tombstone.\<close>

theorem loop_keeps_sessions:
  assumes "pbkdf2_spec P" and "session_ok s" and "server_loop P fd key_in key_out s = (log, t)"
  shows "auth_inv t \<and> (ss_is_authenticated (sv_session t) = 0 \<and> sv_session t = session_clear \<or>
    ss_is_authenticated (sv_session t) = 1 \<and> ss_username (sv_session t) \<in> u_username ` set (g_users t) \<and>
    ss_must_change (sv_session t) \<in> {0, 1} \<and> ss_has_key (sv_session t) \<in> {0, 1} \<and>
    length (ss_key (sv_session t)) = 32 \<and>
    (ss_deleted (sv_session t) = 0 \<or> ss_deleted (sv_session t) = 1 \<and> tomb t (ss_username (sv_session t))))"
proof -
  have "session_ok t" using conn_session.loop_within [OF assms(3)] assms(1,2) by blast
  then show ?thesis by (auto simp: session_ok_def session_wf_def)
qed

theorem loop_keeps_sessions_witness:
  "\<exists>log t. server_loop sample_platform 4 [] [] (sample_server [] [R_data [1, 2, 3]] sample_session) = (log, t) \<and> auth_inv t"
proof -
  obtain log t where l: "server_loop sample_platform 4 [] [] (sample_server [] [R_data [1, 2, 3]] sample_session) = (log, t)"
    by fastforce
  from loop_keeps_sessions [OF sample_pbkdf2_spec sample_session_ok l] l show ?thesis by blast
qed

text \<open>C31: The server answers at most one request for every 24 bytes it is sent, so for every finite
  input the loop ends, with a request that cannot be received, authenticated or answered.\<close>

theorem answers_are_bounded:
  "24 * length (fst (server_loop P fd key_in key_out s)) \<le> rx_size (w_rx s)"
proof (induction "rx_size (w_rx s)" arbitrary: s rule: less_induct)
  case less
  obtain r u where st: "server_step P fd key_in key_out s = (r, u)" by fastforce
  show ?case
  proof (cases r)
    case (Inl e)
    with st show ?thesis by (simp add: server_loop.simps [of P fd key_in key_out s])
  next
    case (Inr x)
    have c: "rx_size (w_rx u) + 24 \<le> rx_size (w_rx s)" using server_step_consumes24 st Inr by blast
    then have "24 * length (fst (server_loop P fd key_in key_out u)) \<le> rx_size (w_rx u)"
      by (intro less.hyps) simp
    moreover have "fst (server_loop P fd key_in key_out s) = x # fst (server_loop P fd key_in key_out u)"
      using st Inr by (simp add: server_loop.simps [of P fd key_in key_out s] split: prod.split)
    ultimately show ?thesis using c by simp
  qed
qed

end
