(* ===== verification/Exchange.thy ===== *)
theory Exchange
  imports Client ServerProps
begin

text \<open>
  The two ends of a connection together: what the client of \<^verbatim>\<open>client/main.c\<close> sends is what the
  server of \<^verbatim>\<open>server/main.c\<close> receives, and back.  Both directions use the same sealed packet.
\<close>

section \<open>Sealed packets\<close>

definition sealed_packet ::
  "'p platform_scheme \<Rightarrow> bytes \<Rightarrow> bytes \<Rightarrow> bytes \<Rightarrow> bytes \<Rightarrow> dss_header \<times> bytes option" where
  "sealed_packet P key nonce iv pt =
     (let h = \<lparr>hdr_req_nonce = nonce, hdr_payload_len = htonl P (of_nat (28 + length pt))\<rparr> in
      case gcm_encrypt P key iv (dsspacket_build_aad h) pt of (ct, tag) \<Rightarrow> (h, Some (iv @ tag @ ct)))"

definition sealed_ok :: "bytes \<Rightarrow> bytes \<Rightarrow> bytes \<Rightarrow> bool" where
  "sealed_ok nonce iv pt \<longleftrightarrow> length nonce = REQ_NONCE_LEN \<and> length iv = GCM_IV_LEN \<and> 0 < length pt \<and>
     28 + length pt \<le> 10485760"

lemma sealed_parts:
  assumes "gcm_spec P" and "sealed_ok nonce iv pt" and "sealed_packet P key nonce iv pt = (h, p)"
  shows "packet_ok P (h, p)" and "hdr_req_nonce h = nonce" and "unat (ntohl P (hdr_payload_len h)) = 28 + length pt"
    and "\<exists>d. p = Some d \<and> length d = 28 + length pt \<and> take GCM_IV_LEN d = iv \<and>
      gcm_decrypt P key iv (dsspacket_build_aad h) (drop (GCM_IV_LEN + GCM_TAG_LEN) d)
        (take GCM_TAG_LEN (drop GCM_IV_LEN d)) = Some pt"
proof -
  define h' where "h' = \<lparr>hdr_req_nonce = nonce, hdr_payload_len = htonl P (of_nat (28 + length pt))\<rparr>"
  obtain ct tag where e: "gcm_encrypt P key iv (dsspacket_build_aad h') pt = (ct, tag)" by fastforce
  note g = gcm_specD [OF assms(1) e]
  have h: "h = h'" "p = Some (iv @ tag @ ct)"
    using assms(3) e by (simp_all add: sealed_packet_def h'_def Let_def)
  have n: "ntohl P (hdr_payload_len h) = of_nat (28 + length pt)" by (simp add: h h'_def)
  have b: "28 + length pt < 2 ^ 32" using assms(2) by (simp add: sealed_ok_def)
  show u: "unat (ntohl P (hdr_payload_len h)) = 28 + length pt"
    unfolding n by (rule unat_of_nat_32 [OF b])
  have lens: "length iv = 12" "length tag = 16" "length nonce = 16"
    using assms(2) g(2) by (simp_all add: sealed_ok_def GCM_IV_LEN_def GCM_TAG_LEN_def REQ_NONCE_LEN_def)
  show "packet_ok P (h, p)"
    using assms(2) u lens g(1) h
    by (simp add: packet_ok_def hdr_wf_def sealed_ok_def REQ_NONCE_LEN_def word_le_nat_alt max_payload_unat)
       (auto simp: h'_def)
  show "hdr_req_nonce h = nonce" by (simp add: h h'_def)
  show "\<exists>d. p = Some d \<and> length d = 28 + length pt \<and> take GCM_IV_LEN d = iv \<and>
      gcm_decrypt P key iv (dsspacket_build_aad h) (drop (GCM_IV_LEN + GCM_TAG_LEN) d)
        (take GCM_TAG_LEN (drop GCM_IV_LEN d)) = Some pt"
    using g lens h by (simp add: GCM_IV_LEN_def GCM_TAG_LEN_def)
qed

section \<open>Sending\<close>

lemma dsspacket_send_max:
  "dsspacket_send P fd h p s = (Inr u, t) \<Longrightarrow> unat (ntohl P (hdr_payload_len h)) \<le> 10485760"
  using payload_bound by (auto simp: dsspacket_send_def Let_def io_inv not_less split: if_splits)

lemma send_sealed_Inr:
  assumes "gcm_spec P" and "length nonce = REQ_NONCE_LEN" and "length iv = GCM_IV_LEN" and "0 < length pt"
    and "28 + length pt < 2 ^ 32" and h: "sealed_packet P key nonce iv pt = (h, p)"
    and run: "dsspacket_send P fd h p s = (Inr u, t)"
  shows "sealed_ok nonce iv pt \<and>
    (\<exists>es. t = s\<lparr>w_plan := es, w_tx := w_tx s @ packet_wire P (sealed_packet P key nonce iv pt)\<rparr>)"
proof -
  have "ntohl P (hdr_payload_len h) = of_nat (28 + length pt)"
    using h by (auto simp: sealed_packet_def Let_def split: prod.splits)
  then have "28 + length pt \<le> 10485760"
    using dsspacket_send_max [OF run] unat_of_nat_32 [OF assms(5)] by simp
  then have ok: "sealed_ok nonce iv pt" using assms(2-4) by (simp add: sealed_ok_def)
  from dsspacket_send_Inr [OF sealed_parts(1) [OF assms(1) ok h] run] ok h show ?thesis by simp
qed

lemma send_request_Inr:
  assumes "gcm_spec P" and run: "send_request P fd key opc pt s = (Inr u, t)"
  shows "\<exists>nonce iv. sealed_ok nonce iv (opcode_val opc # pt) \<and>
    w_tx t = w_tx s @ packet_wire P (sealed_packet P key nonce iv (opcode_val opc # pt))"
proof -
  let ?pt = "opcode_val opc # pt"
  from run obtain nonce s1 s2 iv s3 ct tag s4 where
    n: "rand_bytes () REQ_NONCE_LEN s = (Inr nonce, s1)" and l: "lib_calls 2 () s1 = (Inr (), s2)" and
    iv: "rand_bytes () GCM_IV_LEN s2 = (Inr iv, s3)" and
    e: "sc_aead_encrypt P key iv (dsspacket_build_aad \<lparr>hdr_req_nonce = nonce,
          hdr_payload_len = htonl P (of_nat (28 + length ?pt))\<rparr>) ?pt s3 = (Inr (ct, tag), s4)" and
    snd: "dsspacket_send P fd \<lparr>hdr_req_nonce = nonce, hdr_payload_len = htonl P (of_nat (28 + length ?pt))\<rparr>
          (Some (iv @ tag @ ct)) s4 = (Inr u, t)" and b: "28 + length ?pt < 2 ^ 32"
    by (auto simp: send_request_def io_inv Let_def GCM_IV_LEN_def GCM_TAG_LEN_def UINT32_MAX_def
        simp del: lib_calls.simps split: if_splits prod.splits)
  have sp: "sealed_packet P key nonce iv ?pt = (\<lparr>hdr_req_nonce = nonce,
      hdr_payload_len = htonl P (of_nat (28 + length ?pt))\<rparr>, Some (iv @ tag @ ct))"
    using sc_aead_encrypt_Inr [OF e] by (auto simp: sealed_packet_def Let_def split: prod.splits)
  from send_sealed_Inr [OF assms(1) rand_bytes_length [OF n] rand_bytes_length [OF iv] _ b sp snd]
    rand_bytes_run [OF n] lib_calls_run [OF l] rand_bytes_run [OF iv] sc_aead_encrypt_Inr [OF e]
  show ?thesis by (intro exI [where x = nonce] exI [where x = iv]) auto
qed

text \<open>In a working environment, a request that does not get through leaves a proper beginning of its packet.\<close>

lemma send_request_partial:
  assumes "gcm_spec P" and "calm s" and "0 \<le> fd" and "29 + length pt \<le> 10485760"
    and run: "send_request P fd key opc pt s = (Inl e, t)"
  shows "\<exists>y n. packet_ok P y \<and> n < length (packet_wire P y) \<and> w_tx t = w_tx s @ take n (packet_wire P y)"
proof -
  let ?pt = "opcode_val opc # pt"
  define nonce where "nonce = map (w_tape s) [w_rpos s ..< w_rpos s + REQ_NONCE_LEN]"
  let ?s1 = "s\<lparr>w_tick := Suc (w_tick s) + 2, w_rpos := w_rpos s + REQ_NONCE_LEN\<rparr>"
  let ?h = "\<lparr>hdr_req_nonce = nonce, hdr_payload_len = htonl P (of_nat (28 + length ?pt))\<rparr>"
  define iv where "iv = map (w_tape ?s1) [w_rpos ?s1 ..< w_rpos ?s1 + GCM_IV_LEN]"
  let ?s2 = "?s1\<lparr>w_tick := Suc (w_tick ?s1), w_rpos := w_rpos ?s1 + GCM_IV_LEN\<rparr>"
  obtain ct tag where e: "gcm_encrypt P key iv (dsspacket_build_aad ?h) ?pt = (ct, tag)" by fastforce
  have "length (dsspacket_build_aad ?h) \<le> INT_MAX"
    by (simp add: length_build_aad hdr_wf_def DSSPACKET_AAD_LEN_def INT_MAX_def nonce_def REQ_NONCE_LEN_def)
  moreover have "calm ?s1" "calm ?s2" "length ?pt \<le> INT_MAX" using assms(2,4) by (simp_all add: INT_MAX_def)
  ultimately obtain k where
    a: "sc_aead_encrypt P key iv (dsspacket_build_aad ?h) ?pt ?s2 = (Inr (ct, tag), ?s2\<lparr>w_tick := k\<rparr>)"
    using sc_aead_encrypt_calm [of ?s2 "dsspacket_build_aad ?h" ?pt P key iv] e by auto
  have iv: "rand_bytes () GCM_IV_LEN ?s1 = (Inr iv, ?s2)"
    using \<open>calm ?s1\<close> by (simp only: rand_bytes_calm iv_def)
  have ok: "sealed_ok nonce iv ?pt" using assms(4) by (simp add: sealed_ok_def iv_def nonce_def)
  have sp: "sealed_packet P key nonce iv ?pt = (?h, Some (iv @ tag @ ct))"
    using e by (simp add: sealed_packet_def Let_def)
  have "send_request P fd key opc pt s = or_raise () (dsspacket_send P fd ?h (Some (iv @ tag @ ct))) (?s2\<lparr>w_tick := k\<rparr>)"
    using assms(2,4) iv a
    by (simp add: send_request_def rand_bytes_calm io_def Let_def GCM_IV_LEN_def GCM_TAG_LEN_def UINT32_MAX_def
        nonce_def del: lib_calls.simps)
  with run obtain f where "dsspacket_send P fd ?h (Some (iv @ tag @ ct)) (?s2\<lparr>w_tick := k\<rparr>) = (Inl f, t)"
    by (auto simp: io_inv)
  with dsspacket_send_Inl [OF _ assms(3) this] sealed_parts(1) [OF assms(1) ok sp] show ?thesis by auto
qed

text \<open>The plaintext of a response.\<close>

definition response_text :: "byte \<Rightarrow> dss_status \<Rightarrow> bytes \<Rightarrow> bytes" where
  "response_text opc st data = opc # be16 (status_val st) @ be32 (of_nat (length data)) @ data"

lemma length_response_text: "length (response_text opc st data) = 7 + length data"
  by (simp add: response_text_def)

lemma send_response_Inr:
  assumes "gcm_spec P" and "length nonce = REQ_NONCE_LEN"
    and run: "send_encrypted_response P fd key opc nonce st data s = (Inr u, t)"
  shows "\<exists>iv. sealed_ok nonce iv (response_text opc st data) \<and> length data \<le> 65535 \<and>
    w_tx t = w_tx s @ packet_wire P (sealed_packet P key nonce iv (response_text opc st data))"
proof -
  let ?pt = "response_text opc st data"
  have pt: "opc # response_header_image P (htons P (status_val st)) (htonl P (of_nat (length data))) @ data = ?pt"
    by (simp add: response_text_def response_header_image_def)
  from run have d: "length data \<le> 65535"
    by (auto simp: send_encrypted_response_def raise_run split: if_splits)
  have n: "GCM_IV_LEN + GCM_TAG_LEN + (1 + sizeof_response_header + length data) = 28 + length ?pt"
    by (simp add: GCM_IV_LEN_def GCM_TAG_LEN_def sizeof_response_header_def length_response_text)
  from run obtain s1 iv s2 ct tag s3 where l: "lib_calls 2 () s = (Inr (), s1)" and
    iv: "rand_bytes () GCM_IV_LEN s1 = (Inr iv, s2)" and
    e: "sc_aead_encrypt P key iv (dsspacket_build_aad \<lparr>hdr_req_nonce = nonce,
          hdr_payload_len = htonl P (of_nat (28 + length ?pt))\<rparr>) ?pt s2 = (Inr (ct, tag), s3)" and
    snd: "dsspacket_send P fd \<lparr>hdr_req_nonce = nonce, hdr_payload_len = htonl P (of_nat (28 + length ?pt))\<rparr>
          (Some (iv @ tag @ ct)) s3 = (Inr u, t)"
    unfolding send_encrypted_response_def Let_def n pt
    by (auto simp: io_inv simp del: lib_calls.simps split: if_splits prod.splits)
  have sp: "sealed_packet P key nonce iv ?pt = (\<lparr>hdr_req_nonce = nonce,
      hdr_payload_len = htonl P (of_nat (28 + length ?pt))\<rparr>, Some (iv @ tag @ ct))"
    using sc_aead_encrypt_Inr [OF e] by (auto simp: sealed_packet_def Let_def split: prod.splits)
  have "0 < length ?pt" "28 + length ?pt < 2 ^ 32" using d by (simp_all add: length_response_text)
  from send_sealed_Inr [OF assms(1,2) rand_bytes_length [OF iv] this sp snd]
    lib_calls_run [OF l] rand_bytes_run [OF iv] sc_aead_encrypt_Inr [OF e] d
  show ?thesis by (intro exI [of _ iv]) auto
qed

section \<open>Receiving\<close>

text \<open>What receiving leaves alone at the server.\<close>

definition server_kept where
  "server_kept s = (sv_session s, g_users s, g_db_path s, w_files s, w_dirs s, w_plan s, w_tx s, w_fault s, g_users_cap s)"

interpretation transmitted: env_frame "\<lambda>s t. w_tx s = w_tx t"
  by unfold_locales auto

interpretation untouched_rx: env_frame "\<lambda>s t. (w_rx s, w_files s) = (w_rx t, w_files t)"
  by unfold_locales auto

interpretation untouched_state: env_frame
  "\<lambda>s t. (sv_session s, g_users s, w_files s) = (sv_session t, g_users t, w_files t)"
  by unfold_locales auto

interpretation receiving: env_frame "\<lambda>s t. (server_kept s, sv_cache s) = (server_kept t, sv_cache t)"
  by unfold_locales (auto simp: server_kept_def)

lemma open_sealed:
  assumes "gcm_spec P" and "calm s" and "sealed_ok nonce iv pt"
    and "pending_in s = packet_wire P (sealed_packet P key nonce iv pt) @ b"
  obtains h d u where "dsspacket_recv P (int fd) s = (Inr (h, Some d), u)" and "pending_in u = b" and "calm u"
    and "hdr_req_nonce h = nonce" and "unat (ntohl P (hdr_payload_len h)) = 28 + length pt"
    and "length d = 28 + length pt" and "length (dsspacket_build_aad h) \<le> INT_MAX"
    and "gcm_decrypt P key (take GCM_IV_LEN d) (dsspacket_build_aad h) (drop (GCM_IV_LEN + GCM_TAG_LEN) d)
        (take GCM_TAG_LEN (drop GCM_IV_LEN d)) = Some pt"
proof -
  obtain h p where sp: "sealed_packet P key nonce iv pt = (h, p)" by fastforce
  note sl = sealed_parts [OF assms(1,3) sp]
  from sl(4) obtain d where d: "p = Some d" "length d = 28 + length pt" "take GCM_IV_LEN d = iv"
    "gcm_decrypt P key iv (dsspacket_build_aad h) (drop (GCM_IV_LEN + GCM_TAG_LEN) d)
        (take GCM_TAG_LEN (drop GCM_IV_LEN d)) = Some pt" by blast
  from packet.receive_wire [OF sl(1) assms(2), of b fd] assms(4) sp obtain u where
    "dsspacket_recv P (int fd) s = (Inr (h, p), u)" "pending_in u = b" "calm u" by auto
  moreover have "length (dsspacket_build_aad h) \<le> INT_MAX"
    using sl(1) by (simp add: packet_ok_def length_build_aad DSSPACKET_AAD_LEN_def INT_MAX_def)
  ultimately show thesis using that sl(2,3) d by metis
qed

lemma server_receive_sealed:
  assumes "gcm_spec P" and "calm s" and "sealed_ok nonce iv pt" and "replay_inv (sv_cache s)"
    and "pending_in s = packet_wire P (sealed_packet P key nonce iv pt) @ b"
  shows "\<exists>t. server_receive P (int fd) key s = (Inr (nonce, pt), t) \<and> pending_in t = b \<and> calm t \<and>
    sv_cache t = snd (replay_check_and_add (sv_cache s) nonce) \<and> replay_inv (sv_cache t) \<and>
    server_kept t = server_kept s"
proof -
  obtain h d u where r: "dsspacket_recv P (int fd) s = (Inr (h, Some d), u)" "pending_in u = b" "calm u"
    and h: "hdr_req_nonce h = nonce" "unat (ntohl P (hdr_payload_len h)) = 28 + length pt"
      "length d = 28 + length pt" "length (dsspacket_build_aad h) \<le> INT_MAX"
    and g: "gcm_decrypt P key (take GCM_IV_LEN d) (dsspacket_build_aad h) (drop (GCM_IV_LEN + GCM_TAG_LEN) d)
        (take GCM_TAG_LEN (drop GCM_IV_LEN d)) = Some pt"
    by (rule open_sealed [OF assms(1-3,5), of fd])
  have k: "server_kept u = server_kept s" "sv_cache u = sv_cache s"
    using withinD [OF receiving.dsspacket_recv_within r(1)] by (simp_all add: server_kept_def)
  have "length nonce = REPLAY_NONCE_LEN"
    using assms(3) by (simp add: sealed_ok_def REQ_NONCE_LEN_def REPLAY_NONCE_LEN_def)
  from assms(4) this obtain rc c where c: "replay_check_and_add (sv_cache s) nonce = (rc, c)" "rc = 0 \<or> rc = 1"
    "replay_inv c" by (rule replay_step) blast
  let ?v = "u\<lparr>sv_cache := c\<rparr>"
  let ?ct = "drop (GCM_IV_LEN + GCM_TAG_LEN) d"
  let ?w = "?v\<lparr>w_tick := Suc (w_tick ?v)\<rparr>"
  have ct: "length ?ct = length pt" "0 < length ?ct" "length ?ct \<le> INT_MAX"
    using assms(3) h(3) by (simp_all add: sealed_ok_def GCM_IV_LEN_def GCM_TAG_LEN_def INT_MAX_def)
  have cw: "calm ?w" "calm ?v" using r(3) by (simp_all add: calm_def)
  obtain k' where dec: "sc_aead_decrypt P key (take GCM_IV_LEN d) (dsspacket_build_aad h) ?ct
      (take GCM_TAG_LEN (drop GCM_IV_LEN d)) ?w = (Inr pt, ?w\<lparr>w_tick := k'\<rparr>)"
    using sc_aead_decrypt_calm [OF cw(1) h(4) ct(3), of P key "take GCM_IV_LEN d" "take GCM_TAG_LEN (drop GCM_IV_LEN d)"] g
    by auto
  have "\<not> 28 + length pt < GCM_IV_LEN + GCM_TAG_LEN" by (simp add: GCM_IV_LEN_def GCM_TAG_LEN_def)
  then have "server_receive P (int fd) key s = (Inr (nonce, pt), ?w\<lparr>w_tick := k'\<rparr>)"
    using r(1) h(1,2) k(2) c(1,2) ct cw(2) dec
    by (auto simp: server_receive_def server_check_replay_def io_def Let_def)
  moreover have "pending_in (?w\<lparr>w_tick := k'\<rparr>) = b" using r(2) by (simp add: pending_in_def)
  ultimately show ?thesis
    using c k r(3) by (auto simp: server_kept_def calm_def)
qed

lemma recv_response_sealed:
  assumes "gcm_spec P" and "calm s" and "sealed_ok nonce iv (response_text (opcode_val opc) st data)"
    and "length data \<le> 65535"
    and "pending_in s = packet_wire P (sealed_packet P key nonce iv (response_text (opcode_val opc) st data)) @ b"
  shows "\<exists>t. recv_response P (int fd) key opc s = (Inr (status_val st, data), t) \<and> pending_in t = b \<and> calm t"
proof -
  let ?pt = "response_text (opcode_val opc) st data"
  obtain h d u where r: "dsspacket_recv P (int fd) s = (Inr (h, Some d), u)" "pending_in u = b" "calm u"
    and h: "unat (ntohl P (hdr_payload_len h)) = 28 + length ?pt"
      "length d = 28 + length ?pt" "length (dsspacket_build_aad h) \<le> INT_MAX"
    and g: "gcm_decrypt P key (take GCM_IV_LEN d) (dsspacket_build_aad h) (drop (GCM_IV_LEN + GCM_TAG_LEN) d)
        (take GCM_TAG_LEN (drop GCM_IV_LEN d)) = Some ?pt"
    by (rule open_sealed [OF assms(1-3,5), of fd])
  let ?ct = "drop (GCM_IV_LEN + GCM_TAG_LEN) d"
  let ?v = "u\<lparr>w_tick := Suc (w_tick u)\<rparr>"
  have ct: "length ?ct \<le> INT_MAX" using assms(4) h(2)
    by (simp add: length_response_text GCM_IV_LEN_def GCM_TAG_LEN_def INT_MAX_def)
  have cv: "calm ?v" using r(3) by simp
  obtain k where dec: "sc_aead_decrypt P key (take GCM_IV_LEN d) (dsspacket_build_aad h) ?ct
      (take GCM_TAG_LEN (drop GCM_IV_LEN d)) ?v = (Inr ?pt, ?v\<lparr>w_tick := k\<rparr>)"
    using sc_aead_decrypt_calm [OF cv h(3) ct, of P key "take GCM_IV_LEN d" "take GCM_TAG_LEN (drop GCM_IV_LEN d)"] g
    by auto
  have n: "unat (of_nat (length data) :: 32 word) = length data" using assms(4) by (simp add: unat_of_nat_32)
  have st: "ntohs P (load16 P (be16 (status_val st))) = status_val st"
    by (simp add: ntohs_def)
  have parts: "?pt ! 0 = opcode_val opc" "take 2 (drop (Suc 0) ?pt) = be16 (status_val st)"
    "take 4 (drop 3 ?pt) = be32 (of_nat (length data))" "drop 7 ?pt = data"
    by (simp_all add: response_text_def numeral_eq_Suc)
  let ?w = "?v\<lparr>w_tick := k\<rparr>"
  have "\<exists>t. parse_response P opc ?pt ?w = (Inr (status_val st, data), t) \<and> pending_in t = b \<and> calm t"
    using r(2) cv n
    by (auto simp: parse_response_def parts length_response_text st ntohl_load32 io_def Let_def)
  moreover have "\<not> 28 + length ?pt < GCM_IV_LEN + GCM_TAG_LEN" by (simp add: GCM_IV_LEN_def GCM_TAG_LEN_def)
  ultimately show ?thesis
    using r(1,3) h(1) dec by (simp add: recv_response_def io_def Let_def)
qed

section \<open>In a working environment\<close>

lemma send_sealed_calm:
  assumes "gcm_spec P" and "calm s" and "w_plan s = []" and "0 \<le> fd" and "length nonce = REQ_NONCE_LEN"
    and "0 < length pt" and "28 + length pt \<le> 10485760"
  shows "\<exists>t. bind_io (rand_bytes () GCM_IV_LEN) (\<lambda>iv.
      bind_io (sc_aead_encrypt P key iv (dsspacket_build_aad \<lparr>hdr_req_nonce = nonce,
          hdr_payload_len = htonl P (of_nat (28 + length pt))\<rparr>) pt) (\<lambda>(ct, tag).
      or_raise () (dsspacket_send P fd \<lparr>hdr_req_nonce = nonce,
          hdr_payload_len = htonl P (of_nat (28 + length pt))\<rparr> (Some (iv @ tag @ ct))))) s = (Inr (), t) \<and>
      w_tx t = w_tx s @ packet_wire P (sealed_packet P key nonce
        (map (w_tape s) [w_rpos s ..< w_rpos s + GCM_IV_LEN]) pt)"
proof -
  let ?h = "\<lparr>hdr_req_nonce = nonce, hdr_payload_len = htonl P (of_nat (28 + length pt))\<rparr>"
  define iv where "iv = map (w_tape s) [w_rpos s ..< w_rpos s + GCM_IV_LEN]"
  let ?s1 = "s\<lparr>w_tick := Suc (w_tick s), w_rpos := w_rpos s + GCM_IV_LEN\<rparr>"
  have iv: "rand_bytes () GCM_IV_LEN s = (Inr iv, ?s1)"
    using assms(2) by (simp add: rand_bytes_calm iv_def)
  obtain ct tag where e: "gcm_encrypt P key iv (dsspacket_build_aad ?h) pt = (ct, tag)" by fastforce
  have "length (dsspacket_build_aad ?h) \<le> INT_MAX"
    using assms(5) by (simp add: length_build_aad hdr_wf_def DSSPACKET_AAD_LEN_def INT_MAX_def)
  moreover have "calm ?s1" "length pt \<le> INT_MAX" using assms(2,7) by (simp_all add: INT_MAX_def)
  ultimately obtain k where
    a: "sc_aead_encrypt P key iv (dsspacket_build_aad ?h) pt ?s1 = (Inr (ct, tag), ?s1\<lparr>w_tick := k\<rparr>)"
    using sc_aead_encrypt_calm [of ?s1 "dsspacket_build_aad ?h" pt P key iv] e by auto
  have ok: "sealed_ok nonce iv pt" using assms(5-7) by (simp add: sealed_ok_def iv_def)
  have sp: "sealed_packet P key nonce iv pt = (?h, Some (iv @ tag @ ct))"
    using e by (simp add: sealed_packet_def Let_def)
  from dsspacket_send_room [OF sealed_parts(1) [OF assms(1) ok sp] assms(4), of "?s1\<lparr>w_tick := k\<rparr>"] assms(3)
  show ?thesis using iv a sp by (simp add: io_def flip: iv_def)
qed

lemma send_request_calm:
  assumes "gcm_spec P" and "calm s" and "w_plan s = []" and "0 \<le> fd" and "29 + length pt \<le> 10485760"
  shows "\<exists>t. send_request P fd key opc pt s = (Inr (), t) \<and>
    w_tx t = w_tx s @ packet_wire P (sealed_packet P key (map (w_tape s) [w_rpos s ..< w_rpos s + REQ_NONCE_LEN])
      (map (w_tape s) [w_rpos s + REQ_NONCE_LEN ..< w_rpos s + REQ_NONCE_LEN + GCM_IV_LEN]) (opcode_val opc # pt))"
proof -
  let ?pt = "opcode_val opc # pt"
  define nonce where "nonce = map (w_tape s) [w_rpos s ..< w_rpos s + REQ_NONCE_LEN]"
  let ?s1 = "s\<lparr>w_tick := Suc (w_tick s) + 2, w_rpos := w_rpos s + REQ_NONCE_LEN\<rparr>"
  have "calm ?s1" "w_plan ?s1 = []" "length nonce = REQ_NONCE_LEN" "28 + length ?pt \<le> 10485760"
    using assms by (simp_all add: nonce_def)
  from send_sealed_calm [OF assms(1) this(1,2) assms(4) this(3) _ this(4), of key] show ?thesis
    using assms(2,5)
    by (simp add: send_request_def rand_bytes_calm io_def Let_def GCM_IV_LEN_def GCM_TAG_LEN_def UINT32_MAX_def
        nonce_def del: lib_calls.simps)
qed

lemma send_response_calm:
  assumes "gcm_spec P" and "calm s" and "w_plan s = []" and "0 \<le> fd" and "length nonce = REQ_NONCE_LEN"
    and "length data \<le> 65535"
  shows "\<exists>t. send_encrypted_response P fd key opc nonce st data s = (Inr (), t)"
proof -
  let ?pt = "response_text opc st data"
  let ?s1 = "s\<lparr>w_tick := w_tick s + 2\<rparr>"
  have pt: "opc # response_header_image P (htons P (status_val st)) (htonl P (of_nat (length data))) @ data = ?pt"
    by (simp add: response_text_def response_header_image_def)
  have n: "GCM_IV_LEN + GCM_TAG_LEN + (1 + sizeof_response_header + length data) = 28 + length ?pt"
    by (simp add: GCM_IV_LEN_def GCM_TAG_LEN_def sizeof_response_header_def length_response_text)
  have "0 < length ?pt" "28 + length ?pt \<le> 10485760" "\<not> 28 + length ?pt > UINT32_MAX"
    using assms(6) by (simp_all add: length_response_text UINT32_MAX_def)
  then show ?thesis
    using send_sealed_calm [OF assms(1) _ _ assms(4,5), of ?s1 ?pt key] assms(2,3,6)
    unfolding send_encrypted_response_def Let_def n pt
    by (auto simp: io_def simp del: lib_calls.simps)
qed

definition sample_ready :: "recv_event list \<Rightarrow> server_env" where
  "sample_ready rx = (sample_server [] rx sample_session)\<lparr>sv_cache := snd (replay_init True replay_zero 2)\<rparr>"

lemma sample_ready_facts:
  "calm (sample_ready rx)" "replay_inv (sv_cache (sample_ready rx))" "w_tx (sample_ready rx) = []"
  "w_plan (sample_ready rx) = []" "sv_session (sample_ready rx) = sample_session"
  "pending_in (sample_ready rx) = rx_stream rx"
proof -
  have "replay_init True replay_zero 2 = (Inr (), snd (replay_init True replay_zero 2))"
    by (simp add: replay_init_def SIZE_MAX_def REPLAY_NONCE_LEN_def Let_def)
  from replay_inv_init [OF this] show "replay_inv (sv_cache (sample_ready rx))"
    by (simp add: sample_ready_def)
qed (simp_all add: sample_ready_def sample_server_def calm_def pending_in_def)

lemma sample_request:
  "\<exists>c. send_request sample_platform 3 [1] opc [2] (sample_env [] []) = (Inr (), c)"
  using send_request_calm [OF sample_gcm_spec, of "sample_env [] []" 3 "[2]" "[1]" opc] by (auto simp: sample_env_def calm_def)

text \<open>A request, its execution, and the response read back.\<close>

lemma exchange_run:
  fixes s :: "'r server_env_scheme"
  assumes "gcm_spec P" and "send_request P cfd c2s opc pt c = (Inr u, c')" and "w_tx c = []"
    and "calm s" and "replay_inv (sv_cache s)" and "pending_in s = w_tx c' @ b" and "w_tx s = []"
    and "server_step P (int sfd) c2s s2c s = (Inr x, s')"
    and "calm d" and "pending_in d = w_tx s' @ b'"
  shows "\<exists>(v :: 'r server_env_scheme) status data w d'. server_kept v = server_kept s \<and>
    server_answer P (opcode_val opc # pt) v = (Inr (status, data), w) \<and> x = (opcode_val opc, status) \<and>
    sv_session s' = sv_session w \<and> g_users s' = g_users w \<and> w_files s' = w_files w \<and>
    recv_response P (int cfd') s2c opc d = (Inr (status_val status, data), d') \<and> pending_in d' = b'"
proof -
  from send_request_Inr [OF assms(1,2)] obtain nonce iv where ok: "sealed_ok nonce iv (opcode_val opc # pt)"
    and "w_tx c' = packet_wire P (sealed_packet P c2s nonce iv (opcode_val opc # pt))" using assms(3) by auto
  with assms(6) have "pending_in s = packet_wire P (sealed_packet P c2s nonce iv (opcode_val opc # pt)) @ b" by simp
  from server_receive_sealed [OF assms(1,4) ok assms(5) this, of sfd] obtain v where
    v: "server_receive P (int sfd) c2s s = (Inr (nonce, opcode_val opc # pt), v)" "server_kept v = server_kept s" by blast
  obtain status data w where w: "server_answer P (opcode_val opc # pt) v = (Inr (status, data), w)"
    and snd: "send_encrypted_response P (int sfd) s2c (opcode_val opc) nonce status data w = (Inr (), s')"
    and x: "x = (opcode_val opc, status)"
    using assms(8) v(1) by (auto simp: server_step_def io_inv split: prod.splits)
  have "w_tx w = w_tx v" using withinD [OF srv_net.within_answer w] by simp
  then have tx: "w_tx w = []" using v(2) assms(7) by (simp add: server_kept_def)
  have "length nonce = REQ_NONCE_LEN" using ok by (simp add: sealed_ok_def)
  from send_response_Inr [OF assms(1) this snd] tx obtain iv' where
    r: "sealed_ok nonce iv' (response_text (opcode_val opc) status data)" "length data \<le> 65535"
    "w_tx s' = packet_wire P (sealed_packet P s2c nonce iv' (response_text (opcode_val opc) status data))" by auto
  from recv_response_sealed [OF assms(1,9) r(1,2), of s2c b' cfd'] assms(10) r(3) obtain d' where
    "recv_response P (int cfd') s2c opc d = (Inr (status_val status, data), d')" "pending_in d' = b'" by auto
  moreover have "within (\<lambda>s t. (sv_session s, g_users s, w_files s) = (sv_session t, g_users t, w_files t))
      (send_encrypted_response P (int sfd) s2c (opcode_val opc) nonce status data)"
    by (intro untouched_state.within_send_response) auto
  from withinD [OF this snd] have "sv_session s' = sv_session w" "g_users s' = g_users w" "w_files s' = w_files w"
    by simp_all
  ultimately show ?thesis using v(2) w x by blast
qed

lemma rx_stream_one: "rx_stream [R_data d] = d"
  by simp

section \<open>Properties\<close>

text \<open>A request arrives as it was sent.  Whatever request the client sends, over any pattern of
  partial writes, a server holding the same key receives the same opcode and data over any
  segmentation of the stream, uses up exactly its bytes, and has changed no session, account or
  file when it starts to execute it.\<close>

theorem request_reaches_server:
  assumes "gcm_spec P" and "send_request P cfd key opc pt c = (Inr u, c')" and "w_tx c = []"
    and "calm s" and "replay_inv (sv_cache s)" and "pending_in s = w_tx c' @ b"
  shows "\<exists>nonce t. server_receive P (int sfd) key s = (Inr (nonce, opcode_val opc # pt), t) \<and>
    pending_in t = b \<and> sv_session t = sv_session s \<and> g_users t = g_users s \<and> w_files t = w_files s"
proof -
  from send_request_Inr [OF assms(1,2)] obtain nonce iv where ok: "sealed_ok nonce iv (opcode_val opc # pt)"
    and "w_tx c' = packet_wire P (sealed_packet P key nonce iv (opcode_val opc # pt))" using assms(3) by auto
  with assms(6) have "pending_in s = packet_wire P (sealed_packet P key nonce iv (opcode_val opc # pt)) @ b" by simp
  from server_receive_sealed [OF assms(1,4) ok assms(5) this, of sfd] show ?thesis
    unfolding server_kept_def by blast
qed

theorem request_reaches_server_witness:
  "\<exists>c nonce t. send_request sample_platform 3 [1] OP_SIGN_DOC [2] (sample_env [] []) = (Inr (), c) \<and>
     server_receive sample_platform (int 4) [1] (sample_ready [R_data (w_tx c)]) = (Inr (nonce, [3, 2]), t)"
proof -
  obtain c where c: "send_request sample_platform 3 [1] OP_SIGN_DOC [2] (sample_env [] []) = (Inr (), c)"
    using sample_request by blast
  have "w_tx (sample_env [] []) = []" "pending_in (sample_ready [R_data (w_tx c)]) = w_tx c @ []"
    by (simp_all add: sample_env_def sample_ready_facts)
  from request_reaches_server [OF sample_gcm_spec c this(1) sample_ready_facts(1,2) this(2), of 4] c
  show ?thesis by auto
qed

text \<open>C1: An exchange delivers the answer of the right operation.  If a client sends a request and the
  server gets through one turn of its loop, then the server has executed exactly that request, in
  its own session and on its own accounts and files, which are afterwards as the operation left
  them, the log names its opcode and status, and the client that reads the response gets that
  status and data and nothing else.  The server that reads the request and the client that reads
  the response run in a working environment.\<close>

theorem exchange_is_faithful:
  fixes s :: "'r server_env_scheme"
  assumes "gcm_spec P" and "send_request P cfd c2s opc pt c = (Inr u, c')" and "w_tx c = []"
    and "calm s" and "replay_inv (sv_cache s)" and "pending_in s = w_tx c' @ b" and "w_tx s = []"
    and "server_step P (int sfd) c2s s2c s = (Inr x, s')"
    and "calm d" and "pending_in d = w_tx s' @ b'"
  shows "\<exists>(v :: 'r server_env_scheme) status data w d'. sv_session v = sv_session s \<and> g_users v = g_users s \<and> w_files v = w_files s \<and>
    server_answer P (opcode_val opc # pt) v = (Inr (status, data), w) \<and> x = (opcode_val opc, status) \<and>
    sv_session s' = sv_session w \<and> g_users s' = g_users w \<and> w_files s' = w_files w \<and>
    recv_response P (int cfd') s2c opc d = (Inr (status_val status, data), d') \<and> pending_in d' = b'"
  using exchange_run [OF assms] unfolding server_kept_def by blast

lemma sample_step:
  assumes "send_request sample_platform fd [1] OP_LOGOUT d c0 = (Inr (), c)" and "w_tx c0 = []"
  shows "\<exists>t. server_step sample_platform (int 4) [1] [1] (sample_ready [R_data (w_tx c)]) = (Inr (6, ST_OK), t)"
proof -
  let ?s = "sample_ready [R_data (w_tx c)]"
  from send_request_Inr [OF sample_gcm_spec assms(1)] obtain nonce iv where ok: "sealed_ok nonce iv (6 # d)"
    and tx: "pending_in ?s = packet_wire sample_platform (sealed_packet sample_platform [1] nonce iv (6 # d)) @ []"
    by (auto simp: sample_ready_facts assms(2))
  from server_receive_sealed [OF sample_gcm_spec sample_ready_facts(1) ok sample_ready_facts(2) tx, of 4] obtain v where
    v: "server_receive sample_platform (int 4) [1] ?s = (Inr (nonce, (6 # d)), v)" "calm v" "server_kept v = server_kept ?s"
    by blast
  have "sv_session v = sample_session" "w_plan v = []" using v(3) by (simp_all add: server_kept_def sample_ready_facts)
  then have a: "server_answer sample_platform (6 # d) v = (Inr (ST_OK, []), v\<lparr>sv_session := session_clear\<rparr>)"
    by (simp add: server_answer_def server_handle_gate gate_def dispatch_def opcode_of_def op_logout_run io_def)
  have "calm (v\<lparr>sv_session := session_clear\<rparr>)" "w_plan (v\<lparr>sv_session := session_clear\<rparr>) = []"
    "length nonce = REQ_NONCE_LEN"
    using v(2) \<open>w_plan v = []\<close> ok by (simp_all add: calm_def sealed_ok_def)
  from send_response_calm [OF sample_gcm_spec this(1,2) _ this(3), of "int 4" "[]" "[1]" 6 ST_OK] obtain t where
    "send_encrypted_response sample_platform 4 [1] 6 nonce ST_OK [] (v\<lparr>sv_session := session_clear\<rparr>) = (Inr (), t)"
    by auto
  with v(1) a show ?thesis by (simp add: server_step_def io_def)
qed

theorem exchange_is_faithful_witness:
  "\<exists>c t d. send_request sample_platform 3 [1] OP_LOGOUT [2] (sample_env [] []) = (Inr (), c) \<and>
     server_step sample_platform (int 4) [1] [1] (sample_ready [R_data (w_tx c)]) = (Inr (6, ST_OK), t) \<and>
     (\<exists>data. recv_response sample_platform (int 3) [1] OP_LOGOUT (sample_env [] [R_data (w_tx t)]) =
        (Inr (status_val ST_OK, data), d))"
proof -
  obtain c where c: "send_request sample_platform 3 [1] OP_LOGOUT [2] (sample_env [] []) = (Inr (), c)"
    using sample_request by blast
  obtain t where t: "server_step sample_platform (int 4) [1] [1] (sample_ready [R_data (w_tx c)]) = (Inr (6, ST_OK), t)"
    using sample_step [OF c] by (auto simp: sample_env_def)
  have p: "pending_in (sample_ready [R_data (w_tx c)]) = w_tx c @ []" by (simp add: sample_ready_facts)
  have h: "w_tx (sample_env [] []) = []"
    "calm (sample_env [] [R_data (w_tx t)])" "pending_in (sample_env [] [R_data (w_tx t)]) = w_tx t @ []"
    by (simp_all add: sample_env_def calm_def pending_in_def)
  from exchange_is_faithful [OF sample_gcm_spec c h(1) sample_ready_facts(1,2) p sample_ready_facts(3) t h(2,3), of 3] c t
  show ?thesis by auto
qed

text \<open>C34: A replayed request is executed again.  \<open>replay_check_and_add\<close> reports a repeated nonce with 0,
  but the loop of \<^verbatim>\<open>server/main.c\<close> refuses only negative results, so when the same packet arrives
  twice the second copy is received and decrypted to the same request as the first, although the
  cache has recognised it.\<close>

theorem replayed_request_is_accepted:
  assumes "gcm_spec P" and "calm s" and "sealed_ok nonce iv pt" and "replay_inv (sv_cache s)"
    and "pending_in s = packet_wire P (sealed_packet P key nonce iv pt) @
           packet_wire P (sealed_packet P key nonce iv pt) @ b"
  shows "\<exists>t v. server_receive P (int fd) key s = (Inr (nonce, pt), t) \<and>
    fst (replay_check_and_add (sv_cache t) nonce) = 0 \<and>
    server_receive P (int fd) key t = (Inr (nonce, pt), v) \<and> pending_in v = b"
proof -
  let ?w = "packet_wire P (sealed_packet P key nonce iv pt)"
  from server_receive_sealed [OF assms(1-4), of key "?w @ b" fd] assms(5) obtain t where
    t: "server_receive P (int fd) key s = (Inr (nonce, pt), t)" "pending_in t = ?w @ b" "calm t"
      "sv_cache t = snd (replay_check_and_add (sv_cache s) nonce)" "replay_inv (sv_cache t)" by auto
  from server_receive_sealed [OF assms(1) t(3) assms(3) t(5,2), of fd] obtain v where
    v: "server_receive P (int fd) key t = (Inr (nonce, pt), v)" "pending_in v = b" by blast
  have n: "length nonce = REPLAY_NONCE_LEN"
    using assms(3) by (simp add: sealed_ok_def REQ_NONCE_LEN_def REPLAY_NONCE_LEN_def)
  have "fst (replay_check_and_add (sv_cache t) nonce) = 0"
    using assms(4) n
  proof (rule replay_step)
    fix r c assume c: "replay_check_and_add (sv_cache s) nonce = (r, c)"
      "fifo_add (rc_capacity (sv_cache s)) (recent (sv_cache s)) nonce = (r = 1, recent c)"
    moreover have "nonce \<in> set (snd (fifo_add k q nonce))" for k q by (auto simp: fifo_add_def)
    ultimately have "nonce \<in> set (recent c)" by (metis snd_conv)
    with replay_add_seen [OF t(5), of nonce] t(4) c(1) show ?thesis by simp
  qed
  with t v show ?thesis by blast
qed

theorem replayed_request_is_accepted_witness:
  "let w = packet_wire sample_platform (sealed_packet sample_platform [1] (replicate 16 9) (replicate 12 8) [5])
   in \<exists>t v. server_receive sample_platform (int 4) [1] (sample_ready [R_data (w @ w)]) = (Inr (replicate 16 9, [5]), t) \<and>
        server_receive sample_platform (int 4) [1] t = (Inr (replicate 16 9, [5]), v)"
proof -
  define w where "w = packet_wire sample_platform (sealed_packet sample_platform [1] (replicate 16 9) (replicate 12 8) [5])"
  have ok: "sealed_ok (replicate 16 9) (replicate 12 8) [5]"
    by (simp add: sealed_ok_def REQ_NONCE_LEN_def GCM_IV_LEN_def)
  have "pending_in (sample_ready [R_data (w @ w)]) = w @ w @ []" by (simp add: sample_ready_facts)
  from replayed_request_is_accepted [OF sample_gcm_spec sample_ready_facts(1) ok sample_ready_facts(2) this [unfolded w_def], of 4]
  show ?thesis unfolding Let_def w_def by blast
qed

text \<open>C35: A response is not bound to its request.  The server puts the nonce of the request into its
  response, but \<open>send_request_and_get_response\<close> does not compare the two: whatever packet sealed with
  the server's key is waiting for the client is accepted as the answer to the request it sends,
  as long as it answers a request with the same opcode.  The waiting packet was there before the
  request was sent, with any nonce.\<close>

theorem stale_response_is_accepted:
  assumes "gcm_spec P" and "calm c" and "w_plan c = []" and "29 + length pt \<le> 10485760"
    and "sealed_ok old_nonce iv (response_text (opcode_val opc) st data)" and "length data \<le> 65535"
    and "pending_in c = packet_wire P (sealed_packet P s2c old_nonce iv (response_text (opcode_val opc) st data)) @ b"
  shows "\<exists>t iv'. send_request_and_get_response P (int fd) c2s s2c opc pt c = (Inr (status_val st, data), t) \<and>
    pending_in t = b \<and> w_tx t = w_tx c @ packet_wire P (sealed_packet P c2s
      (map (w_tape c) [w_rpos c ..< w_rpos c + REQ_NONCE_LEN]) iv' (opcode_val opc # pt))"
proof -
  obtain u iv' where u: "send_request P (int fd) c2s opc pt c = (Inr (), u)"
    and tx: "w_tx u = w_tx c @ packet_wire P (sealed_packet P c2s
      (map (w_tape c) [w_rpos c ..< w_rpos c + REQ_NONCE_LEN]) iv' (opcode_val opc # pt))"
    using send_request_calm [OF assms(1-3) of_nat_0_le_iff assms(4), of fd c2s opc] by auto
  have "w_rx u = w_rx c" using withinD [OF untouched_rx.within_send_request u] by simp
  then have p: "pending_in u = pending_in c" by (simp add: pending_in_def)
  have "calm u" using withinD [OF net_oracle.within_send_request u] assms(2) by (simp add: calm_def)
  from recv_response_sealed [OF assms(1) this assms(5,6) trans [OF p assms(7)], of fd] obtain t where
    t: "recv_response P (int fd) s2c opc u = (Inr (status_val st, data), t)" "pending_in t = b" by blast
  have "w_tx t = w_tx u" using withinD [OF transmitted.within_recv_response t(1)] by simp
  with t u tx show ?thesis
    by (auto simp: send_request_and_get_response_def io_def)
qed

theorem stale_response_is_accepted_witness:
  "\<exists>t. send_request_and_get_response sample_platform (int 3) [1] [1] OP_LOGOUT []
       (sample_env [] [R_data (packet_wire sample_platform
          (sealed_packet sample_platform [1] (replicate 16 9) (replicate 12 8) (response_text 6 ST_OK [])))]) =
       (Inr (status_val ST_OK, []), t) \<and>
     map (w_tape (sample_env [] [])) [0 ..< REQ_NONCE_LEN] \<noteq> replicate 16 9"
proof -
  let ?w = "packet_wire sample_platform (sealed_packet sample_platform [1] (replicate 16 9) (replicate 12 8)
    (response_text (opcode_val OP_LOGOUT) ST_OK []))"
  let ?c = "sample_env [] [R_data ?w]"
  have c: "calm ?c" "w_plan ?c = []" "pending_in ?c = ?w @ []"
    by (simp_all add: sample_env_def calm_def pending_in_def)
  have ok: "sealed_ok (replicate 16 9) (replicate 12 8) (response_text (opcode_val OP_LOGOUT) ST_OK [])"
    by (simp add: sealed_ok_def REQ_NONCE_LEN_def GCM_IV_LEN_def length_response_text)
  have n: "29 + length ([] :: bytes) \<le> 10485760" "length ([] :: bytes) \<le> 65535" by simp_all
  have "map (w_tape (sample_env [] [])) [0 ..< REQ_NONCE_LEN] \<noteq> replicate 16 9"
    by (simp add: sample_env_def REQ_NONCE_LEN_def numeral_eq_Suc)
  with stale_response_is_accepted [OF sample_gcm_spec c(1,2) n(1) ok n(2) c(3), of 3] show ?thesis by auto
qed

end
