(* ===== verification/KeyAgreement.thy ===== *)
theory KeyAgreement
  imports Exchange
begin

text \<open>
  The handshake as a whole: \<open>run_handshake\<close> of \<^verbatim>\<open>client/main.c\<close> (its two halves \<open>client_hello\<close> and
  \<open>client_finish\<close>) against the handshake of \<^verbatim>\<open>server/main.c\<close>.
\<close>

section \<open>The contracts of ECDH and of the signature\<close>

text \<open>
  Diffie-Hellman: two key pairs derive the same secret from each other's public key.  The DER
  image of a public key is not empty and short (91 bytes for P-256).
\<close>

definition ecdh_spec :: "'p platform_scheme \<Rightarrow> bool" where
  "ecdh_spec P \<longleftrightarrow>
     (\<forall>a b. length a = 32 \<and> length b = 32 \<longrightarrow>
        ec_derive P (ec_keygen P a) (ec_public_der P (ec_keygen P b)) \<noteq> None \<and>
        ec_derive P (ec_keygen P a) (ec_public_der P (ec_keygen P b)) =
        ec_derive P (ec_keygen P b) (ec_public_der P (ec_keygen P a))) \<and>
     (\<forall>a. length a = 32 \<longrightarrow> ec_public_der P (ec_keygen P a) \<noteq> [] \<and>
        length (ec_public_der P (ec_keygen P a)) \<le> 1024)"

text \<open>The two PEM files hold the two halves of one signature key pair.\<close>

definition signature_pair :: "'p platform_scheme \<Rightarrow> bytes \<Rightarrow> bytes \<Rightarrow> bool" where
  "signature_pair P priv_pem pub_pem \<longleftrightarrow> (\<exists>sk pk. pem_private P priv_pem = Some sk \<and>
     pem_public P pub_pem = Some pk \<and> (\<forall>m. digest_verify P pk m (digest_sign P sk m)))"

definition SERVER_PRIVATE_PEM :: bytes where "SERVER_PRIVATE_PEM = ascii ''server/res/keys/server_private.pem''"
definition SERVER_PUBLIC_PEM :: bytes where "SERVER_PUBLIC_PEM = ascii ''client/res/server_public.pem''"

section \<open>The steps\<close>

lemma hs_gen_Inr:
  assumes "hs_gen_ecdh_keypair P s = (Inr (pub, priv), t)"
  shows "\<exists>seed. length seed = 32 \<and> priv = ec_keygen P seed \<and> pub = ec_public_der P priv \<and>
    w_tx t = w_tx s \<and> pending_in t = pending_in s \<and> (\<forall>p. file_at t p = file_at s p)"
proof -
  from assms obtain s1 seed s2 where l: "lib_calls 6 () s = (Inr (), s1)" and r: "rand_bytes () 32 s1 = (Inr seed, s2)"
    and l2: "lib_calls 2 () s2 = (Inr (), t)" and k: "priv = ec_keygen P seed" "pub = ec_public_der P priv"
    by (auto simp: hs_gen_ecdh_keypair_def io_inv Let_def simp del: lib_calls.simps)
  from lib_calls_run [OF l] rand_bytes_run [OF r] lib_calls_run [OF l2] rand_bytes_length [OF r] k
  show ?thesis by (auto simp: pending_in_def)
qed

lemma client_hello_Inr:
  assumes "client_hello P fd s = (Inr (pub, priv), t)"
  shows "\<exists>seed. length seed = 32 \<and> priv = ec_keygen P seed \<and> pub = ec_public_der P priv \<and>
    hs_frame_ok pub \<and> w_tx t = w_tx s @ hs_wire (hs_msg_val HS_CHLO) pub"
proof -
  from assms obtain u where g: "hs_gen_ecdh_keypair P s = (Inr (pub, priv), u)"
    and f: "hs_send_frame P fd (hs_msg_val HS_CHLO) pub u = (Inr (), t)"
    by (auto simp: client_hello_def hs_send_chlo_def io_inv)
  from hs_gen_Inr [OF g] hs_send_frame_Inr [OF f] show ?thesis by auto
qed

lemma hs_sign_transcript_Inr:
  assumes "hs_sign_transcript P path tr s = (Inr sig, t)"
  shows "\<exists>pem sk k. file_at s path = Some pem \<and> pem_private P pem = Some sk \<and>
    sig = digest_sign P sk tr \<and> t = s\<lparr>w_tick := k\<rparr>"
  using assms
  by (auto simp: hs_sign_transcript_def io_inv simp del: lib_calls.simps split: option.splits
      dest!: open_read_run lib_calls_run)

lemma hs_compute_shared_Inr:
  assumes "hs_compute_shared P priv pub s = (Inr z, t)"
  shows "pub \<noteq> [] \<and> ec_derive P priv pub = Some z \<and> (\<exists>k. t = s\<lparr>w_tick := k\<rparr>)"
  using assms
  by (auto simp: hs_compute_shared_def io_inv simp del: lib_calls.simps split: option.splits if_splits
      dest!: lib_calls_run)

lemma hs_recv_frame_files:
  assumes "hs_recv_frame P fd ty s = (r, t)"
  shows "w_tx t = w_tx s \<and> w_plan t = w_plan s \<and> (\<forall>p. file_at t p = file_at s p)"
proof -
  have "within (\<lambda>s t. (w_tx s, w_plan s, w_files s) = (w_tx t, w_plan t, w_files t)) (hs_recv_frame P fd ty)"
    unfolding hs_recv_frame_def Let_def
    by (intro frame_same.within_if frame_same.within_bind frame_same.within_then frame_same.within_raise
        frame_same.within_ret frame_same.within_or_raise prims) auto
  from withinD [OF this assms] show ?thesis by (simp add: file_at_def)
qed

lemma server_handshake_Inr:
  assumes "server_handshake P (int fd) s = (Inr ks, t)"
  shows "\<exists>cpub b seed spub pem sk sig z. hs_frame_ok cpub \<and> pending_in s = hs_wire (hs_msg_val HS_CHLO) cpub @ b \<and>
    length seed = 32 \<and> spub = ec_public_der P (ec_keygen P seed) \<and>
    file_at s SERVER_PRIVATE_PEM = Some pem \<and> pem_private P pem = Some sk \<and> sig = digest_sign P sk (cpub @ spub) \<and>
    shlo_ok (spub, sig) \<and> w_tx t = w_tx s @ hs_wire (hs_msg_val HS_SHLO) (shlo_payload (spub, sig)) \<and>
    ec_derive P (ec_keygen P seed) cpub = Some z \<and> ks = session_keys P z (cpub @ spub)"
proof -
  from assms obtain cpub s1 spub priv s2 s3 sig s4 s5 z s6 where
    c: "hs_recv_frame P (int fd) (hs_msg_val HS_CHLO) s = (Inr cpub, s1)" and
    g: "hs_gen_ecdh_keypair P s1 = (Inr (spub, priv), s2)" and l: "lib_call () s2 = (Inr (), s3)" and
    sg: "hs_sign_transcript P SERVER_PRIVATE_PEM (cpub @ spub) s3 = (Inr sig, s4)" and
    sh: "hs_send_shlo P (int fd) spub sig s4 = (Inr (), s5)" and
    z: "hs_compute_shared P priv cpub s5 = (Inr z, s6)" and
    k: "hs_derive_keys P z (cpub @ spub) s6 = (Inr ks, t)"
    by (auto simp: server_handshake_def hs_recv_chlo_def SERVER_PRIVATE_PEM_def io_inv Let_def split: if_splits)
  note rc = hs_frame.receive_sound [OF c] hs_recv_frame_files [OF c]
  obtain seed where seed: "length seed = 32" "priv = ec_keygen P seed" "spub = ec_public_der P priv"
    "w_tx s2 = w_tx s1" "\<forall>p. file_at s2 p = file_at s1 p" using hs_gen_Inr [OF g] by blast
  obtain pem sk k4 where pem: "file_at s3 SERVER_PRIVATE_PEM = Some pem" "pem_private P pem = Some sk"
    "sig = digest_sign P sk (cpub @ spub)" "s4 = s3\<lparr>w_tick := k4\<rparr>" using hs_sign_transcript_Inr [OF sg] by blast
  have s3: "s3 = s2\<lparr>w_tick := Suc (w_tick s2)\<rparr>" using lib_call_run [OF l] .
  have f: "file_at s SERVER_PRIVATE_PEM = Some pem" using pem(1) s3 seed(5) rc(2) by simp
  have tx: "w_tx s4 = w_tx s" using pem(4) s3 seed(4) rc(2) by simp
  have "w_tx t = w_tx s @ hs_wire (hs_msg_val HS_SHLO) (shlo_payload (spub, sig))" "shlo_ok (spub, sig)"
    using hs_send_shlo_Inr [OF sh] hs_compute_shared_Inr [OF z] hs_derive_keys_Inr [OF k] tx by auto
  with rc(1) seed(1-3) f pem(2,3) hs_compute_shared_Inr [OF z] hs_derive_keys_Inr [OF k] show ?thesis by blast
qed

lemma hs_verify_transcript_Inr:
  assumes "hs_verify_transcript P path tr sig s = (Inr u, t)"
  shows "\<exists>pem pk. file_at s path = Some pem \<and> pem_public P pem = Some pk \<and> digest_verify P pk tr sig"
  using assms
  by (auto simp: hs_verify_transcript_def io_inv simp del: lib_calls.simps
      split: option.splits if_splits dest!: open_read_run)

lemma hs_recv_shlo_files:
  assumes "hs_recv_shlo P fd s = (r, t)"
  shows "w_files t = w_files s"
proof -
  have "within (\<lambda>s t. w_files s = w_files t) (hs_recv_shlo P fd)"
    unfolding hs_recv_shlo_def hs_recv_frame_def Let_def
    by (intro frame_same.within_if frame_same.within_bind frame_same.within_then frame_same.within_raise
        frame_same.within_ret frame_same.within_or_raise prims) auto
  from withinD [OF this assms] show ?thesis by simp
qed

lemma client_finish_Inr:
  assumes "client_finish P (int fd) cpub cpriv s = (Inr ks, t)"
  shows "\<exists>spub sig b pem pk z. shlo_ok (spub, sig) \<and>
    pending_in s = hs_wire (hs_msg_val HS_SHLO) (shlo_payload (spub, sig)) @ b \<and>
    file_at s SERVER_PUBLIC_PEM = Some pem \<and> pem_public P pem = Some pk \<and>
    digest_verify P pk (cpub @ spub) sig \<and> ec_derive P cpriv spub = Some z \<and> ks = session_keys P z (cpub @ spub)"
proof -
  from assms obtain spub sig s1 s2 s3 z s4 where
    r: "hs_recv_shlo P (int fd) s = (Inr (spub, sig), s1)" and l: "lib_call () s1 = (Inr (), s2)" and
    v: "hs_verify_transcript P SERVER_PUBLIC_PEM (cpub @ spub) sig s2 = (Inr (), s3)" and
    z: "hs_compute_shared P cpriv spub s3 = (Inr z, s4)" and k: "hs_derive_keys P z (cpub @ spub) s4 = (Inr ks, t)"
    by (auto simp: client_finish_def SERVER_PUBLIC_PEM_def io_inv Let_def split: if_splits)
  have f: "file_at s2 p = file_at s p" for p
    using lib_call_run [OF l] hs_recv_shlo_files [OF r] by (simp add: file_at_def)
  from shlo.receive_sound [OF r] hs_verify_transcript_Inr [OF v] hs_compute_shared_Inr [OF z]
    hs_derive_keys_Inr [OF k] show ?thesis unfolding f by blast
qed

lemma client_finish_calm:
  assumes "calm s" and "shlo_ok (spub, sig)" and "\<And>k m. length (hmac_sha256 P k m) = 32"
    and "pending_in s = hs_wire (hs_msg_val HS_SHLO) (shlo_payload (spub, sig)) @ b"
    and "file_at s SERVER_PUBLIC_PEM = Some pem" and "pem_public P pem = Some pk"
    and "digest_verify P pk (cpub @ spub) sig" and "spub \<noteq> []" and "ec_derive P cpriv spub = Some z"
    and "length cpub \<le> UINT32_MAX"
  shows "\<exists>t. client_finish P (int fd) cpub cpriv s = (Inr (session_keys P z (cpub @ spub)), t)"
proof -
  from hs_recv_shlo_wire [OF assms(2,1,4), of P fd] obtain s1 where
    r: "hs_recv_shlo P (int fd) s = (Inr (spub, sig), s1)" "calm s1" by blast
  have f: "file_at s1 SERVER_PUBLIC_PEM = Some pem"
    using hs_recv_shlo_files [OF r(1)] assms(5) by (simp add: file_at_def)
  let ?s2 = "s1\<lparr>w_tick := Suc (w_tick s1)\<rparr>"
  let ?s3 = "?s2\<lparr>w_tick := Suc (w_tick ?s2) + 3\<rparr>"
  have v: "hs_verify_transcript P SERVER_PUBLIC_PEM (cpub @ spub) sig ?s2 = (Inr (), ?s3)"
    using r(2) f assms(6,7) by (simp add: hs_verify_transcript_def open_read_calm io_def del: lib_calls.simps)
  have c3: "calm ?s3" using r(2) by simp
  let ?s4 = "?s3\<lparr>w_tick := w_tick ?s3 + 7\<rparr>"
  have z: "hs_compute_shared P cpriv spub ?s3 = (Inr z, ?s4)"
    using assms(8,9) lib_calls_calm [OF c3, of 7 "()"]
    by (simp add: hs_compute_shared_def io_def del: lib_calls.simps)
  have "calm ?s4" using c3 by simp
  from hs_derive_keys_calm [OF this assms(3), of z "cpub @ spub"] obtain t where
    k: "hs_derive_keys P z (cpub @ spub) ?s4 = (Inr (session_keys P z (cpub @ spub)), t)" by blast
  have n: "\<not> SIZE_MAX_64 - length spub < length cpub"
    using assms(2,10) by (simp add: shlo_ok_def UINT32_MAX_def SIZE_MAX_64_def)
  show ?thesis
    using r n v z k by (simp add: client_finish_def SERVER_PUBLIC_PEM_def [symmetric] bind_io_ok then_io_ok Let_def)
qed

lemma hs_gen_calm:
  assumes "calm s"
  shows "\<exists>seed k p. length seed = 32 \<and> hs_gen_ecdh_keypair P s =
    (Inr (ec_public_der P (ec_keygen P seed), ec_keygen P seed), s\<lparr>w_tick := k, w_rpos := p\<rparr>)"
proof -
  let ?seed = "map (w_tape s) [w_rpos s ..< w_rpos s + 32]"
  let ?s1 = "s\<lparr>w_tick := w_tick s + 6\<rparr>"
  let ?s2 = "?s1\<lparr>w_tick := Suc (w_tick ?s1), w_rpos := w_rpos s + 32\<rparr>"
  have "rand_bytes () 32 ?s1 = (Inr ?seed, ?s2)" using assms by (simp add: rand_bytes_calm)
  moreover have "lib_calls 2 () ?s2 = (Inr (), ?s2\<lparr>w_tick := w_tick ?s2 + 2\<rparr>)"
    by (rule lib_calls_calm) (use assms in simp)
  moreover have "?s2\<lparr>w_tick := w_tick ?s2 + 2\<rparr> = s\<lparr>w_tick := w_tick ?s2 + 2, w_rpos := w_rpos s + 32\<rparr>"
    by (cases s) simp
  ultimately have "hs_gen_ecdh_keypair P s = (Inr (ec_public_der P (ec_keygen P ?seed), ec_keygen P ?seed),
      s\<lparr>w_tick := w_tick ?s2 + 2, w_rpos := w_rpos s + 32\<rparr>)"
    using assms by (simp add: hs_gen_ecdh_keypair_def io_def Let_def del: lib_calls.simps)
  moreover have "length ?seed = 32" by simp
  ultimately show ?thesis by blast
qed

lemma client_hello_calm:
  assumes "calm s" and "w_plan s = []" and "0 \<le> fd" and "ecdh_spec P"
  shows "\<exists>pub priv t. client_hello P fd s = (Inr (pub, priv), t)"
proof -
  from hs_gen_calm [OF assms(1)] obtain seed k p where l: "length seed = 32" and g: "hs_gen_ecdh_keypair P s =
    (Inr (ec_public_der P (ec_keygen P seed), ec_keygen P seed), s\<lparr>w_tick := k, w_rpos := p\<rparr>)" by blast
  have "hs_frame_ok (ec_public_der P (ec_keygen P seed))"
    using assms(4) l by (fastforce simp: ecdh_spec_def hs_frame_ok_def UINT32_MAX_def)
  from hs_send_frame_room [OF this assms(3), where P = P and s = "s\<lparr>w_tick := k, w_rpos := p\<rparr>"] assms(2) g
  show ?thesis by (simp add: client_hello_def hs_send_chlo_def io_def)
qed

lemma server_handshake_calm:
  assumes "calm s" and "w_plan s = []" and "ecdh_spec P" and "\<And>k m. length (hmac_sha256 P k m) = 32"
    and "length cseed = 32" and "cpub = ec_public_der P (ec_keygen P cseed)"
    and "pending_in s = hs_wire (hs_msg_val HS_CHLO) cpub @ b" and "file_at s SERVER_PRIVATE_PEM = Some pem"
    and "pem_private P pem = Some sk" and "\<And>m. length (digest_sign P sk m) \<le> length m + 1024"
  shows "\<exists>ks t. server_handshake P (int fd) s = (Inr ks, t)"
proof -
  have cp: "cpub \<noteq> []" "length cpub \<le> 1024" using assms(3,5,6) by (auto simp: ecdh_spec_def)
  then have "hs_frame_ok cpub" by (simp add: hs_frame_ok_def UINT32_MAX_def)
  from hs_recv_frame_wire [OF this assms(1,7), of P fd] obtain s1 where
    r: "hs_recv_frame P (int fd) (hs_msg_val HS_CHLO) s = (Inr cpub, s1)" "calm s1" by blast
  note f1 = hs_recv_frame_files [OF r(1)]
  from hs_gen_calm [OF r(2)] obtain seed k p where l: "length seed = 32" and g: "hs_gen_ecdh_keypair P s1 =
    (Inr (ec_public_der P (ec_keygen P seed), ec_keygen P seed), s1\<lparr>w_tick := k, w_rpos := p\<rparr>)" by blast
  let ?spub = "ec_public_der P (ec_keygen P seed)"
  let ?sig = "digest_sign P sk (cpub @ ?spub)"
  let ?s3 = "s1\<lparr>w_rpos := p, w_tick := Suc k\<rparr>"
  let ?s4 = "?s3\<lparr>w_tick := Suc (w_tick ?s3) + 5\<rparr>"
  have c3: "calm ?s3" "calm (s1\<lparr>w_tick := k, w_rpos := p\<rparr>)" using r(2) by simp_all
  have u: "s1\<lparr>w_tick := k, w_rpos := p, w_tick := Suc k\<rparr> = ?s3" by (cases s1) simp
  have sg: "hs_sign_transcript P SERVER_PRIVATE_PEM (cpub @ ?spub) ?s3 = (Inr ?sig, ?s4)"
    using c3(1) f1 assms(8,9)
    by (simp add: hs_sign_transcript_def open_read_calm io_def del: lib_calls.simps)
  have sp: "length ?spub \<le> 1024" "length ?sig \<le> length cpub + length ?spub + 1024"
    using assms(3) l assms(10) [of "cpub @ ?spub"] by (auto simp: ecdh_spec_def)
  then have sh: "shlo_ok (?spub, ?sig)" using cp by (simp add: shlo_ok_def UINT32_MAX_def)
  have "0 \<le> int fd" "w_plan ?s4 = []" "calm ?s4" using f1 assms(2) c3(1) by simp_all
  from hs_send_shlo_room [OF sh this, of P] obtain s5 where
    s5: "hs_send_shlo P (int fd) ?spub ?sig ?s4 = (Inr (), s5)" "calm s5" using c3(1) by simp
  obtain z where z: "ec_derive P (ec_keygen P seed) cpub = Some z"
    using assms(3,5,6) l by (fastforce simp: ecdh_spec_def)
  have sc: "hs_compute_shared P (ec_keygen P seed) cpub s5 = (Inr z, s5\<lparr>w_tick := w_tick s5 + 7\<rparr>)"
    using cp(1) z lib_calls_calm [OF s5(2), of 7 "()"]
    by (simp add: hs_compute_shared_def io_def del: lib_calls.simps)
  have "calm (s5\<lparr>w_tick := w_tick s5 + 7\<rparr>)" using s5(2) by simp
  from hs_derive_keys_calm [OF this assms(4), of z "cpub @ ?spub"] obtain t where
    k: "hs_derive_keys P z (cpub @ ?spub) (s5\<lparr>w_tick := w_tick s5 + 7\<rparr>) = (Inr (session_keys P z (cpub @ ?spub)), t)"
    by blast
  have "\<not> SIZE_MAX - length ?spub < length cpub" using cp(2) sp(1) by (simp add: SIZE_MAX_def)
  then show ?thesis
    using r(1) g sg s5(1) sc k c3(2) u
    by (simp add: server_handshake_def hs_recv_chlo_def SERVER_PRIVATE_PEM_def [symmetric] bind_io_ok then_io_ok Let_def)
qed

section \<open>Properties\<close>

text \<open>C5: The handshake agrees.  If the client has sent its hello and the server has completed its side of
  the handshake on it, the client completes its own with the server's answer and both hold the same
  pair of session keys, provided Diffie-Hellman commutes and the PEM files of the two sides belong
  to one signature key pair.\<close>

theorem handshake_agrees:
  assumes "ecdh_spec P" and "\<And>k m. length (hmac_sha256 P k m) = 32" and "signature_pair P priv_pem pub_pem"
    and "client_hello P cfd c = (Inr (cpub, cpriv), c')" and "w_tx c = []"
    and "file_at s SERVER_PRIVATE_PEM = Some priv_pem" and "w_tx s = []" and "pending_in s = w_tx c' @ b"
    and "server_handshake P (int sfd) s = (Inr ks, s')"
    and "calm d" and "file_at d SERVER_PUBLIC_PEM = Some pub_pem" and "pending_in d = w_tx s' @ b'"
  shows "\<exists>t. client_finish P (int cfd') cpub cpriv d = (Inr ks, t)"
proof -
  obtain seed where c: "length seed = 32" "cpriv = ec_keygen P seed" "cpub = ec_public_der P cpriv" "hs_frame_ok cpub"
    "w_tx c' = hs_wire (hs_msg_val HS_CHLO) cpub" using client_hello_Inr [OF assms(4)] assms(5) by auto
  from server_handshake_Inr [OF assms(9)] assms(6,7) obtain cpub' b1 sseed spub sk sig z where
    s: "hs_frame_ok cpub'" "pending_in s = hs_wire (hs_msg_val HS_CHLO) cpub' @ b1" "length sseed = 32"
      "spub = ec_public_der P (ec_keygen P sseed)" "pem_private P priv_pem = Some sk"
      "sig = digest_sign P sk (cpub' @ spub)" "shlo_ok (spub, sig)"
      "w_tx s' = hs_wire (hs_msg_val HS_SHLO) (shlo_payload (spub, sig))"
      "ec_derive P (ec_keygen P sseed) cpub' = Some z" "ks = session_keys P z (cpub' @ spub)" by auto
  have "hs_wire (hs_msg_val HS_CHLO) cpub @ b = hs_wire (hs_msg_val HS_CHLO) cpub' @ b1"
    using assms(8) c(5) s(2) by simp
  from hs_frame.wire_prefix_free [OF c(4) s(1) this] have e: "cpub' = cpub" by simp
  obtain pk where pk: "pem_public P pub_pem = Some pk" "\<forall>m. digest_verify P pk m (digest_sign P sk m)"
    using assms(3) s(5) by (auto simp: signature_pair_def)
  have "ec_derive P cpriv spub = Some z" "spub \<noteq> []" "length cpub \<le> UINT32_MAX"
    using assms(1) c s(3,4,9) e by (auto simp: ecdh_spec_def hs_frame_ok_def)
  from client_finish_calm [OF assms(10) s(7) assms(2) _ assms(11) pk(1) _ this(2,1,3)] pk(2) assms(12) s(6,8,10) e
  show ?thesis by auto
qed

lemma sample_ecdh_spec: "ecdh_spec sample_platform"
proof -
  have "map2 (XOR) a b = map2 (XOR) b a" for a b :: bytes
    by (rule nth_equalityI) (auto simp: xor.commute)
  then show ?thesis by (auto simp: ecdh_spec_def sample_platform_def)
qed

lemma sample_signature_pair: "signature_pair sample_platform [7] [7]"
  by (simp add: signature_pair_def sample_platform_def)

theorem handshake_agrees_witness:
  "\<exists>cpub cpriv c ks s t. client_hello sample_platform 3 (sample_env [] []) = (Inr (cpub, cpriv), c) \<and>
     server_handshake sample_platform (int 4) (sample_env [(SERVER_PRIVATE_PEM, [7])] [R_data (w_tx c)]) = (Inr ks, s) \<and>
     client_finish sample_platform (int 3) cpub cpriv (sample_env [(SERVER_PUBLIC_PEM, [7])] [R_data (w_tx s)]) = (Inr ks, t)"
proof -
  let ?c = "sample_env [] []"
  have e: "calm (sample_env f rx)" "w_plan (sample_env f rx) = []" "w_tx (sample_env f rx) = []"
    "file_at (sample_env f rx) p = map_of f p" "pending_in (sample_env f rx) = rx_stream rx" for f rx p
    by (simp_all add: sample_env_def calm_def file_at_def pending_in_def)
  obtain cpub cpriv c where c: "client_hello sample_platform 3 ?c = (Inr (cpub, cpriv), c)"
    using client_hello_calm [OF e(1,2) _ sample_ecdh_spec, of 3] by (metis zero_le_numeral)
  obtain seed where k: "length seed = 32" "cpub = ec_public_der sample_platform (ec_keygen sample_platform seed)"
    "w_tx c = hs_wire (hs_msg_val HS_CHLO) cpub" using client_hello_Inr [OF c] e(3) by auto
  let ?s = "sample_env [(SERVER_PRIVATE_PEM, [7])] [R_data (w_tx c)]"
  have ps: "pending_in ?s = hs_wire (hs_msg_val HS_CHLO) cpub @ []" "file_at ?s SERVER_PRIVATE_PEM = Some [7]"
    using k(3) by (simp_all add: e)
  obtain ks s where s: "server_handshake sample_platform (int 4) ?s = (Inr ks, s)"
    using server_handshake_calm [OF e(1,2) sample_ecdh_spec sample_hmac_length(2) k(1,2) ps, of "[7]" 4]
    by (auto simp: sample_platform_def)
  let ?d = "sample_env [(SERVER_PUBLIC_PEM, [7])] [R_data (w_tx s)]"
  have "pending_in ?s = w_tx c @ []" "file_at ?d SERVER_PUBLIC_PEM = Some [7]" "pending_in ?d = w_tx s @ []"
    by (simp_all add: e)
  from handshake_agrees [OF sample_ecdh_spec sample_hmac_length(2) sample_signature_pair c e(3) ps(2) e(3) this(1) s e(1) this(2,3), of 3]
  show ?thesis using c s by blast
qed

text \<open>C26: The client accepts nobody but the server.  Whatever arrives on its socket, the client
  finishes the handshake only if the signature in the hello it received verifies, under the public
  key in its own file, over its own public key followed by the received one, and its session keys
  are derived from exactly these two public keys.\<close>

theorem client_accepts_signed_transcript_only:
  assumes "client_finish P (int fd) cpub cpriv s = (Inr ks, t)"
  shows "\<exists>spub sig b pem pk z. pending_in s = hs_wire (hs_msg_val HS_SHLO) (shlo_payload (spub, sig)) @ b \<and>
    file_at s SERVER_PUBLIC_PEM = Some pem \<and> pem_public P pem = Some pk \<and>
    digest_verify P pk (cpub @ spub) sig \<and> ec_derive P cpriv spub = Some z \<and> ks = session_keys P z (cpub @ spub)"
  using client_finish_Inr [OF assms] by blast

theorem client_accepts_signed_transcript_only_witness:
  "\<exists>ks t b. client_finish sample_platform (int 3) (replicate 32 1) (replicate 32 1)
       (sample_env [(SERVER_PUBLIC_PEM, [7])]
         [R_data (hs_wire (hs_msg_val HS_SHLO) (shlo_payload ([5], [7] @ replicate 32 1 @ [5])))]) = (Inr ks, t) \<and>
     pem_public sample_platform [7] = Some b"
proof -
  let ?p = "([5], [7] @ replicate 32 1 @ [5]) :: bytes \<times> bytes"
  let ?s = "sample_env [(SERVER_PUBLIC_PEM, [7])] [R_data (hs_wire (hs_msg_val HS_SHLO) (shlo_payload ?p))]"
  have c: "calm ?s" "shlo_ok ?p" "pending_in ?s = hs_wire (hs_msg_val HS_SHLO) (shlo_payload ?p) @ []"
    "file_at ?s SERVER_PUBLIC_PEM = Some [7]"
    by (simp_all add: sample_env_def calm_def shlo_ok_def UINT32_MAX_def pending_in_def file_at_def hs_wire_def)
  have pl: "pem_public sample_platform [7] = Some [7]"
    "digest_verify sample_platform [7] (replicate 32 1 @ [5]) ([7] @ replicate 32 1 @ [5])" "[5] \<noteq> ([] :: bytes)"
    "ec_derive sample_platform (replicate 32 1) [5] = Some (map2 (XOR) (replicate 32 1) [5])"
    "length (replicate 32 (1 :: byte)) \<le> UINT32_MAX"
    by (simp_all add: sample_platform_def UINT32_MAX_def)
  from client_finish_calm [OF c(1,2) sample_hmac_length(2) c(3,4) pl, of 3] obtain ks t where
    r: "client_finish sample_platform (int 3) (replicate 32 1) (replicate 32 1) ?s = (Inr ks, t)" by blast
  from client_accepts_signed_transcript_only [OF r] c(4) have "\<exists>b. pem_public sample_platform [7] = Some b" by auto
  with r show ?thesis by blast
qed

end
