(* ===== verification/Machine.thy ===== *)
theory Machine
  imports Access
begin

text \<open>
  The abstract specification of the server: a machine whose state is the phase of the session,
  whether it has a key, and the accounts by name, and whose steps are labelled with a request and
  the status it is answered with.  The handlers of \<^verbatim>\<open>server/main.c\<close> and its loop refine it.
\<close>

section \<open>The abstract machine\<close>

text \<open>
  A deleted session remembers whether a change of password was still demanded, because the server
  then refuses even a public key to it.
\<close>

datatype phase = Anonymous | Must_Change bytes | Active bytes | Deleted bytes bool

fun phase_user :: "phase \<Rightarrow> bytes option" where
  "phase_user Anonymous = None"
| "phase_user (Must_Change n) = Some n"
| "phase_user (Active n) = Some n"
| "phase_user (Deleted n due) = Some n"

fun change_due :: "phase \<Rightarrow> bool" where
  "change_due (Must_Change n) = True"
| "change_due (Deleted n due) = due"
| "change_due p = False"

record view =
  vw_phase :: phase
  vw_keyed :: bool
  vw_accounts :: "bytes \<Rightarrow> auth_user option"

text \<open>The phase a login to an account begins with.\<close>

definition entry_phase :: "auth_user \<Rightarrow> phase" where
  "entry_phase u = (if u_deleted u = 1 then Deleted (u_username u) (u_must_change u = 1)
     else if u_must_change u = 1 then Must_Change (u_username u) else Active (u_username u))"

text \<open>A payload that is one string behind its length byte, and that string.\<close>

definition one_string :: "bytes \<Rightarrow> bool" where
  "one_string pt \<longleftrightarrow> 0 < unat (pt ! 1) \<and> length pt = 2 + unat (pt ! 1)"

definition payload_string :: "bytes \<Rightarrow> bytes" where
  "payload_string pt = cstr (take (unat (pt ! 1)) (drop 2 pt))"

definition new_account :: "'p platform_scheme \<Rightarrow> bytes \<Rightarrow> bytes \<Rightarrow> auth_user \<Rightarrow> auth_user" where
  "new_account P pw salt = with_password salt (pbkdf2 P pw salt AUTH_PBKDF2_ITERS AUTH_HASH_LEN)"

text \<open>The status a request that changes nothing may be refused with.\<close>

definition refusal :: "view \<Rightarrow> bytes \<Rightarrow> dss_status \<Rightarrow> bool" where
  "refusal a pt st = (case opcode_of (pt ! 0) of
     Some OP_AUTH \<Rightarrow> st = (if auth_shape pt then ST_ERR_AUTH else ST_ERR_BAD_REQ)
   | Some OP_GET_PUBLIC_KEY \<Rightarrow>
       st = (if change_due (vw_phase a) then ST_ERR_AUTH
         else if length pt = 1 then if vw_phase a = Anonymous then ST_ERR_AUTH else ST_ERR_NOT_FOUND
         else if one_string pt then ST_ERR_NOT_FOUND else ST_ERR_BAD_REQ)
   | op \<Rightarrow> (case vw_phase a of
       Anonymous \<Rightarrow> st = ST_ERR_AUTH
     | Deleted n due \<Rightarrow> op \<noteq> Some OP_LOGOUT \<and> st = ST_ERR_DELETED
     | Must_Change n \<Rightarrow> op \<noteq> Some OP_LOGOUT \<and>
         st = (if op \<noteq> Some OP_CHANGE_PASSWORD \<or> \<not> vw_keyed a then ST_ERR_AUTH
               else if one_string pt then ST_ERR_INTERNAL else ST_ERR_BAD_REQ)
     | Active n \<Rightarrow> op \<noteq> Some OP_LOGOUT \<and>
         st = (if op = None then ST_ERR_BAD_REQ
               else if \<not> vw_keyed a then ST_ERR_AUTH
               else if op = Some OP_CHANGE_PASSWORD \<and> \<not> one_string pt then ST_ERR_BAD_REQ
               else if op = Some OP_SIGN_DOC \<and> 65536 < length pt then ST_ERR_BAD_REQ
               else ST_ERR_INTERNAL)))"

text \<open>
  The steps.  A password change or a deletion that fails with \<open>ST_ERR_INTERNAL\<close> may have changed the
  account in memory already; a login that fails with it has logged the user in.
\<close>

inductive session_step :: "'p platform_scheme \<Rightarrow> view \<Rightarrow> bytes \<times> dss_status \<Rightarrow> view \<Rightarrow> bool"
  for P :: "'p platform_scheme" where
  login: "opcode_of (pt ! 0) = Some OP_AUTH \<Longrightarrow> auth_shape pt \<Longrightarrow>
    vw_accounts a (auth_name pt) = Some u \<Longrightarrow>
    pbkdf2 P (auth_pw pt) (u_salt u) AUTH_PBKDF2_ITERS AUTH_HASH_LEN = u_hash u \<Longrightarrow>
    st \<in> {ST_OK, ST_ERR_INTERNAL} \<Longrightarrow>
    session_step P a (pt, st) (a\<lparr>vw_phase := entry_phase u, vw_keyed := k\<rparr>)"
| logout: "opcode_of (pt ! 0) = Some OP_LOGOUT \<Longrightarrow> vw_phase a \<noteq> Anonymous \<Longrightarrow>
    session_step P a (pt, ST_OK) (a\<lparr>vw_phase := Anonymous, vw_keyed := False\<rparr>)"
| changed: "opcode_of (pt ! 0) = Some OP_CHANGE_PASSWORD \<Longrightarrow>
    vw_phase a = Must_Change n \<or> vw_phase a = Active n \<Longrightarrow> vw_keyed a \<Longrightarrow> one_string pt \<Longrightarrow>
    vw_accounts a n = Some u \<Longrightarrow> length salt = AUTH_SALT_LEN \<Longrightarrow>
    session_step P a (pt, ST_OK) (a\<lparr>vw_phase := Active n,
      vw_accounts := (vw_accounts a)(n \<mapsto> new_account P (payload_string pt) salt u)\<rparr>)"
| half_changed: "opcode_of (pt ! 0) = Some OP_CHANGE_PASSWORD \<Longrightarrow>
    vw_phase a = Must_Change n \<or> vw_phase a = Active n \<Longrightarrow> vw_keyed a \<Longrightarrow> one_string pt \<Longrightarrow>
    vw_accounts a n = Some u \<Longrightarrow> length salt = AUTH_SALT_LEN \<Longrightarrow>
    session_step P a (pt, ST_ERR_INTERNAL) (a\<lparr>
      vw_accounts := (vw_accounts a)(n \<mapsto> new_account P (payload_string pt) salt u)\<rparr>)"
| created: "opcode_of (pt ! 0) = Some OP_CREATE_KEYS \<Longrightarrow> vw_phase a = Active n \<Longrightarrow> vw_keyed a \<Longrightarrow>
    vw_accounts a n = Some u \<Longrightarrow> u_deleted u = 0 \<Longrightarrow> session_step P a (pt, ST_OK) a"
| found_deleted: "opcode_of (pt ! 0) = Some OP_CREATE_KEYS \<Longrightarrow> vw_phase a = Active n \<Longrightarrow> vw_keyed a \<Longrightarrow>
    vw_accounts a n = Some u \<Longrightarrow> u_deleted u \<noteq> 0 \<Longrightarrow>
    session_step P a (pt, ST_ERR_DELETED) (a\<lparr>vw_phase := Deleted n False\<rparr>)"
| signed: "opcode_of (pt ! 0) = Some OP_SIGN_DOC \<Longrightarrow> vw_phase a = Active n \<Longrightarrow> vw_keyed a \<Longrightarrow>
    vw_accounts a n = Some u \<Longrightarrow> u_deleted u = 0 \<Longrightarrow> length pt \<le> 65536 \<Longrightarrow>
    session_step P a (pt, ST_OK) a"
| fetched: "opcode_of (pt ! 0) = Some OP_GET_PUBLIC_KEY \<Longrightarrow> \<not> change_due (vw_phase a) \<Longrightarrow>
    (if length pt = 1 then vw_phase a \<noteq> Anonymous else one_string pt) \<Longrightarrow>
    session_step P a (pt, ST_OK) a"
| deleted: "opcode_of (pt ! 0) = Some OP_DELETE_KEYS \<Longrightarrow> vw_phase a = Active n \<Longrightarrow> vw_keyed a \<Longrightarrow>
    vw_accounts a n = Some u \<Longrightarrow>
    session_step P a (pt, ST_OK) (a\<lparr>vw_phase := Deleted n False,
      vw_accounts := (vw_accounts a)(n \<mapsto> with_deleted 1 u)\<rparr>)"
| half_deleted: "opcode_of (pt ! 0) = Some OP_DELETE_KEYS \<Longrightarrow> vw_phase a = Active n \<Longrightarrow> vw_keyed a \<Longrightarrow>
    vw_accounts a n = Some u \<Longrightarrow>
    session_step P a (pt, ST_ERR_INTERNAL) (a\<lparr>
      vw_accounts := (vw_accounts a)(n \<mapsto> with_deleted 1 u)\<rparr>)"
| refused: "st \<noteq> ST_OK \<Longrightarrow> refusal a pt st \<Longrightarrow> session_step P a (pt, st) a"

inductive_cases session_step_E: "session_step P a (pt, st) b"

text \<open>A sequence of requests and their statuses.\<close>

inductive session_run :: "'p platform_scheme \<Rightarrow> view \<Rightarrow> (bytes \<times> dss_status) list \<Rightarrow> view \<Rightarrow> bool"
  for P :: "'p platform_scheme" where
  run_nil: "session_run P a [] a"
| run_cons: "session_step P a e b \<Longrightarrow> session_run P b es c \<Longrightarrow> session_run P a (e # es) c"

inductive_simps session_run_nil [simp]: "session_run P a [] b"
inductive_simps session_run_cons: "session_run P a (e # es) b"

section \<open>What the machine guarantees\<close>

abbreviation logins :: "(bytes \<times> dss_status) list \<Rightarrow> bool" where
  "logins es \<equiv> list_ex (\<lambda>(pt, st). opcode_of (pt ! 0) = Some OP_AUTH \<and> st \<in> {ST_OK, ST_ERR_INTERNAL}) es"

text \<open>Without a login the user stays, or is logged out; and a deleted session stays deleted.\<close>

definition later_phase :: "phase \<Rightarrow> phase \<Rightarrow> bool" where
  "later_phase p q \<longleftrightarrow> q = Anonymous \<or> phase_user q = phase_user p \<and>
     (case p of Deleted n due \<Rightarrow> q = p | _ \<Rightarrow> True)"

lemma later_phase_refl [simp]: "later_phase p p"
  by (cases p) (simp_all add: later_phase_def)

lemma later_phase_trans: "later_phase p q \<Longrightarrow> later_phase q r \<Longrightarrow> later_phase p r"
  by (cases p; cases q; cases r) (auto simp: later_phase_def)

lemma session_step_later:
  "session_step P a e b \<Longrightarrow> \<not> logins [e] \<Longrightarrow> later_phase (vw_phase a) (vw_phase b)"
  by (induction rule: session_step.induct) (auto simp: later_phase_def split: phase.split)

lemma session_run_later:
  "session_run P a es b \<Longrightarrow> \<not> logins es \<Longrightarrow> later_phase (vw_phase a) (vw_phase b)"
proof (induction rule: session_run.induct)
  case (run_cons a e b es c)
  then have "later_phase (vw_phase a) (vw_phase b)" "later_phase (vw_phase b) (vw_phase c)"
    using session_step_later [of P a e b] by auto
  then show ?case by (rule later_phase_trans)
qed simp

end
