(* ===== verification/ClientProps.thy ===== *)
theory ClientProps
  imports Exchange
begin

text \<open>
  The properties of the client: what a whole run leaves behind, whatever is typed and received.
\<close>

section \<open>A run of the client\<close>

context client_frame
begin

lemma loop_within: "R s (client_loop P fd ks s)"
proof (induction "length (c_stdin s)" arbitrary: s rule: less_induct)
  case less
  obtain r t where l: "read_line ''dss> '' 1024 s = (r, t)" by fastforce
  have Rt: "R s t" using withinD [OF within_read_line l] .
  show ?case
  proof (cases r)
    case (Inl e)
    with l Rt show ?thesis by (simp add: client_loop.simps [of P fd ks s])
  next
    case (Inr line)
    obtain rc u where c: "client_command P fd ks line t = (rc, u)" by fastforce
    have Ru: "R s u" using frame_trans [OF Rt withinD [OF within_command c]] .
    have "length (c_stdin t) < length (c_stdin s)" using read_line_shrinks l Inr by fastforce
    with withinD [OF input_shrinks.within_command c] have "R u (client_loop P fd ks u)"
      by (intro less.hyps) simp
    with frame_trans [OF Ru] Ru l Inr c show ?thesis by (simp add: client_loop.simps [of P fd ks s])
  qed
qed

lemma main_within:
  assumes "\<And>s c. R s (s\<lparr>c_state := c\<rparr>)" and "client_main P gai s = (code, fds, t)"
  shows "R s t"
proof -
  define s1 where "s1 = s\<lparr>c_state := cli_state_zero\<rparr>"
  have 1: "R s s1" unfolding s1_def by (rule assms(1))
  obtain rc fds1 where c: "tcp_connect gai [] = (rc, fds1)" by fastforce
  show ?thesis
  proof (cases rc)
    case (Inl e)
    with assms(2) c 1 show ?thesis by (simp add: client_main_def s1_def)
  next
    case (Inr fd)
    obtain rh u where h: "run_handshake P fd s1 = (rh, u)" by fastforce
    have 2: "R s u" using frame_trans [OF 1 withinD [OF within_run_handshake h]] .
    show ?thesis
    proof (cases rh)
      case (Inl e)
      with assms(2) c Inr h 2 show ?thesis by (simp add: client_main_def flip: s1_def)
    next
      case ok: (Inr ks)
      obtain x :: "unit + unit" and v where p: "puts ''Connected and handshake complete.'' u = (x, v)"
        by fastforce
      have 3: "R s v" using frame_trans [OF 2 withinD [OF within_puts p]] .
      have "t = client_loop P fd ks v" using assms(2) c Inr h ok p by (simp add: client_main_def flip: s1_def)
      with frame_trans [OF 3 loop_within] show ?thesis by simp
    qed
  qed
qed

end

text \<open>The terminal: a password prompt gives the echo flag back.\<close>

interpretation terminal: client_io "\<lambda>s t. calm s \<longrightarrow> calm t \<and> c_echo t = c_echo s"
  by unfold_locales (auto simp: calm_def)

lemma calm_client [simp]:
  "calm (s\<lparr>c_echo := b\<rparr>) = calm s" "calm (s\<lparr>c_stdout := o'\<rparr>) = calm s" "calm (s\<lparr>c_stdin := i\<rparr>) = calm s"
  "calm (s\<lparr>c_state := c\<rparr>) = calm s"
  by (simp_all add: calm_def)

lemma set_echo_calm: "calm s \<Longrightarrow> set_echo b s = (Inr (), s\<lparr>w_tick := Suc (w_tick s), c_echo := b\<rparr>)"
  by (simp add: set_echo_def io_def)

lemma fgets_stdin_echo: "fgets_stdin n s = (r, t) \<Longrightarrow> c_echo t = c_echo s \<and> (calm s \<longrightarrow> calm t)"
  by (auto simp: fgets_stdin_def split: if_splits prod.splits)

lemma read_password_echo:
  assumes "read_password p n s = (r, t)" and c: "calm s"
  shows "calm t \<and> c_echo t = c_echo s"
proof (cases "n = 0")
  case True
  with assms show ?thesis by (simp add: read_password_def raise_run)
next
  case n: False
  let ?a = "s\<lparr>c_stdout := c_stdout s @ ascii p\<rparr>"
  show ?thesis
  proof (cases "c_tty s")
    case False
    have "read_password p n s = bind_io (fgets_stdin n) (\<lambda>buf. ret (trim_newline buf)) ?a"
      using n False by (simp add: read_password_def out_def io_def)
    with assms show ?thesis by (cases r) (auto simp: io_inv dest!: fgets_stdin_echo)
  next
    case True
    let ?b = "?a\<lparr>w_tick := Suc (Suc (w_tick s)), c_echo := False\<rparr>"
    obtain rf u where f: "fgets_stdin n ?b = (rf, u)" by fastforce
    from fgets_stdin_echo [OF f] have "calm u" using c by simp
    then show ?thesis
      using assms True n f by (cases rf) (auto simp: read_password_def out_def io_def set_echo_calm)
  qed
qed

interpretation terminal_kept: client_frame "\<lambda>s t. calm s \<longrightarrow> calm t \<and> c_echo t = c_echo s"
  by unfold_locales (auto intro!: withinI dest: read_password_echo)

section \<open>Properties\<close>

text \<open>C24: A run of the client leaves no trace but its output.  Whatever is typed and whatever arrives on
  the socket, \<open>main\<close> ends once the input is used up, closes every descriptor it has opened, returns 0
  or 1 and changes no file; and if the library calls work, the terminal echoes again as it did
  before.\<close>

theorem client_leaves_no_trace:
  assumes "fresh_fds gai []" and "client_main P gai s = (code, fds, t)"
  shows "fds = [] \<and> code \<in> {0, 1} \<and> w_files t = w_files s \<and> w_dirs t = w_dirs s \<and>
    (calm s \<longrightarrow> c_echo t = c_echo s)"
proof -
  have "fds = [] \<and> code \<in> {0, 1}"
    using assms(2) tcp_connect_fds [OF assms(1)]
    by (auto simp: client_main_def Let_def close_fd_def split: prod.splits sum.splits)
  moreover have "w_files t = w_files s \<and> w_dirs t = w_dirs s"
    using client_files.main_within [OF _ assms(2)] by simp
  moreover have "calm s \<longrightarrow> c_echo t = c_echo s"
    using terminal_kept.main_within [OF _ assms(2)] by simp
  ultimately show ?thesis by blast
qed

definition sample_client :: "bytes \<Rightarrow> recv_event list \<Rightarrow> cli_state \<Rightarrow> client_env" where
  "sample_client input rx cl = \<lparr>w_fault = (\<lambda>_. False), w_part = (\<lambda>_. 0), w_tick = 0, w_tape = of_nat,
     w_rpos = 0, w_files = [], w_dirs = [], w_rx = rx, w_plan = [], w_tx = [],
     c_stdin = input, c_stdout = [], c_tty = True, c_echo = True, c_state = cl\<rparr>"

theorem client_leaves_no_trace_witness:
  "\<exists>code t. client_main sample_platform (Gai_ok [\<lparr>ep_socket = Inr 3, ep_connect = None, ep_reuse = None,
         ep_bind = None, ep_listen = None\<rparr>]) (sample_client (ascii ''quit'') [] cli_state_zero) = (code, [], t) \<and>
     c_echo t"
proof -
  let ?gai = "Gai_ok [\<lparr>ep_socket = Inr 3, ep_connect = None, ep_reuse = None, ep_bind = None, ep_listen = None\<rparr>]"
  let ?c = "sample_client (ascii ''quit'') [] cli_state_zero"
  have f: "fresh_fds ?gai []" by (simp add: fresh_fds_def)
  obtain code fds t where m: "client_main sample_platform ?gai ?c = (code, fds, t)" by (rule prod_cases3)
  from client_leaves_no_trace [OF f m] m show ?thesis by (auto simp: sample_client_def calm_def)
qed

end
