(* ===== verification/Agreement.thy ===== *)
theory Agreement
  imports ClientProps
begin

text \<open>
  What the client believes of its login and what the server keeps in its session agree (\<open>agrees\<close>):
  every command that is answered keeps it so.
\<close>

section \<open>The status of a refused request\<close>

lemma op_auth_refusal: "op_auth P pt s = (Inl e, t) \<Longrightarrow> e \<noteq> ST_OK"
  by (cases "auth_shape pt")
     (auto simp: op_auth_eq io_inv set_session_def raise_run unit_sum split: sum.splits prod.splits dest: lib_call_Inl)

lemma op_refusals:
  "op_change_password P pt s = (Inl e, t) \<Longrightarrow> e \<noteq> ST_OK"
  "op_create_keys P s = (Inl e, t) \<Longrightarrow> e \<noteq> ST_OK"
  "op_sign_doc P pt s = (Inl e, t) \<Longrightarrow> e \<noteq> ST_OK"
  "op_get_public_key P pt s = (Inl e, t) \<Longrightarrow> e \<noteq> ST_OK"
  "op_delete_keys s = (Inl e, t) \<Longrightarrow> e \<noteq> ST_OK"
  by (auto simp: op_change_password_def op_create_keys_def op_sign_doc_def op_get_public_key_def
      op_delete_keys_def session_run io_inv set_session_def Let_def split: if_split_asm)

lemma handle_refusal:
  assumes "server_handle P pt s = (Inl e, t)"
  shows "e \<noteq> ST_OK"
proof (cases "gate (sv_session s) (pt ! 0)")
  case (Some e')
  with assms show ?thesis by (auto simp: server_handle_gate gate_def Let_def split: if_splits)
next
  case None
  with assms have "dispatch P pt s = (Inl e, t)" by (simp add: server_handle_gate)
  then show ?thesis
    by (cases rule: dispatch_cases) (auto simp: op_logout_run dest: op_auth_refusal op_refusals)
qed

lemma answer_cases:
  assumes "server_answer P pt s = (Inr (st, data), t)"
  shows "(st = ST_OK \<and> server_handle P pt s = (Inr data, t)) \<or>
    (st \<noteq> ST_OK \<and> server_handle P pt s = (Inl st, t))"
proof -
  obtain r u where h: "server_handle P pt s = (r, u)" by fastforce
  with assms handle_refusal [of P pt s _ u] show ?thesis
    by (cases r) (auto simp: server_answer_def io_def)
qed

lemma op_auth_fails:
  assumes "op_auth P pt s = (Inl e, t)" and "calm s"
  shows "sv_session t = sv_session s"
proof -
  have "\<not> w_fault s n" for n using assms(2) by (simp add: calm_def)
  moreover have "calm u" if "auth_verify_password P name pw s = (r, u)" for name pw r u
    using auth_verify_password_run(1) [OF that] assms(2) by auto
  ultimately show ?thesis
    using assms(1)
    by (cases "auth_shape pt")
       (auto simp: op_auth_eq io_inv set_session_def raise_run lib_call_def unit_sum split: sum.splits prod.splits if_splits
         dest!: ks_derive_session_key_run auth_verify_password_run(1))
qed

text \<open>
  When a call does fail, the session can change all the same: the server sets the session before it
  allocates the two bytes of the answer, so without memory for them the user is logged in and is
  told \<open>ST_ERR_INTERNAL\<close>.
\<close>

lemma login_without_answer:
  assumes "auth_shape pt" and "auth_verify_password P (auth_name pt) (auth_pw pt) s = (Inr (mc, del), u)"
    and "ks_derive_session_key P (auth_name pt) (auth_pw pt) (u\<lparr>sv_session := fresh_session (auth_name pt) mc del None\<rparr>) = (rk, v)"
    and "w_fault v (w_tick v)"
  shows "\<exists>t. op_auth P pt s = (Inl ST_ERR_INTERNAL, t) \<and> ss_is_authenticated (sv_session t) = 1 \<and>
    ss_username (sv_session t) = auth_name pt"
proof -
  from ks_derive_session_key_run [OF assms(3)] have "sv_session v = fresh_session (auth_name pt) mc del None" by auto
  with assms show ?thesis
    by (cases rk) (simp_all add: op_auth_eq io_def set_session_def fresh_session_def lib_call_def Let_def)
qed

section \<open>Agreement\<close>

text \<open>
  The two flags of a login agree while the client believes it is logged in; the server may know of
  a deletion that the client was not told of.
\<close>

definition agrees :: "cli_state \<Rightarrow> session_state \<Rightarrow> bool" where
  "agrees c ss = (if cs_logged_in c = 0 then ss_is_authenticated ss = 0
     else ss_is_authenticated ss = 1 \<and> cs_username c = ss_username ss \<and>
       cs_must_change c = ss_must_change ss \<and> (cs_deleted c = 1 \<longrightarrow> ss_deleted ss = 1))"

lemma agrees_start: "agrees cli_state_zero session_clear"
  by (simp add: agrees_def cli_state_zero_def)

lemma agrees_kept:
  assumes "server_answer P (opcode_val opc # pt) v = (Inr (st, data), w)" and "agrees c (sv_session v)"
    and "opc \<noteq> OP_AUTH" and "opc \<in> {OP_CHANGE_PASSWORD, OP_LOGOUT} \<Longrightarrow> st \<noteq> ST_OK"
  shows "agrees c (sv_session w)"
proof -
  obtain r where h: "server_handle P (opcode_val opc # pt) v = (r, w)" "st = ST_OK \<Longrightarrow> r = Inr data"
    "st \<noteq> ST_OK \<Longrightarrow> r = Inl st" using answer_cases [OF assms(1)] by blast
  have "sv_session w = sv_session v \<or> ss_is_authenticated (sv_session v) = 1 \<and>
    sv_session w = (sv_session v)\<lparr>ss_deleted := 1\<rparr>"
  proof (cases "gate (sv_session v) (opcode_val opc)")
    case (Some e)
    with h(1) show ?thesis by (simp add: server_handle_gate)
  next
    case None
    with h(1) have "dispatch P (opcode_val opc # pt) v = (r, w)" by (simp add: server_handle_gate)
    then show ?thesis
    proof (cases rule: dispatch_cases)
      case auth
      with assms(3) show ?thesis by (cases opc) auto
    next
      case change
      then have "opc = OP_CHANGE_PASSWORD" by (cases opc) auto
      with assms(4) h(3) change(2) op_change_password_fails show ?thesis by blast
    next
      case logout
      then have "opc = OP_LOGOUT" by (cases opc) auto
      with assms(4) h(3) logout(2) show ?thesis by (simp add: op_logout_run)
    next
      case create
      with op_create_keys_session [OF create(2)] show ?thesis by auto
    next
      case sign
      with op_sign_doc_session [OF sign(2)] show ?thesis by simp
    next
      case get
      with op_get_public_key_session [OF get(2)] show ?thesis by simp
    next
      case delete
      with op_delete_keys_session [OF delete(2)] show ?thesis by auto
    next
      case unknown
      then show ?thesis by simp
    qed
  qed
  with assms(2) show ?thesis by (auto simp: agrees_def)
qed

lemma answer_ok_dispatch:
  assumes "server_answer P (b # pt) v = (Inr (ST_OK, data), w)"
  shows "gate (sv_session v) b = None \<and> dispatch P (b # pt) v = (Inr data, w)"
  using answer_cases [OF assms] by (auto simp: server_handle_gate split: option.splits)

lemma agrees_changed:
  assumes "server_answer P (opcode_val OP_CHANGE_PASSWORD # pt) v = (Inr (ST_OK, data), w)" and "agrees c (sv_session v)"
  shows "agrees (c\<lparr>cs_must_change := 0\<rparr>) (sv_session w)"
proof -
  have o': "op_change_password P (1 # pt) v = (Inr data, w)"
    using answer_ok_dispatch [of P 1 pt v data w] assms(1)
    by (auto elim: dispatch_cases)
  from op_change_password_Inr [OF o'] have "ss_is_authenticated (sv_session v) = 1" "ss_must_change (sv_session w) = 0"
    by (auto simp: Let_def)
  moreover from op_change_password_session [OF o']
  have "ss_is_authenticated (sv_session w) = ss_is_authenticated (sv_session v)" "ss_username (sv_session w) = ss_username (sv_session v)"
    "ss_deleted (sv_session w) = ss_deleted (sv_session v)"
    by auto
  ultimately show ?thesis using assms(2) by (auto simp: agrees_def)
qed

lemma agrees_deleted:
  assumes "server_answer P (opcode_val OP_DELETE_KEYS # pt) v = (Inr (ST_OK, data), w)" and "agrees c (sv_session v)"
  shows "agrees (c\<lparr>cs_deleted := 1\<rparr>) (sv_session w)"
proof -
  have "op_delete_keys v = (Inr data, w)"
    using answer_ok_dispatch [of P 5 pt v data w] assms(1) by (auto elim: dispatch_cases)
  then have "ss_deleted (sv_session w) = 1" using op_delete_keys_Inr by fastforce
  moreover have "agrees c (sv_session w)" using agrees_kept [OF assms] by simp
  ultimately show ?thesis by (simp add: agrees_def)
qed

lemma agrees_logged_out:
  assumes "server_answer P (opcode_val OP_LOGOUT # pt) v = (Inr (ST_OK, data), w)"
  shows "agrees cli_state_zero (sv_session w)"
proof -
  have "op_logout v = (Inr data, w)"
    using answer_ok_dispatch [of P 6 pt v data w] assms(1) by (auto elim: dispatch_cases)
  then show ?thesis using agrees_start by (auto simp: op_logout_run)
qed

text \<open>The payload of a login, as the client writes it and as the server reads it.\<close>

lemma login_payload:
  assumes "0 \<notin> set name" and "length name \<le> 255"
  shows "auth_name (b # of_nat (length name) # name @ r) = name"
proof -
  have "unat (of_nat (length name) :: byte) = length name" using assms(2) by (simp add: unat_of_nat_8)
  then show ?thesis by (simp add: auth_name_def cstr_id [OF assms(1)])
qed

lemma agrees_login:
  assumes "server_answer P (opcode_val OP_AUTH # of_nat (length name) # name @ r) v = (Inr (st, data), w)"
    and "agrees c (sv_session v)" and "auth_inv v" and "calm v" and "0 \<notin> set name" and "length name \<le> 255"
  shows "if st = ST_OK \<and> length data = 2
    then agrees \<lparr>cs_logged_in = 1, cs_must_change = of_bool (data ! 0 \<noteq> 0), cs_deleted = of_bool (data ! 1 \<noteq> 0),
           cs_username = name\<rparr> (sv_session w)
    else agrees c (sv_session w)"
proof -
  let ?pt = "0 # of_nat (length name) # name @ r"
  have gate: "gate (sv_session v) 0 = None" by (simp add: gate_def)
  have op0: "opcode_of 0 = Some OP_AUTH" using opcode_of_val [of OP_AUTH] by simp
  obtain ra where a: "op_auth P ?pt v = (ra, w)" "st = ST_OK \<Longrightarrow> ra = Inr data" "st \<noteq> ST_OK \<Longrightarrow> ra = Inl st"
    using answer_cases [OF assms(1)] gate by (auto simp: server_handle_gate dispatch_def op0)
  show ?thesis
  proof (cases "st = ST_OK")
    case False
    with a op_auth_fails [OF _ assms(4)] have "sv_session w = sv_session v" by blast
    with False assms(2) show ?thesis by simp
  next
    case True
    then have ok: "op_auth P ?pt v = (Inr data, w)" using a by simp
    from op_auth_run [OF ok] obtain mc del u key k where
      v: "auth_verify_password P (auth_name ?pt) (auth_pw ?pt) v = (Inr (mc, del), u)" and
      d: "data = [word_of_int mc, word_of_int del]" and
      w: "w = v\<lparr>sv_session := fresh_session (auth_name ?pt) mc del key, w_tick := k\<rparr>" by auto
    from auth_verify_password_run(2) [OF v refl] obtain i where i: "auth_find_user (g_users v) (auth_name ?pt) = Some i"
      and f: "mc = u_must_change (g_users v ! i)" "del = u_deleted (g_users v ! i)" by blast
    with find_user_name [OF i] assms(3) have "mc \<in> {0, 1}" "del \<in> {0, 1}"
      by (auto simp: auth_inv_def user_ok_def)
    then have fl: "of_bool (data ! 0 \<noteq> 0) = mc" "of_bool (data ! 1 \<noteq> 0) = del" by (auto simp: d)
    have ss: "ss_is_authenticated (fresh_session n m e kk) = 1" "ss_must_change (fresh_session n m e kk) = m"
      "ss_deleted (fresh_session n m e kk) = e" "ss_username (fresh_session n m e kk) = n" for n m e kk
      by (auto simp: fresh_session_def session_clear_def Let_def split: option.split)
    have "length data = 2" by (simp add: d)
    with fl(2) have "data ! 1 \<noteq> 0 \<Longrightarrow> del = 1" by auto
    with \<open>length data = 2\<close> show ?thesis
      using True fl by (simp add: agrees_def w ss login_payload [OF assms(5,6)])
  qed
qed

section \<open>A command and its answer\<close>

text \<open>
  The client goes from \<open>c\<close> to \<open>c'\<close> while the server takes one turn of its loop from \<open>s\<close> to \<open>s'\<close>:
  the server reads what the client has written, and the client reads what the server has written.
  No library call fails on either side; the client's socket may accept its bytes in any pieces.
  If a call failed, the two could disagree: a server that cannot allocate the answer to a login
  has logged the user in and answers \<open>ST_ERR_INTERNAL\<close>.
\<close>

definition answered ::
  "'p platform_scheme \<Rightarrow> bytes \<times> bytes \<Rightarrow> 'q client_env_scheme \<Rightarrow> 'q client_env_scheme \<Rightarrow>
   'r server_env_scheme \<Rightarrow> 'r server_env_scheme \<Rightarrow> bool" where
  "answered P ks c c' s s' \<longleftrightarrow>
     calm c \<and> w_tx c = [] \<and> calm s \<and> w_tx s = [] \<and> session_ok s \<and> replay_inv (sv_cache s) \<and>
     pending_in s = w_tx c' \<and> pending_in c = w_tx s' \<and>
     (\<exists>sfd x. server_step P (int sfd) (fst ks) (snd ks) s = (Inr x, s'))"

text \<open>What the client keeps while it prompts, sends and receives.\<close>

interpretation quiet: prompt_frame "\<lambda>s t. w_tx s = w_tx t"
  by unfold_locales auto

interpretation prompting: prompt_frame
  "\<lambda>s t. (w_plan s, w_tx s, w_rx s, w_fault s, c_state s) = (w_plan t, w_tx t, w_rx t, w_fault t, c_state t)"
  by unfold_locales auto

interpretation sending: env_frame "\<lambda>s t. (w_rx s, w_fault s, c_state s) = (w_rx t, w_fault t, c_state t)"
  by unfold_locales auto

interpretation awaiting: env_frame "\<lambda>s t. (w_tx s, c_state s) = (w_tx t, c_state t)"
  by unfold_locales auto

lemma quiet_set_cli: "within (\<lambda>s t. w_tx s = w_tx t) (set_cli f)"
  by (simp add: set_cli_def within_def io_def)

lemmas quiet_intros = quiet.within_out quiet.within_puts quiet.within_failure quiet_set_cli
  frame_same.within_then frame_same.within_if frame_same.within_case_prod frame_same.within_ret

lemma answered_sends: "answered P ks c c' s s' \<Longrightarrow> w_tx c' \<noteq> []"
proof
  assume a: "answered P ks c c' s s'" and "w_tx c' = []"
  then obtain sfd x where p: "pending_in s = []" and "server_step P (int sfd) (fst ks) (snd ks) s = (Inr x, s')"
    by (auto simp: answered_def)
  then obtain y t where "server_receive P (int sfd) (fst ks) s = (Inr y, t)"
    by (auto simp: server_step_def io_inv)
  then obtain z u where "dsspacket_recv P (int sfd) s = (Inr z, u)"
    by (auto simp: server_receive_def io_inv)
  from dsspacket_recv_sound [OF this] p show False by (cases z) (auto simp: packet_wire_def be32_def split: option.splits)
qed

lemma answered_cong:
  "answered P ks c c' s s' \<Longrightarrow> (w_plan c, w_tx c, w_rx c, w_fault c) = (w_plan d, w_tx d, w_rx d, w_fault d) \<Longrightarrow>
     answered P ks d c' s s'"
  by (auto simp: answered_def calm_def pending_in_def)

lemma dsspacket_send_long:
  "dsspacket_send P fd h p s = (Inl e, t) \<Longrightarrow> 10485760 < unat (ntohl P (hdr_payload_len h)) \<Longrightarrow> t = s"
  using payload_bound [of "ntohl P (hdr_payload_len h)"]
  by (auto simp: dsspacket_send_def Let_def io_inv raise_run not_less split: if_splits)

lemmas sc_aead_encrypt_run = withinD [OF ticks_only.within_sc_encrypt]

lemma send_request_long:
  assumes "gcm_spec P" and "send_request P fd k opc pt c = (r, t)" and "10485760 < 29 + length pt"
  shows "\<exists>e. r = Inl e \<and> w_tx t = w_tx c"
proof (cases r)
  case (Inr u)
  with send_request_Inr [OF assms(1), of fd k opc pt c u t] assms(2,3) show ?thesis by (auto simp: sealed_ok_def)
next
  case (Inl e)
  have "29 + length pt < 2 ^ 32 \<Longrightarrow> unat (of_nat (29 + length pt) :: 32 word) = 29 + length pt" by (rule unat_of_nat_32)
  then have l: "w_tx v = w_tx s" if "dsspacket_send P fd h p s = (Inl f, v)" "29 + length pt < 2 ^ 32"
      "hdr_payload_len h = htonl P (of_nat (29 + length pt))" for s v f h p
    using dsspacket_send_long [OF that(1)] that(2,3) assms(3) by simp
  have "w_tx t = w_tx c"
    using assms(2) unfolding Inl
    by (auto simp: send_request_def Let_def io_inv GCM_IV_LEN_def GCM_TAG_LEN_def UINT32_MAX_def
        simp del: lib_calls.simps split: if_splits prod.splits
        dest!: rand_bytes_run lib_calls_run sc_aead_encrypt_run l)
  with Inl show ?thesis by simp
qed

lemma request_quiet: "request P fd ks opc pt c = (r, d) \<Longrightarrow>
  send_request_and_get_response P fd (fst ks) (snd ks) opc pt c = (ro, e) \<Longrightarrow> w_tx d = w_tx e"
  by (cases ro) (auto simp: request_def io_def give_up_def puts_def out_def)

lemma answered_request:
  fixes s :: "'r server_env_scheme"
  assumes g: "gcm_spec P" and a: "answered P ks c c1 s s'" and run: "request P (int cfd) ks opc pt c = (r, c1)"
  shows "\<exists>(v :: 'r server_env_scheme) st data w. r = Inr (status_val st, data) \<and> server_kept v = server_kept s \<and>
    server_answer P (opcode_val opc # pt) v = (Inr (st, data), w) \<and> sv_session s' = sv_session w \<and>
    c_state c1 = c_state c"
proof -
  have cc: "calm c" "w_tx c = []" "pending_in s = w_tx c1" "pending_in c = w_tx s'" "calm s"
    "w_tx s = []" "replay_inv (sv_cache s)" and "\<exists>sfd x. server_step P (int sfd) (fst ks) (snd ks) s = (Inr x, s')"
    using a by (simp_all add: answered_def)
  then obtain sfd x where st: "server_step P (int sfd) (fst ks) (snd ks) s = (Inr x, s')" by blast
  obtain rs c3 where snd: "send_request P (int cfd) (fst ks) opc pt c = (rs, c3)" by fastforce
  have k3: "w_rx c3 = w_rx c" "w_fault c3 = w_fault c" "c_state c3 = c_state c"
    using withinD [OF sending.within_send_request snd] by simp_all
  show ?thesis
  proof (cases rs)
    case (Inl e)
    then have "send_request_and_get_response P (int cfd) (fst ks) (snd ks) opc pt c = (Inl e, c3)"
      using snd by (simp add: send_request_and_get_response_def io_def)
    then have tx: "w_tx c1 = w_tx c3" by (rule request_quiet [OF run])
    show ?thesis
    proof (cases "29 + length pt \<le> 10485760")
      case True
      from send_request_partial [OF g cc(1) of_nat_0_le_iff True snd [unfolded Inl]] tx cc(2,3) obtain y n where
        "packet_ok P y" "n < length (packet_wire P y)" "pending_in s = take n (packet_wire P y)" by auto
      note part = partial_packet [OF this]
      from st obtain y' t where "server_receive P (int sfd) (fst ks) s = (Inr y', t)"
        by (auto simp: server_step_def io_inv)
      then obtain z u where "dsspacket_recv P (int sfd) s = (Inr z, u)"
        by (auto simp: server_receive_def io_inv)
      with part show ?thesis by blast
    next
      case False
      then have "w_tx c3 = w_tx c" using send_request_long [OF g snd] by simp
      with tx cc(2) answered_sends [OF a] show ?thesis by simp
    qed
  next
    case (Inr u)
    obtain ra c4 where rcv: "recv_response P (int cfd) (snd ks) opc c3 = (ra, c4)" by fastforce
    have k4: "w_tx c4 = w_tx c3" "c_state c4 = c_state c3"
      using withinD [OF awaiting.within_recv_response rcv] by simp_all
    have ex: "send_request_and_get_response P (int cfd) (fst ks) (snd ks) opc pt c = (ra, c4)"
      using snd Inr rcv by (simp add: send_request_and_get_response_def io_def)
    then have "w_tx c1 = w_tx c3" using request_quiet [OF run] k4(1) by simp
    then have p: "pending_in s = w_tx c3 @ []" "calm c3" "pending_in c3 = w_tx s' @ []"
      using cc k3 by (simp_all add: calm_def pending_in_def)
    from exchange_run [OF g snd [unfolded Inr] cc(2,5,7) p(1) cc(6) st p(2,3), of cfd]
    obtain v :: "'r server_env_scheme" and status data w d' where v: "server_kept v = server_kept s"
      "server_answer P (opcode_val opc # pt) v = (Inr (status, data), w)" "sv_session s' = sv_session w"
      and d: "recv_response P (int cfd) (snd ks) opc c3 = (Inr (status_val status, data), d')" by blast
    from d rcv have ra: "ra = Inr (status_val status, data)" by simp
    have "r = Inr (status_val status, data)" "c1 = c4"
      using run ex ra by (auto simp: request_def io_def)
    with v k3 k4 show ?thesis by auto
  qed
qed

text \<open>A command is a request and what the client makes of the answer.\<close>

lemma answered_command:
  fixes s :: "'r server_env_scheme"
  assumes g: "gcm_spec P" and a: "answered P ks c c' s s'"
    and run: "bind_io (request P (int cfd) ks opc pt) k c = (r, c')"
    and quiet: "\<And>y. within (\<lambda>s t. w_tx s = w_tx t) (k y)"
  obtains v :: "'r server_env_scheme" and st data w c1 where "server_kept v = server_kept s"
    and "server_answer P (opcode_val opc # pt) v = (Inr (st, data), w)" and "sv_session s' = sv_session w"
    and "c_state c1 = c_state c" and "k (status_val st, data) c1 = (r, c')"
proof -
  obtain r1 c1 where q: "request P (int cfd) ks opc pt c = (r1, c1)" by fastforce
  have "w_tx c' = w_tx c1"
  proof (cases r1)
    case (Inl e)
    with run q show ?thesis by (simp add: io_def)
  next
    case (Inr y)
    with run q have "k y c1 = (r, c')" by (simp add: io_def)
    with withinD [OF quiet] show ?thesis by metis
  qed
  then have "answered P ks c c1 s s'" using a by (simp add: answered_def)
  from answered_request [OF g this q] run q that show thesis
    by (auto simp: io_def split: sum.splits)
qed

lemma kept_session:
  "server_kept v = server_kept s \<Longrightarrow> session_ok s \<Longrightarrow> calm s \<Longrightarrow>
     sv_session v = sv_session s \<and> auth_inv v \<and> calm v"
  by (simp add: server_kept_def session_ok_def auth_inv_def calm_def)

section \<open>The commands\<close>

lemma agrees_simple:
  fixes s :: "'r server_env_scheme"
  assumes g: "gcm_spec P" and a: "answered P ks c c' s s'" and ag: "agrees (c_state c) (sv_session s)"
    and op: "opc \<noteq> OP_AUTH" "opc \<noteq> OP_CHANGE_PASSWORD" "opc \<noteq> OP_LOGOUT"
    and run: "bind_io (request P (int cfd) ks opc pt) k c = (r, c')"
    and quiet: "\<And>y. within (\<lambda>s t. (w_tx s, c_state s) = (w_tx t, c_state t)) (k y)"
  shows "agrees (c_state c') (sv_session s')"
proof -
  have q: "within (\<lambda>s t. w_tx s = w_tx t) (k y)" for y using quiet [of y] by (rule within_mono) simp
  from answered_command [OF g a run q] obtain v :: "'r server_env_scheme" and st data w c1 where
    v: "server_kept v = server_kept s" "server_answer P (opcode_val opc # pt) v = (Inr (st, data), w)"
      "sv_session s' = sv_session w" "c_state c1 = c_state c" "k (status_val st, data) c1 = (r, c')" by blast
  have "c_state c' = c_state c" using withinD [OF quiet v(5)] v(4) by simp
  moreover have "session_ok s" "calm s" using a by (simp_all add: answered_def)
  with kept_session [OF v(1)] have "sv_session v = sv_session s" by simp
  ultimately show ?thesis using agrees_kept [OF v(2) _ op(1)] op ag v(3) by auto
qed

interpretation printing: prompt_frame "\<lambda>s t. (w_tx s, c_state s) = (w_tx t, c_state t)"
  by unfold_locales auto

lemmas printing_intros = printing.within_out printing.within_puts printing.within_failure
  frame_same.within_if frame_same.within_case_prod

lemma createkeys_agrees:
  assumes "gcm_spec P" and "answered P ks c c' s s'" and "agrees (c_state c) (sv_session s)"
    and "cmd_createkeys P (int cfd) ks c = (r, c')"
  shows "agrees (c_state c') (sv_session s')"
  by (rule agrees_simple [OF assms(1-3) _ _ _ assms(4) [unfolded cmd_createkeys_def]])
     (simp_all only: dss_opcode.distinct not_False_eq_True, intro printing_intros)

lemma agrees_updating:
  fixes s :: "'r server_env_scheme"
  assumes g: "gcm_spec P" and a: "answered P ks c c' s s'" and ag: "agrees (c_state c) (sv_session s)"
    and run: "bind_io (request P (int cfd) ks opc pt) (\<lambda>(st, resp). if st = status_val ST_OK
      then then_io (set_cli f) (puts l) else print_command_failure cm st) c = (r, c')"
    and op: "opc \<noteq> OP_AUTH" "opc = OP_CHANGE_PASSWORD \<Longrightarrow> f = (\<lambda>c. c\<lparr>cs_must_change := 0\<rparr>)"
      "opc = OP_LOGOUT \<Longrightarrow> f = (\<lambda>_. cli_state_zero)" "opc = OP_DELETE_KEYS \<Longrightarrow> f = (\<lambda>c. c\<lparr>cs_deleted := 1\<rparr>)"
      "opc \<in> {OP_CHANGE_PASSWORD, OP_LOGOUT, OP_DELETE_KEYS}"
  shows "agrees (c_state c') (sv_session s')"
proof -
  let ?k = "\<lambda>(st, resp). if st = status_val ST_OK then then_io (set_cli f) (puts l) else print_command_failure cm st"
  have q: "within (\<lambda>s t. w_tx s = w_tx t) (?k y)" for y
    by (cases y) (auto intro!: quiet_intros)
  from answered_command [OF g a run q] obtain v :: "'r server_env_scheme" and st data w c1 where
    v: "server_kept v = server_kept s" "server_answer P (opcode_val opc # pt) v = (Inr (st, data), w)"
      "sv_session s' = sv_session w" "c_state c1 = c_state c" "?k (status_val st, data) c1 = (r, c')" by blast
  have "session_ok s" "calm s" using a by (simp_all add: answered_def)
  with kept_session [OF v(1)] ag have av: "agrees (c_state c) (sv_session v)" by simp
  show ?thesis
  proof (cases "st = ST_OK")
    case True
    then have "c_state c' = f (c_state c)"
      using v(4,5) by (auto simp: set_cli_def puts_def out_def io_def)
    with True v(2,3) av op show ?thesis
      using agrees_changed agrees_deleted agrees_logged_out by (cases opc) auto
  next
    case False
    then have "status_val st \<noteq> status_val ST_OK" by (simp only: status_val_inject not_False_eq_True)
    then have "print_command_failure cm (status_val st) c1 = (r, c')" using v(5) by simp
    with withinD [OF printing.within_failure] have "c_state c' = c_state c1" by fastforce
    with False v av agrees_kept [OF v(2) av op(1)] show ?thesis by simp
  qed
qed

lemma answered_prompt:
  assumes a: "answered P ks c c' s s'" and run: "bind_io (ask_password p) k c = (r, c')"
  obtains pw c1 where "k pw c1 = (r, c')" and "answered P ks c1 c' s s'" and "c_state c1 = c_state c"
proof -
  obtain r1 c1 where p: "ask_password p c = (r1, c1)" by fastforce
  have "within (\<lambda>s t. (w_plan s, w_tx s, w_rx s, w_fault s, c_state s) = (w_plan t, w_tx t, w_rx t, w_fault t, c_state t))
      (ask_password p)"
    by (rule prompting.within_ask_password [OF prompting.within_read_password]) simp
  from withinD [OF this p] have same: "(w_plan c, w_tx c, w_rx c, w_fault c) = (w_plan c1, w_tx c1, w_rx c1, w_fault c1)"
    "c_state c1 = c_state c" by simp_all
  show thesis
  proof (cases r1)
    case (Inl e)
    with run p have "c' = c1" by (simp add: io_def)
    with answered_sends [OF a] a same show ?thesis by (simp add: answered_def)
  next
    case (Inr pw)
    with run p have "k pw c1 = (r, c')" by (simp add: io_def)
    with that answered_cong [OF a same(1)] same(2) show ?thesis by blast
  qed
qed

lemma answered_quiet: "answered P ks c c' s s' \<Longrightarrow> m c = (r, c') \<Longrightarrow> \<not> within (\<lambda>s t. w_tx s = w_tx t) m"
  using answered_sends [of P ks c c' s s'] by (auto simp: answered_def dest: withinD)

lemma out_state: "out b s = (r, t) \<Longrightarrow> c_state t = c_state s"
  by (auto simp: out_def io_inv)

lemma set_cli_state:
  "then_io (set_cli f) (then_io (out b) (if x then puts l else ret ())) s = (r, t) \<Longrightarrow> c_state t = f (c_state s)"
  by (cases x) (auto simp: set_cli_def puts_def out_def io_def)

lemma login_agrees:
  fixes s :: "'r server_env_scheme" and c :: "'q client_env_scheme"
  assumes g: "gcm_spec P" and a: "answered P ks c c' s s'" and ag: "agrees (c_state c) (sv_session s)"
    and run: "cmd_login P (int cfd) ks arg c = (r, c')" and nul: "0 \<notin> set arg"
  shows "agrees (c_state c') (sv_session s')"
proof (cases "arg = [] \<or> 255 < length arg")
  case True
  define l where "l = (if arg = [] then ''usage: login <user>'' else ''username length must be 1..255'')"
  from True have "give_up l c = (r, c')"
    using run by (auto simp: cmd_login_def Let_def l_def)
  with answered_quiet [where m = "give_up l", OF a] quiet.within_give_up show ?thesis by blast
next
  case False
  define f where "f = (\<lambda>(resp :: bytes) (c :: cli_state). c\<lparr>cs_logged_in := 1, cs_must_change := of_bool (resp ! 0 \<noteq> 0),
      cs_deleted := of_bool (resp ! 1 \<noteq> 0), cs_username := arg\<rparr>)"
  define b where "b = (\<lambda>(resp :: bytes). ascii ''logged in as '' @ arg @ ascii '' (must_change='' @
             show_int (of_bool (resp ! 0 \<noteq> 0)) @ ascii '', deleted='' @
             show_int (of_bool (resp ! 1 \<noteq> 0)) @ ascii '')'' @ [newline])"
  define l where "l = ''Password change required before using other operations.''"
  define d where "d = (\<lambda>st. ascii ''login failed: '' @ status_to_string st @ [newline])"
  define k where "k = (\<lambda>(st, resp :: bytes). if st = status_val ST_OK \<and> length resp = 2
      then then_io (set_cli (f resp)) (then_io (out (b resp)) (if resp ! 0 \<noteq> 0 then puts l else ret ()))
      else out (d st) :: ('q client_env_scheme, unit, unit) io)"
  have "cmd_login P (int cfd) ks arg c = bind_io (ask_password ''password: '') (\<lambda>pw.
      bind_io (request P (int cfd) ks OP_AUTH (of_nat (length arg) # arg @ of_nat (length pw) # pw)) k) c"
    using False unfolding cmd_login_def Let_def k_def f_def b_def l_def d_def by simp
  with run have "bind_io (ask_password ''password: '') (\<lambda>pw.
      bind_io (request P (int cfd) ks OP_AUTH (of_nat (length arg) # arg @ of_nat (length pw) # pw)) k) c = (r, c')" by simp
  from answered_prompt [OF a this] obtain pw c1 where
    b: "bind_io (request P (int cfd) ks OP_AUTH (of_nat (length arg) # arg @ of_nat (length pw) # pw)) k c1 = (r, c')"
      "answered P ks c1 c' s s'" "c_state c1 = c_state c" by blast
  have q: "within (\<lambda>s t. w_tx s = w_tx t) (k y)" for y
    unfolding k_def by (intro quiet_intros)
  obtain v :: "'r server_env_scheme" and st data w c2 where v: "server_kept v = server_kept s"
      "server_answer P (opcode_val OP_AUTH # of_nat (length arg) # arg @ of_nat (length pw) # pw) v = (Inr (st, data), w)"
      "sv_session s' = sv_session w" "c_state c2 = c_state c1" "k (status_val st, data) c2 = (r, c')"
    by (rule answered_command [OF g b(2,1) q])
  have ok: "session_ok s" "calm s" using a by (simp_all add: answered_def)
  have cs: "c_state c' = (if st = ST_OK \<and> length data = 2
      then \<lparr>cs_logged_in = 1, cs_must_change = of_bool (data ! 0 \<noteq> 0), cs_deleted = of_bool (data ! 1 \<noteq> 0),
           cs_username = arg\<rparr> else c_state c)"
  proof (cases "st = ST_OK \<and> length data = 2")
    case True
    with v(5) have "then_io (set_cli (f data)) (then_io (out (b data)) (if data ! 0 \<noteq> 0 then puts l else ret ())) c2 = (r, c')"
      by (simp add: k_def)
    then have "c_state c' = f data (c_state c2)" by (rule set_cli_state)
    with True show ?thesis by (simp add: f_def)
  next
    case False
    then have "\<not> (status_val st = status_val ST_OK \<and> length data = 2)" by (simp only: status_val_inject not_False_eq_True)
    with v(5) have "out (d (status_val st)) c2 = (r, c')" by (simp only: k_def prod.case if_False)
    from out_state [OF this] have "c_state c' = c_state c2" .
    with False v(4) b(3) show ?thesis by (simp only: if_False)
  qed
  have "agrees (c_state c) (sv_session v)" "auth_inv v" "calm v" "length arg \<le> 255"
    using kept_session [OF v(1) ok] ag False by simp_all
  from agrees_login [OF v(2) this(1,2,3) nul this(4)] show ?thesis
    unfolding cs v(3) by (cases "st = ST_OK \<and> length data = 2") (simp_all only: if_True if_False simp_thms)
qed

lemma changepw_agrees:
  assumes g: "gcm_spec P" and a: "answered P ks c c' s s'" and ag: "agrees (c_state c) (sv_session s)"
    and run: "cmd_changepw P (int cfd) ks c = (r, c')"
  shows "agrees (c_state c') (sv_session s')"
proof (cases "cs_logged_in (c_state c) = 0")
  case True
  then have "give_up ''not logged in'' c = (r, c')" using run by (simp add: cmd_changepw_def io_def)
  with answered_quiet [where m = "give_up ''not logged in''", OF a] quiet.within_give_up show ?thesis by blast
next
  case False
  then have "bind_io (ask_password ''new password: '') (\<lambda>new_pw.
     bind_io (request P (int cfd) ks OP_CHANGE_PASSWORD (of_nat (length new_pw) # new_pw)) (\<lambda>(st, resp).
     if st = status_val ST_OK
     then then_io (set_cli (\<lambda>c. c\<lparr>cs_must_change := 0\<rparr>)) (puts ''password changed'')
     else print_command_failure ''changepw'' st)) c = (r, c')"
    using run by (simp add: cmd_changepw_def io_def)
  from answered_prompt [OF a this] obtain pw c1 where
    b: "bind_io (request P (int cfd) ks OP_CHANGE_PASSWORD (of_nat (length pw) # pw)) (\<lambda>(st, resp).
     if st = status_val ST_OK
     then then_io (set_cli (\<lambda>c. c\<lparr>cs_must_change := 0\<rparr>)) (puts ''password changed'')
     else print_command_failure ''changepw'' st) c1 = (r, c')"
      "answered P ks c1 c' s s'" "c_state c1 = c_state c" by blast
  from agrees_updating [OF g b(2) _ b(1)] ag b(3) show ?thesis by simp
qed

lemma deletekeys_agrees:
  assumes "gcm_spec P" and "answered P ks c c' s s'" and "agrees (c_state c) (sv_session s)"
    and "cmd_deletekeys P (int cfd) ks c = (r, c')"
  shows "agrees (c_state c') (sv_session s')"
  by (rule agrees_updating [OF assms(1-3) assms(4) [unfolded cmd_deletekeys_def]]) simp_all

lemma logout_agrees:
  assumes "gcm_spec P" and "answered P ks c c' s s'" and "agrees (c_state c) (sv_session s)"
    and "cmd_logout P (int cfd) ks c = (r, c')"
  shows "agrees (c_state c') (sv_session s')"
  by (rule agrees_updating [OF assms(1-3) assms(4) [unfolded cmd_logout_def]]) simp_all

lemma getpub_agrees:
  assumes g: "gcm_spec P" and a: "answered P ks c c' s s'" and ag: "agrees (c_state c) (sv_session s)"
    and run: "cmd_getpub P (int cfd) ks arg c = (r, c')"
  shows "agrees (c_state c') (sv_session s')"
proof (cases "255 < length arg")
  case True
  then have "arg \<noteq> []" by auto
  with True have "give_up ''username length must be 1..255'' c = (r, c')"
    using run by (auto simp: cmd_getpub_def Let_def io_def give_up_def puts_def out_def)
  with answered_quiet [where m = "give_up ''username length must be 1..255''", OF a] quiet.within_give_up
  show ?thesis by blast
next
  case False
  have "bind_io (request P (int cfd) ks OP_GET_PUBLIC_KEY (if arg = [] then [] else of_nat (length arg) # arg)) (\<lambda>(st, resp).
        if st = status_val ST_OK
        then out (resp @ (if resp = [] \<or> resp ! (length resp - 1) \<noteq> newline then [newline] else []))
        else print_command_failure ''getpub'' st) c = (r, c')"
    using run False by (cases "arg = []") (simp_all add: cmd_getpub_def Let_def io_def)
  then show ?thesis
    by (rule agrees_simple [OF g a ag, rotated 3])
       (simp_all only: dss_opcode.distinct not_False_eq_True, intro printing_intros)
qed

lemma signdoc_agrees:
  assumes g: "gcm_spec P" and a: "answered P ks c c' s s'" and ag: "agrees (c_state c) (sv_session s)"
    and run: "cmd_signdoc P (int cfd) ks arg c = (r, c')"
  shows "agrees (c_state c') (sv_session s')"
proof -
  obtain rf c1 where f: "read_file_all arg c = (rf, c1)" by fastforce
  have same: "(w_plan c, w_tx c, w_rx c, w_fault c) = (w_plan c1, w_tx c1, w_rx c1, w_fault c1)" "c_state c1 = c_state c"
    using withinD [OF prompting.within_read_file f] by simp_all
  show ?thesis
  proof (cases "arg = [] \<or> isl rf")
    case True
    then have "w_tx c' = w_tx c"
      using run f same
      by (cases "arg = []"; cases rf) (auto simp: cmd_signdoc_def io_def give_up_def puts_def out_def)
    with a answered_sends [OF a] show ?thesis by (simp add: answered_def)
  next
    case False
    then obtain doc where d: "rf = Inr doc" by (cases rf) auto
    have "bind_io (request P (int cfd) ks OP_SIGN_DOC doc) (\<lambda>(st, resp).
          if st = status_val ST_OK
          then out (ascii ''signature ('' @ show_nat (length resp) @ ascii '' bytes):'' @ [newline] @
                 hex_pairs resp @ [newline])
          else print_command_failure ''signdoc'' st) c1 = (r, c')"
      using run False f d by (simp add: cmd_signdoc_def io_def)
    then show ?thesis
      by (rule agrees_simple [OF g answered_cong [OF a same(1)] _ _ _ _, rotated 4])
         (simp_all only: dss_opcode.distinct not_False_eq_True same(2) ag, intro printing_intros)
  qed
qed

lemma then_ret: "then_io m (ret x) s = (r, t) \<Longrightarrow> \<exists>r'. m s = (r', t)"
  by (cases "fst (m s)") (auto simp: io_def split: prod.splits sum.splits)

lemma command_agrees:
  fixes c :: "'q client_env_scheme"
  assumes g: "gcm_spec P" and a: "answered P ks c c' s s'" and ag: "agrees (c_state c) (sv_session s)"
    and run: "client_command P (int cfd) ks line c = (r, c')" and nul: "0 \<notin> set line"
  shows "agrees (c_state c') (sv_session s')"
proof (cases "strtok [32, 9] line")
  case None
  with run have "c' = c" by (simp add: client_command_def io_inv)
  with answered_sends [OF a] a show ?thesis by (simp add: answered_def)
next
  case (Some tr)
  obtain cmd rest where t: "strtok [32, 9] line = Some (cmd, rest)" using Some by (cases tr) auto
  define arg where "arg = (case strtok [] rest of None \<Rightarrow> []
                     | Some (a, _) \<Rightarrow> dropWhile (\<lambda>c. c = 32 \<or> c = 9) a)"
  have "set rest \<subseteq> set line" using strtok_token [OF t] by blast
  moreover have "set arg \<subseteq> set rest"
  proof (cases "strtok [] rest")
    case (Some ar)
    then obtain a r2 where ar: "strtok [] rest = Some (a, r2)" by (cases ar) auto
    then have "arg = dropWhile (\<lambda>c. c = 32 \<or> c = 9) a" by (simp add: arg_def)
    then have "set arg \<subseteq> set a" by (auto dest: set_dropWhileD)
    with strtok_token [OF ar] show ?thesis by blast
  qed (simp add: arg_def)
  ultimately have arg: "0 \<notin> set arg" using nul by blast
  have step: "agrees (c_state c') (sv_session s')" if "m c = (r', c')" "within (\<lambda>s t. w_tx s = w_tx t) m"
    for m :: "('q client_env_scheme, unit, unit) io" and r'
    using answered_quiet [where m = m, OF a that(1)] that(2) by blast
  note usage = step [OF _ quiet.within_puts]
  show ?thesis
  proof (cases "cmd = ascii ''quit''")
    case True
    with run t have "c' = c" by (simp add: client_command_def Let_def io_inv)
    with answered_sends [OF a] a show ?thesis by (simp add: answered_def)
  next
    case False
    then have "then_io
            (if cmd = ascii ''login'' then cmd_login P (int cfd) ks arg
             else if cmd = ascii ''changepw'' then cmd_changepw P (int cfd) ks
             else if cmd = ascii ''createkeys'' then cmd_createkeys P (int cfd) ks
             else if cmd = ascii ''signdoc'' then cmd_signdoc P (int cfd) ks arg
             else if cmd = ascii ''getpub'' then cmd_getpub P (int cfd) ks arg
             else if cmd = ascii ''deletekeys'' then cmd_deletekeys P (int cfd) ks
             else if cmd = ascii ''logout'' then cmd_logout P (int cfd) ks
             else puts ''commands: login <user>, changepw, createkeys, signdoc <file>, getpub <user>, deletekeys, logout, quit'')
            (ret False) c = (r, c')"
      using run by (simp only: client_command_def t option.case prod.case Let_def if_False arg_def)
    from then_ret [OF this] obtain r' where
      "(if cmd = ascii ''login'' then cmd_login P (int cfd) ks arg
             else if cmd = ascii ''changepw'' then cmd_changepw P (int cfd) ks
             else if cmd = ascii ''createkeys'' then cmd_createkeys P (int cfd) ks
             else if cmd = ascii ''signdoc'' then cmd_signdoc P (int cfd) ks arg
             else if cmd = ascii ''getpub'' then cmd_getpub P (int cfd) ks arg
             else if cmd = ascii ''deletekeys'' then cmd_deletekeys P (int cfd) ks
             else if cmd = ascii ''logout'' then cmd_logout P (int cfd) ks
             else puts ''commands: login <user>, changepw, createkeys, signdoc <file>, getpub <user>, deletekeys, logout, quit'')
            c = (r', c')" by blast
    then show ?thesis
      using login_agrees [OF g a ag _ arg] changepw_agrees [OF g a ag] createkeys_agrees [OF g a ag]
        signdoc_agrees [OF g a ag] getpub_agrees [OF g a ag] deletekeys_agrees [OF g a ag] logout_agrees [OF g a ag]
        usage
      by (simp only: split: if_split_asm)
  qed
qed

lemma request_tx:
  assumes "send_request P fd (fst ks) opc pt c = (Inr u, t)" and "bind_io (request P fd ks opc pt) k c = (r, c')"
    and quiet: "\<And>y. within (\<lambda>s t. w_tx s = w_tx t) (k y)"
  shows "w_tx c' = w_tx t"
proof -
  obtain ra d where rcv: "recv_response P fd (snd ks) opc t = (ra, d)" by fastforce
  have d: "w_tx d = w_tx t" using withinD [OF awaiting.within_recv_response rcv] by simp
  obtain rq e where q: "request P fd ks opc pt c = (rq, e)" by fastforce
  have "send_request_and_get_response P fd (fst ks) (snd ks) opc pt c = (ra, d)"
    using assms(1) rcv by (simp add: send_request_and_get_response_def io_def)
  from request_quiet [OF q this] d have "w_tx e = w_tx t" by simp
  moreover have "w_tx c' = w_tx e"
    using assms(2) q withinD [OF quiet] by (cases rq) (fastforce simp: io_def)+
  ultimately show ?thesis by simp
qed

end
