(* ===== verification/Dialogue.thy ===== *)
theory Dialogue
  imports Agreement
begin

text \<open>
  A dialogue: the lines typed at one client, one after another, and the requests the server
  answers.  Every login state and session that a dialogue reaches agree.
\<close>

section \<open>Commands that send nothing\<close>

text \<open>A command that has put nothing on the wire has not touched what the client believes.\<close>

definition stays :: "('r client_env_scheme, 'e, 'a) io \<Rightarrow> bool" where
  "stays m \<longleftrightarrow> (\<forall>c r c'. m c = (r, c') \<longrightarrow> w_tx c' = w_tx c \<longrightarrow> c_state c' = c_state c)"

lemma staysD: "stays m \<Longrightarrow> m c = (r, c') \<Longrightarrow> w_tx c' = w_tx c \<Longrightarrow> c_state c' = c_state c"
  by (auto simp: stays_def)

lemma stays_within: "within (\<lambda>s t. (w_tx s, c_state s) = (w_tx t, c_state t)) m \<Longrightarrow> stays m"
  by (fastforce simp: stays_def dest: withinD)

lemma stays_if: "(b \<Longrightarrow> stays m) \<Longrightarrow> (\<not> b \<Longrightarrow> stays n) \<Longrightarrow> stays (if b then m else n)"
  by simp

lemma stays_case_sum: "(\<And>x. stays (f x)) \<Longrightarrow> (\<And>y. stays (g y)) \<Longrightarrow> stays (case r of Inl x \<Rightarrow> f x | Inr y \<Rightarrow> g y)"
  by (cases r) auto

lemma stays_bind:
  assumes "within (\<lambda>s t. (w_tx s, c_state s) = (w_tx t, c_state t)) m" and "\<And>x. stays (f x)"
  shows "stays (bind_io m f)"
  unfolding stays_def
proof (intro allI impI)
  fix c r c' assume run: "bind_io m f c = (r, c')" and tx: "w_tx c' = w_tx c"
  obtain rm d where m: "m c = (rm, d)" by fastforce
  have d: "w_tx d = w_tx c" "c_state d = c_state c" using withinD [OF assms(1) m] by simp_all
  show "c_state c' = c_state c"
  proof (cases rm)
    case (Inl e)
    with run m d show ?thesis by (simp add: io_def)
  next
    case (Inr x)
    with run m have "f x d = (r, c')" by (simp add: io_def)
    with staysD [OF assms(2)] d tx show ?thesis by metis
  qed
qed

lemma stays_then_ret: "stays m \<Longrightarrow> stays (then_io m (ret x))"
  unfolding stays_def using then_ret by metis

lemma stays_request:
  assumes "gcm_spec P" and quiet: "\<And>y. within (\<lambda>s t. w_tx s = w_tx t) (k y)"
  shows "stays (bind_io (request P fd ks opc pt) k)"
  unfolding stays_def
proof (intro allI impI)
  fix c r c' assume run: "bind_io (request P fd ks opc pt) k c = (r, c')" and tx: "w_tx c' = w_tx c"
  obtain rs d where snd: "send_request P fd (fst ks) opc pt c = (rs, d)" by fastforce
  show "c_state c' = c_state c"
  proof (cases rs)
    case (Inl e)
    have "c_state d = c_state c" using withinD [OF sending.within_send_request snd] by simp
    with run snd Inl show ?thesis
      by (auto simp: request_def send_request_and_get_response_def give_up_def puts_def out_def io_def)
  next
    case (Inr u)
    have "w_tx c' = w_tx d" using request_tx [OF snd [unfolded Inr] run] quiet by blast
    with send_request_Inr [OF assms(1) snd [unfolded Inr]] tx show ?thesis
      by (auto simp: packet_wire_def be32_def split: option.splits prod.splits)
  qed
qed

lemmas asking = printing.within_ask_password [OF printing.within_read_password]

lemma quiet_ret: "within (\<lambda>s t. w_tx s = w_tx t) (ret x)"
  by (rule frame_same.within_ret)

lemma stays_puts: "stays (puts l)" "stays (give_up l)"
  by (auto intro: stays_within printing.within_puts printing.within_give_up)

lemma stays_commands:
  assumes "gcm_spec P"
  shows "stays (cmd_login P fd ks arg)" and "stays (cmd_changepw P fd ks)" and "stays (cmd_createkeys P fd ks)"
    and "stays (cmd_signdoc P fd ks arg)" and "stays (cmd_getpub P fd ks arg)" and "stays (cmd_deletekeys P fd ks)"
    and "stays (cmd_logout P fd ks)"
proof -
  show "stays (cmd_login P fd ks arg)"
    unfolding cmd_login_def Let_def
    by (intro stays_if stays_puts stays_bind stays_request assms quiet_intros asking) simp
  show "stays (cmd_changepw P fd ks)"
    unfolding cmd_changepw_def
    by (intro stays_if stays_puts stays_bind stays_request assms quiet_intros asking frame_same.within_get) simp
  show "stays (cmd_createkeys P fd ks)" "stays (cmd_deletekeys P fd ks)" "stays (cmd_logout P fd ks)"
    unfolding cmd_createkeys_def cmd_deletekeys_def cmd_logout_def
    by (intro stays_request assms quiet_intros)+
  show "stays (cmd_signdoc P fd ks arg)"
    unfolding cmd_signdoc_def
    by (intro stays_if stays_puts stays_bind stays_case_sum stays_request assms quiet_intros
        frame_same.within_try printing.within_read_file)
  show "stays (cmd_getpub P fd ks arg)"
    unfolding cmd_getpub_def Let_def
    by (intro stays_if stays_bind stays_request assms quiet_intros printing_intros printing.within_give_up
        frame_same.within_ret)
qed

lemma stays_command:
  assumes "gcm_spec P"
  shows "stays (client_command P fd ks line)"
proof (cases "strtok [32, 9] line")
  case None
  then show ?thesis by (auto simp: client_command_def intro!: stays_within)
next
  case (Some tr)
  obtain cmd rest where "tr = (cmd, rest)" by fastforce
  then show ?thesis
    unfolding client_command_def Some option.case Let_def
    by (simp add: stays_then_ret stays_if stays_commands [OF assms] stays_puts)
       (auto intro!: stays_within)
qed


section \<open>Dialogues\<close>

text \<open>
  The client and the server of one connection, from the moment it is open and nobody is logged in.
  They start in an environment where no library call fails.  A line, a C string, is typed; either its request
  goes to the server, which takes one turn of its loop, reads what the client has written and
  whose answer the client reads; or nothing is sent.  Each goes on from the state it was in, except
  that the socket may have delivered and will accept the bytes in any pieces.
\<close>

definition fresh_socket :: "recv_event list \<Rightarrow> send_event list \<Rightarrow> 'r env_scheme \<Rightarrow> 'r env_scheme" where
  "fresh_socket rx plan s = s\<lparr>w_rx := rx, w_plan := plan, w_tx := []\<rparr>"

inductive dialogue :: "'p platform_scheme \<Rightarrow> bytes \<times> bytes \<Rightarrow> client_env \<Rightarrow> server_env \<Rightarrow> bool"
  for P :: "'p platform_scheme" and ks :: "bytes \<times> bytes" where
  opened: "calm c \<Longrightarrow> calm s \<Longrightarrow> c_state c = cli_state_zero \<Longrightarrow> sv_session s = session_clear \<Longrightarrow>
    auth_inv s \<Longrightarrow> replay_inv (sv_cache s) \<Longrightarrow> dialogue P ks c s"
| exchanged: "dialogue P ks c0 s0 \<Longrightarrow> c = fresh_socket rx_c plan_c c0 \<Longrightarrow> s = fresh_socket rx_s plan_s s0 \<Longrightarrow>
    client_command P (int cfd) ks line c = (r, c') \<Longrightarrow> 0 \<notin> set line \<Longrightarrow>
    server_step P (int sfd) (fst ks) (snd ks) s = (Inr x, s') \<Longrightarrow>
    pending_in s = w_tx c' \<Longrightarrow> pending_in c = w_tx s' \<Longrightarrow> dialogue P ks c' s'"
| unsent: "dialogue P ks c0 s0 \<Longrightarrow> c = fresh_socket rx_c plan_c c0 \<Longrightarrow>
    client_command P (int cfd) ks line c = (r, c') \<Longrightarrow> w_tx c' = [] \<Longrightarrow> dialogue P ks c' s0"

lemma fresh_socket_simps [simp]:
  "calm (fresh_socket rx plan s) = calm s" "w_tx (fresh_socket rx plan s) = []"
  "c_state (fresh_socket rx plan c) = c_state c" "sv_session (fresh_socket rx plan t) = sv_session t"
  "sv_cache (fresh_socket rx plan t) = sv_cache t" "session_ok (fresh_socket rx plan t) = session_ok t"
  by (simp_all add: fresh_socket_def session_ok_def auth_inv_def tomb_def)

text \<open>What a turn of the server's loop keeps of the cache.\<close>

lemma step_keeps_cache:
  assumes "server_step P (int fd) key_in key_out s = (Inr x, t)" and "replay_inv (sv_cache s)"
  shows "replay_inv (sv_cache t)"
proof -
  from assms(1) obtain nonce pt u a v y where u: "server_receive P (int fd) key_in s = (Inr (nonce, pt), u)"
    and v: "server_answer P pt u = (Inr a, v)"
    and r: "send_encrypted_response P (int fd) key_out (pt ! 0) nonce (fst a) (snd a) v = (Inr y, t)"
    by (auto simp: server_step_def io_inv split: prod.splits)
  from server_receive_Inr [OF u] obtain h q w z c k where
    d: "dsspacket_recv P (int fd) s = (Inr (h, Some q), w)" and n: "nonce = hdr_req_nonce h"
    and c: "replay_check_and_add (sv_cache w) nonce = (z, c)" "u = w\<lparr>sv_cache := c, w_tick := k\<rparr>" by blast
  have "within (\<lambda>s t. sv_cache s = sv_cache t) (or_raise () (dsspacket_recv P (int fd)) ::
      ('a server_env_scheme, unit, dss_header \<times> bytes option) io)"
    by (rule srv_cache.within_receive) simp
  from withinD [OF this or_raise_ok [where m = "dsspacket_recv P (int fd)", OF d]] have "replay_inv (sv_cache w)" using assms(2) by simp
  moreover have "length nonce = REPLAY_NONCE_LEN"
    using dsspacket_recv_sound [OF d] by (simp add: n packet_ok_def hdr_wf_def REPLAY_NONCE_LEN_def REQ_NONCE_LEN_def)
  ultimately have "replay_inv c" using c(1) by (elim replay_step [rotated]) auto
  moreover have send: "within (\<lambda>s t. sv_cache s = sv_cache t) (send_encrypted_response P (int fd) key_out (pt ! 0) nonce (fst a) (snd a))"
    by (rule srv_cache.within_send_response) simp_all
  have "sv_cache v = sv_cache t" by (rule withinD [OF send r])
  ultimately show ?thesis using withinD [OF srv_cache.within_answer v] c(2) by simp
qed

text \<open>What is true all along a dialogue.\<close>

lemma dialogue_invariant:
  assumes g: "gcm_spec P" and P: "pbkdf2_spec P" and "dialogue P ks c s"
  shows "agrees (c_state c) (sv_session s) \<and> calm c \<and> calm s \<and> session_ok s \<and> replay_inv (sv_cache s)"
  using assms(3)
proof induction
  case (opened c s)
  then have "session_ok s" by (simp add: session_ok_def)
  with opened agrees_start show ?case by simp
next
  case (exchanged c0 s0 c rx_c plan_c s rx_s plan_s cfd line r c' sfd x s')
  then have a: "answered P ks c c' s s'" unfolding answered_def by (auto simp del: split_paired_Ex)
  have "agrees (c_state c) (sv_session s)" using exchanged by simp
  from command_agrees [OF g a this exchanged.hyps(4,5)] have "agrees (c_state c') (sv_session s')" .
  moreover have "calm c'" using withinD [OF terminal_kept.within_command exchanged.hyps(4)] exchanged by simp
  moreover have "calm s'"
    using withinD [OF conn_calm.within_step exchanged.hyps(6)] exchanged by (simp add: calm_def fresh_socket_def)
  moreover have "session_ok s'" using withinD [OF conn_session.within_step exchanged.hyps(6)] exchanged P by simp
  moreover have "replay_inv (sv_cache s')" using step_keeps_cache [OF exchanged.hyps(6)] exchanged by simp
  ultimately show ?case by blast
next
  case (unsent c0 s0 c rx_c plan_c cfd line r c')
  then have "c_state c' = c_state c0" using staysD [OF stays_command [OF g] unsent.hyps(3)] by simp
  moreover have "calm c'" using withinD [OF terminal_kept.within_command unsent.hyps(3)] unsent by simp
  ultimately show ?case using unsent.IH by simp
qed

section \<open>A sample dialogue\<close>

definition sample_open :: "recv_event list \<Rightarrow> server_env" where
  "sample_open rx = (sample_ready rx)\<lparr>sv_session := session_clear\<rparr>"

lemma sample_open_facts:
  "calm (sample_open rx)" "replay_inv (sv_cache (sample_open rx))" "w_tx (sample_open rx) = []"
  "w_plan (sample_open rx) = []" "sv_session (sample_open rx) = session_clear"
  "pending_in (sample_open rx) = rx_stream rx" "session_ok (sample_open rx)" "g_users (sample_open rx) = [sample_user]"
  using sample_ready_facts [of rx] sample_session_ok
  by (auto simp: sample_open_def calm_def pending_in_def sample_ready_def session_ok_cleared)

lemma sample_open_step:
  assumes "sealed_ok nonce iv sample_login"
  shows "\<exists>t. server_step sample_platform (int 4) [1] [1] (sample_open [R_data (packet_wire sample_platform
      (sealed_packet sample_platform [1] nonce iv sample_login))]) = (Inr (0, ST_OK), t) \<and>
    ss_is_authenticated (sv_session t) = 1"
proof -
  let ?s = "sample_open [R_data (packet_wire sample_platform (sealed_packet sample_platform [1] nonce iv sample_login))]"
  have "pending_in ?s = packet_wire sample_platform (sealed_packet sample_platform [1] nonce iv sample_login) @ []"
    by (simp add: sample_open_facts)
  from server_receive_sealed [OF sample_gcm_spec sample_open_facts(1) assms sample_open_facts(2) this, of 4] obtain v where
    v: "server_receive sample_platform (int 4) [1] ?s = (Inr (nonce, sample_login), v)" "calm v" "server_kept v = server_kept ?s"
    by blast
  have k: "sv_session v = session_clear" "w_plan v = []" "g_users v = [sample_user]"
    using v(3) by (simp_all add: server_kept_def sample_open_facts)
  from sample_login_from [OF v(2) k(3,1)] obtain w where
    w: "server_handle sample_platform sample_login v = (Inr [0, 0], w)" "ss_is_authenticated (sv_session w) = 1" by blast
  have "server_answer sample_platform sample_login v = (Inr (ST_OK, [0, 0]), w)"
    using w(1) by (simp add: server_answer_def io_def)
  moreover have "calm w" "w_plan w = []"
    using withinD [OF srv_oracle.within_handle w(1)] withinD [OF srv_net.within_handle w(1)] v(2) k(2)
    by (simp_all add: calm_def)
  moreover have n: "length nonce = REQ_NONCE_LEN" using assms by (simp add: sealed_ok_def)
  ultimately obtain t where t: "send_encrypted_response sample_platform 4 [1] 0 nonce ST_OK [0, 0] w = (Inr (), t)"
    using send_response_calm [OF sample_gcm_spec, of w "int 4" nonce "[0, 0]" "[1]" 0 ST_OK] by auto
  have "within (\<lambda>s t. sv_session s = sv_session t) (send_encrypted_response sample_platform 4 [1] 0 nonce ST_OK [0, 0])"
    by (intro same_session.within_send_response) auto
  with t have "sv_session t = sv_session w" by (auto dest: withinD)
  with v(1) \<open>server_answer _ _ v = _\<close> t w(2) show ?thesis
    by (simp add: server_step_def io_def sample_login_parts)
qed

text \<open>The client asks for the password, and what it sends does not depend on what it will receive.\<close>

interpretation tape: prompt_frame "\<lambda>s t. (w_tape s, w_rpos s) = (w_tape t, w_rpos t)"
  by unfold_locales auto

abbreviation typing :: "recv_event list \<Rightarrow> client_env" where
  "typing rx \<equiv> sample_client (ascii ''pw'' @ [newline]) rx cli_state_zero"

lemma sample_password:
  "\<exists>u. ask_password ''password: '' (typing rx) = (Inr (ascii ''pw''), u) \<and> calm u \<and> w_plan u = [] \<and> w_tx u = [] \<and>
     w_tape u = of_nat \<and> w_rpos u = 0"
proof -
  obtain r u where a: "ask_password ''password: '' (typing rx) = (r, u)" by fastforce
  have c: "calm (typing rx)" by (simp add: sample_client_def calm_def)
  have f: "fgets 255 (ascii ''pw'' @ [newline]) = (ascii ''pw'' @ [newline], [])"
    by (rule fgets_line) (simp_all add: ascii_def)
  have "c_tty (typing rx)" "c_stdin (typing rx) = ascii ''pw'' @ [newline]" by (simp_all add: sample_client_def)
  then have "fst (ask_password ''password: '' (typing rx)) = Inr (ascii ''pw'')"
    using c f by (simp add: ask_password_def read_password_def out_def set_echo_calm fgets_stdin_def io_def)
      (simp add: trim_newline_def cstr_def ascii_def)
  then have "r = Inr (ascii ''pw'')" by (simp add: a)
  moreover have "within (\<lambda>s t. (w_plan s, w_tx s, w_rx s, w_fault s, c_state s) = (w_plan t, w_tx t, w_rx t, w_fault t, c_state t))
      (ask_password ''password: '')"
    by (rule prompting.within_ask_password [OF prompting.within_read_password]) simp
  from withinD [OF this a] have "w_fault u = w_fault (typing rx)" "w_plan u = []" "w_tx u = []"
    by (simp_all add: sample_client_def)
  then have "calm u" "w_plan u = []" "w_tx u = []" using c by (simp_all add: calm_def)
  moreover have "within (\<lambda>s t. (w_tape s, w_rpos s) = (w_tape t, w_rpos t)) (ask_password ''password: '')"
    by (rule tape.within_ask_password [OF tape.within_read_password]) simp
  from withinD [OF this a] have "w_tape u = of_nat" "w_rpos u = 0" by (simp_all add: sample_client_def)
  ultimately show ?thesis using a by blast
qed

abbreviation login_nonce :: bytes where
  "login_nonce \<equiv> map of_nat [0 ..< 16]"

abbreviation login_wire :: bytes where
  "login_wire \<equiv> packet_wire sample_platform (sealed_packet sample_platform [1] login_nonce (map of_nat [16 ..< 28]) sample_login)"

lemma sample_pending: "pending_in (typing rx) = rx_stream rx"
  by (simp add: sample_client_def pending_in_def)

lemma sample_login_ok: "sealed_ok login_nonce (map of_nat [16 ..< 28]) sample_login"
  by (simp add: sealed_ok_def REQ_NONCE_LEN_def GCM_IV_LEN_def sample_login_def ascii_def)

lemma sample_login_sent:
  assumes run: "client_command sample_platform (int 3) ([1], [1]) (ascii ''login bob'') (typing rx) = (r, c')"
  shows "w_tx c' = login_wire"
proof -
  have "client_command sample_platform (int 3) ([1], [1]) (ascii ''login bob'') (typing rx) =
      then_io (cmd_login sample_platform (int 3) ([1], [1]) (ascii ''bob'')) (ret False) (typing rx)"
    by (simp add: client_command_def strtok_def ascii_def Let_def)
  with run have "then_io (cmd_login sample_platform (int 3) ([1], [1]) (ascii ''bob'')) (ret False) (typing rx) = (r, c')"
    by simp
  from then_ret [OF this] obtain r' where l: "cmd_login sample_platform (int 3) ([1], [1]) (ascii ''bob'') (typing rx) = (r', c')" ..
  obtain u where u: "ask_password ''password: '' (typing rx) = (Inr (ascii ''pw''), u)" "calm u" "w_plan u = []" "w_tx u = []"
     "w_tape u = of_nat" "w_rpos u = 0" using sample_password by blast
  obtain k where k: "\<And>y. within (\<lambda>s t. w_tx s = w_tx t) (k y)" and
    q: "bind_io (request sample_platform (int 3) ([1], [1]) OP_AUTH (tl sample_login)) k u = (r', c')"
  proof -
    let ?k = "\<lambda>(st, resp). if st = status_val ST_OK \<and> length resp = 2
      then then_io (set_cli (\<lambda>c. c\<lparr>cs_logged_in := 1, cs_must_change := of_bool (resp ! 0 \<noteq> 0),
                                   cs_deleted := of_bool (resp ! 1 \<noteq> 0), cs_username := ascii ''bob''\<rparr>))
        (then_io (out (ascii ''logged in as '' @ ascii ''bob'' @ ascii '' (must_change='' @
             show_int (of_bool (resp ! 0 \<noteq> 0)) @ ascii '', deleted='' @
             show_int (of_bool (resp ! 1 \<noteq> 0)) @ ascii '')'' @ [newline]))
          (if resp ! 0 \<noteq> 0
           then puts ''Password change required before using other operations.'' else ret ()))
      else out (ascii ''login failed: '' @ status_to_string st @ [newline])"
    have n: "ascii ''bob'' \<noteq> []" "length (ascii ''bob'') = 3" "length (ascii ''pw'') = 2" by (simp_all add: ascii_def)
    have "bind_io (request sample_platform (int 3) ([1], [1]) OP_AUTH (tl sample_login)) ?k u = (r', c')"
      using l u(1) unfolding cmd_login_def Let_def n(2)
      by (simp add: n io_def sample_login_def)
    moreover have "within (\<lambda>s t. w_tx s = w_tx t) (?k y)" for y by (intro quiet_intros)
    ultimately show thesis using that by blast
  qed
  have o: "opcode_val OP_AUTH # tl sample_login = sample_login" by (simp add: sample_login_def)
  obtain t where t: "send_request sample_platform (int 3) (fst ([1], [1] :: bytes)) OP_AUTH (tl sample_login) u = (Inr (), t)"
    and tx: "w_tx t = login_wire"
  proof -
    have "29 + length (tl sample_login) \<le> 10485760" by (simp add: sample_login_def ascii_def)
    from send_request_calm [OF sample_gcm_spec u(2,3) of_nat_0_le_iff this, of 3 "[1]" OP_AUTH] that show thesis
      unfolding o u(4-6) REQ_NONCE_LEN_def GCM_IV_LEN_def by auto
  qed
  from request_tx [OF t q k] tx show ?thesis by simp
qed

section \<open>Properties\<close>

text \<open>C6: In a working environment the client and the server agree about the login.  In every dialogue
  that starts on an open connection with nobody logged in and in which no library call fails,
  whatever lines are typed, whatever the server answers and in whatever pieces the sockets
  carry the bytes, the client knows after every answered or unsent line whether somebody is logged
  in at the server, who it is and whether the password has to be changed, and it assumes no
  deletion the server does not know of.\<close>

theorem dialogues_agree:
  assumes "gcm_spec P" and "pbkdf2_spec P" and "dialogue P ks c s"
  shows "(cs_logged_in (c_state c) = 0 \<longleftrightarrow> ss_is_authenticated (sv_session s) = 0) \<and>
    (cs_logged_in (c_state c) \<noteq> 0 \<longrightarrow> ss_is_authenticated (sv_session s) = 1 \<and>
       cs_username (c_state c) = ss_username (sv_session s) \<and>
       cs_must_change (c_state c) = ss_must_change (sv_session s) \<and>
       (cs_deleted (c_state c) = 1 \<longrightarrow> ss_deleted (sv_session s) = 1))"
  using dialogue_invariant [OF assms] by (auto simp: agrees_def split: if_splits)

theorem dialogues_agree_witness:
  "\<exists>c s. dialogue sample_platform ([1], [1]) c s \<and> ss_is_authenticated (sv_session s) = 1 \<and>
     cs_logged_in (c_state c) \<noteq> 0 \<and> cs_username (c_state c) = ss_username (sv_session s)"
proof -
  obtain s' where s': "server_step sample_platform (int 4) [1] [1] (sample_open [R_data login_wire]) = (Inr (0, ST_OK), s')"
    "ss_is_authenticated (sv_session s') = 1" using sample_open_step [OF sample_login_ok] by blast
  let ?c = "typing [R_data (w_tx s')]" let ?s = "sample_open [R_data login_wire]"
  obtain r c' where run: "client_command sample_platform (int 3) ([1], [1]) (ascii ''login bob'') ?c = (r, c')" by fastforce
  have "calm ?c" "c_state ?c = cli_state_zero" by (simp_all add: sample_client_def calm_def)
  moreover have "auth_inv ?s" using sample_open_facts(7) [of "[R_data login_wire]"] unfolding session_ok_def by blast
  ultimately have o: "dialogue sample_platform ([1], [1]) ?c ?s"
    using sample_open_facts(1,2,5) by (intro dialogue.opened)
  have sock: "?c = fresh_socket [R_data (w_tx s')] [] ?c" "?s = fresh_socket [R_data login_wire] [] ?s"
    by (simp_all add: fresh_socket_def sample_client_def sample_open_def sample_ready_def sample_server_def)
  have nul: "0 \<notin> set (ascii ''login bob'')" by (simp add: ascii_def)
  have p: "pending_in ?s = w_tx c'" "pending_in ?c = w_tx s'"
    using sample_login_sent [OF run] sample_open_facts(6) [of "[R_data login_wire]"] rx_stream_one
    by (simp_all only: sample_pending)
  have st: "server_step sample_platform (int 4) (fst ([1], [1])) (snd ([1], [1])) ?s = (Inr (0, ST_OK), s')"
    using s'(1) unfolding fst_conv snd_conv .
  from dialogue.exchanged [OF o sock run nul st p] have d: "dialogue sample_platform ([1], [1]) c' s'" .
  from dialogues_agree [OF sample_gcm_spec sample_pbkdf2_spec d] d s'(2) show ?thesis by auto
qed

end
