(* ===== verification/Phases.thy ===== *)
theory Phases
  imports Machine Dialogue
begin

text \<open>
  The handlers of \<^verbatim>\<open>server/main.c\<close> and its loop refine the machine of the session: what a state
  looks like to the machine, one lemma per operation, one turn of the loop, the whole loop.
\<close>

section \<open>The abstraction\<close>

definition phase_of :: "session_state \<Rightarrow> phase" where
  "phase_of ss = (if ss_is_authenticated ss = 0 then Anonymous
     else if ss_deleted ss = 1 then Deleted (ss_username ss) (ss_must_change ss = 1)
     else if ss_must_change ss = 1 then Must_Change (ss_username ss)
     else Active (ss_username ss))"

definition account :: "'r auth_env_scheme \<Rightarrow> bytes \<Rightarrow> auth_user option" where
  "account s name = map_option (\<lambda>i. g_users s ! i) (auth_find_user (g_users s) name)"

definition view_of :: "'r server_env_scheme \<Rightarrow> view" where
  "view_of s = \<lparr>vw_phase = phase_of (sv_session s), vw_keyed = (ss_has_key (sv_session s) = 1),
     vw_accounts = account s\<rparr>"

lemma view_of_sel [simp]:
  "vw_phase (view_of s) = phase_of (sv_session s)" "vw_keyed (view_of s) = (ss_has_key (sv_session s) = 1)"
  "vw_accounts (view_of s) = account s"
  by (simp_all add: view_of_def)

lemma view_same: "sv_session t = sv_session s \<Longrightarrow> g_users t = g_users s \<Longrightarrow> view_of t = view_of s"
  by (simp add: view_of_def account_def fun_eq_iff)

lemma account_Some: "account s name = Some u \<longleftrightarrow> (\<exists>i. auth_find_user (g_users s) name = Some i \<and> u = g_users s ! i)"
  by (auto simp: account_def)

lemma find_user_names: "map u_username us = map u_username vs \<Longrightarrow> auth_find_user us name = auth_find_user vs name"
proof (induction us arbitrary: vs)
  case (Cons u us)
  then show ?case by (cases vs) auto
qed simp

text \<open>Updating an account in the table updates it, and only it, in the view.\<close>

lemma account_update:
  assumes "auth_find_user (g_users s) n = Some i" and "g_users t = (g_users s)[i := f (g_users s ! i)]"
    and "\<And>u. u_username (f u) = u_username u"
  shows "account t = (account s)(n \<mapsto> f (g_users s ! i))"
proof
  fix m
  note i = find_user_name [OF assms(1)]
  have names: "map u_username (g_users t) = map u_username (g_users s)"
    using i by (simp add: assms(2,3) map_update) (metis length_map list_update_id nth_map)
  note f = find_user_names [OF names]
  show "account t m = ((account s)(n \<mapsto> f (g_users s ! i))) m"
  proof (cases "m = n")
    case True
    then show ?thesis using assms(1) i by (simp add: account_def f) (simp add: assms(2))
  next
    case False
    have "g_users t ! j = g_users s ! j" if "auth_find_user (g_users s) m = Some j" for j
      using find_user_name [OF that] i False by (auto simp: assms(2) nth_list_update)
    with False show ?thesis by (simp add: account_def f map_option_case split: option.split)
  qed
qed

section \<open>The handlers refine the machine\<close>

lemma gate_refusal:
  assumes "session_ok s" and "gate (sv_session s) (pt ! 0) = Some e"
  shows "refusal (view_of s) pt e \<and> e \<noteq> ST_OK"
  using assms
  by (auto simp: gate_def refusal_def phase_of_def session_ok_def session_wf_def session_clear_def opcode_of_def
      split: if_splits)

text \<open>What a session that got past the gate looks like to an operation of its user.\<close>

lemma gate_phase:
  assumes "session_ok s" and "gate (sv_session s) (pt ! 0) = None"
    and "opcode_of (pt ! 0) = Some op" and "op \<in> {OP_CREATE_KEYS, OP_SIGN_DOC, OP_DELETE_KEYS, OP_CHANGE_PASSWORD}"
  shows "ss_is_authenticated (sv_session s) = 1" and "ss_deleted (sv_session s) = 0"
    and "phase_of (sv_session s) = (if ss_must_change (sv_session s) = 1 then Must_Change (ss_username (sv_session s))
      else Active (ss_username (sv_session s)))"
    and "op \<noteq> OP_CHANGE_PASSWORD \<Longrightarrow> ss_must_change (sv_session s) = 0"
    and "\<exists>u. account s (ss_username (sv_session s)) = Some u"
proof -
  have b: "pt ! 0 = opcode_val op" using assms(3) by (simp add: opcode_of_Some)
  have wf: "session_wf (sv_session s)" using assms(1) by (simp add: session_ok_def)
  have np: "opcode_val op \<notin> {opcode_val OP_AUTH, opcode_val OP_GET_PUBLIC_KEY}" "opcode_val op \<noteq> opcode_val OP_LOGOUT"
    using assms(4) by auto
  have a0: "ss_is_authenticated (sv_session s) \<noteq> 0" using assms(2) np unfolding b gate_def Let_def by (auto split: if_splits)
  with wf show a: "ss_is_authenticated (sv_session s) = 1" by (simp add: session_wf_def)
  have "ss_deleted (sv_session s) \<noteq> 1" using assms(2) np a unfolding b gate_def Let_def by (auto split: if_splits)
  with wf show d: "ss_deleted (sv_session s) = 0" by (simp add: session_wf_def)
  show "ss_must_change (sv_session s) = 0" if "op \<noteq> OP_CHANGE_PASSWORD"
  proof -
    have "ss_must_change (sv_session s) \<noteq> 1" using gate_must_change [OF assms(2)] that assms(4) by (auto simp: b)
    with wf show ?thesis by (simp add: session_wf_def)
  qed
  show "phase_of (sv_session s) = (if ss_must_change (sv_session s) = 1 then Must_Change (ss_username (sv_session s))
      else Active (ss_username (sv_session s)))" using a d by (simp add: phase_of_def)
  have "ss_username (sv_session s) \<in> u_username ` set (g_users s)" using assms(1) a by (simp add: session_ok_def)
  then obtain i where "i < length (g_users s)" "u_username (g_users s ! i) = ss_username (sv_session s)"
    by (auto simp: in_set_conv_nth)
  moreover have "distinct (map u_username (g_users s))" using assms(1) by (simp add: session_ok_def auth_inv_def)
  ultimately have "auth_find_user (g_users s) (ss_username (sv_session s)) = Some i"
    using auth_find_user_distinct by metis
  then show "\<exists>u. account s (ss_username (sv_session s)) = Some u" by (auto simp: account_Some)
qed

abbreviation status_of :: "dss_status + bytes \<Rightarrow> dss_status" where
  "status_of r \<equiv> (case r of Inl e \<Rightarrow> e | Inr d \<Rightarrow> ST_OK)"

lemma refusedI:
  "r = Inl e \<Longrightarrow> e \<noteq> ST_OK \<Longrightarrow> refusal (view_of s) pt e \<Longrightarrow> view_of t = view_of s \<Longrightarrow>
     session_step P (view_of s) (pt, status_of r) (view_of t)"
  by (simp add: refused)

lemma auth_refines:
  assumes "session_ok s" and "opcode_of (pt ! 0) = Some OP_AUTH" and "op_auth P pt s = (r, t)"
  shows "session_step P (view_of s) (pt, status_of r) (view_of t)"
  using op_auth_run [OF assms(3)]
proof (elim disjE exE conjE)
  fix e k assume r: "r = Inl e" "e = (if auth_shape pt then ST_ERR_AUTH else ST_ERR_BAD_REQ)" and t: "t = s\<lparr>w_tick := k\<rparr>"
  have "view_of t = view_of s" by (rule view_same) (simp_all add: t)
  moreover have "e \<noteq> ST_OK \<and> refusal (view_of s) pt e" using assms(2) by (simp add: r(2) refusal_def)
  ultimately show ?thesis using r(1) refusedI by blast
next
  fix mc del u key k
  assume sh: "auth_shape pt" and v: "auth_verify_password P (auth_name pt) (auth_pw pt) s = (Inr (mc, del), u)"
    and r: "r \<in> {Inr [word_of_int mc, word_of_int del], Inl ST_ERR_INTERNAL}"
    and t: "t = s\<lparr>sv_session := fresh_session (auth_name pt) mc del key, w_tick := k\<rparr>"
  from auth_verify_password_run(2) [OF v refl] obtain i where
    i: "auth_find_user (g_users s) (auth_name pt) = Some i"
      "pbkdf2 P (auth_pw pt) (u_salt (g_users s ! i)) AUTH_PBKDF2_ITERS AUTH_HASH_LEN = u_hash (g_users s ! i)"
      "mc = u_must_change (g_users s ! i)" "del = u_deleted (g_users s ! i)"
    by (auto simp: auth_pw_def Let_def)
  have "phase_of (sv_session t) = entry_phase (g_users s ! i)"
    using find_user_name [OF i(1)]
    by (auto simp: t i(3,4) phase_of_def entry_phase_def fresh_session_def Let_def split: option.split)
  then have "view_of t = (view_of s)\<lparr>vw_phase := entry_phase (g_users s ! i), vw_keyed := (ss_has_key (sv_session t) = 1)\<rparr>"
    by (simp add: view_of_def account_def t fun_eq_iff)
  moreover have "account s (auth_name pt) = Some (g_users s ! i)" using i(1) by (simp add: account_def)
  moreover have "(case r of Inl e \<Rightarrow> e | Inr d \<Rightarrow> ST_OK) \<in> {ST_OK, ST_ERR_INTERNAL}" using r by auto
  ultimately show ?thesis
    using session_step.login [OF assms(2) sh, where a = "view_of s" and P = P and u = "g_users s ! i"] i(2)
    unfolding view_of_sel by metis
qed

text \<open>A failing change of the password hash, and a failing deletion: the table is as it was, or updated.\<close>

lemma change_authenticated_Inl:
  assumes "auth_change_password_authenticated P name pw s = (Inl x, t)"
  shows "g_users t = g_users s \<or> (\<exists>i salt. auth_find_user (g_users s) name = Some i \<and> length salt = AUTH_SALT_LEN \<and>
    g_users t = (g_users s)[i := new_account P (cstr pw) salt (g_users s ! i)])"
proof -
  from assms consider "t = s" | i where "auth_find_user (g_users s) name = Some i" "auth_apply_new_password P i pw s = (Inl x, t)"
    | i u path where "auth_find_user (g_users s) name = Some i" "auth_apply_new_password P i pw s = (Inr (), u)"
        "auth_write_db path u = (Inl x, t)"
    by (auto simp: auth_change_password_authenticated_def io_inv split: option.splits)
  then show ?thesis
  proof cases
    case 2
    from auth_apply_new_password_Inl [OF 2(2)] show ?thesis by auto
  next
    case 3
    from auth_apply_new_password_Inr [OF 3(2)] obtain salt k p where "length salt = AUTH_SALT_LEN"
      "u = auth_update_user i (with_password salt (pbkdf2 P (cstr pw) salt AUTH_PBKDF2_ITERS AUTH_HASH_LEN)) (s\<lparr>w_tick := k, w_rpos := p\<rparr>)"
      by blast
    with 3(1) auth_write_db_fields(1) [OF 3(3)] show ?thesis by (auto simp: new_account_def)
  qed simp
qed

lemma delete_keys_Inl:
  assumes "ks_delete_keys name s = (Inl x, t)"
  shows "g_users t = g_users s \<or> (\<exists>i. auth_find_user (g_users s) name = Some i \<and>
    g_users t = (g_users s)[i := with_deleted 1 (g_users s ! i)])"
proof -
  obtain r v where d: "auth_set_deleted name 1 s = (r, v)" by fastforce
  show ?thesis
  proof (cases r)
    case (Inl e)
    from ks_delete_keys_Inl [OF assms d [unfolded Inl]] auth_set_deleted_Inl [OF d [unfolded Inl]]
    show ?thesis by auto
  next
    case (Inr e)
    let ?rest = "then_io (ks_remove_if_there (pub_file name)) (then_io (ks_remove_if_there (enc_file name))
      (bind_io (try_io (rmdir (key_dir name))) (\<lambda>r. case r of
           Inl e \<Rightarrow> if e \<noteq> ENOENT \<and> e \<noteq> ENOTEMPTY then raise () else ret () | Inr u \<Rightarrow> ret u)))"
    have "t = s \<or> ?rest v = (Inl x, t)"
    proof (cases "name_ok name")
      case True
      then have "ks_delete_keys name s = then_io (auth_set_deleted name 1) ?rest s"
        by (simp add: ks_delete_keys_def ks_build_user_paths_eq bind_from_option)
      with assms d Inr show ?thesis by (simp add: then_io_ok)
    next
      case False
      with assms show ?thesis by (auto simp: ks_delete_keys_def ks_build_user_paths_eq bind_from_option raise_run)
    qed
    moreover have "within (\<lambda>s t. (g_users s, g_users_cap s, g_db_path s) = (g_users t, g_users_cap t, g_db_path t)) ?rest"
      by (intro frame_same.within_then frame_same.within_bind frame_same.within_try frame_same.within_case_sum
          frame_same.within_if frame_same.within_ret frame_same.within_raise table_frame.within_remove table_frame.within_rmdir)
    ultimately have "g_users t = g_users s \<or> g_users t = g_users v" by (auto dest!: withinD)
    with auth_set_deleted_Inr [OF d [unfolded Inr]] show ?thesis by auto
  qed
qed

lemma user_of_with [simp]: "u_username (new_account P pw salt u) = u_username u"
  by (simp add: new_account_def)

lemma change_fails:
  assumes run: "op_change_password P pt s = (Inl e, t)" and "ss_is_authenticated (sv_session s) = 1"
    and "ss_deleted (sv_session s) = 0" and "ss_has_key (sv_session s) = 1" and "one_string pt"
    and i: "auth_find_user (g_users s) (ss_username (sv_session s)) = Some i"
  shows "e = ST_ERR_INTERNAL \<and> (g_users t = g_users s \<or> (\<exists>salt. length salt = AUTH_SALT_LEN \<and>
    g_users t = (g_users s)[i := new_account P (payload_string pt) salt (g_users s ! i)]))"
proof -
  let ?n = "ss_username (sv_session s)" let ?pw = "cstr (take (unat (pt ! 1)) (drop 2 pt))"
  have pw: "cstr ?pw = payload_string pt" by (simp add: payload_string_def)
  from run assms(2-5) have e: "e = ST_ERR_INTERNAL" and "(\<exists>x. ks_derive_session_key P ?n ?pw s = (Inl x, t)) \<or>
      (\<exists>key u v x. ks_derive_session_key P ?n ?pw s = (Inr key, u) \<and>
         (ks_reencrypt_private_for_new_session_key P ?n (ss_key (sv_session s)) key u = (Inl x, t) \<or>
          ks_reencrypt_private_for_new_session_key P ?n (ss_key (sv_session s)) key u = (Inr (), v) \<and>
          auth_change_password_authenticated P ?n ?pw v = (Inl x, t)))"
    by (auto simp: op_change_password_def session_run one_string_def io_inv set_session_def Let_def split: if_split_asm)
  then show ?thesis
  proof (elim disjE exE conjE)
    fix x assume "ks_derive_session_key P ?n ?pw s = (Inl x, t)"
    from ks_derive_session_key_run [OF this] e show ?thesis by auto
  next
    fix key u v x
    assume k: "ks_derive_session_key P ?n ?pw s = (Inr key, u)"
      and r: "ks_reencrypt_private_for_new_session_key P ?n (ss_key (sv_session s)) key u = (Inl x, t)"
    from ks_derive_session_key_run [OF k] e withinD [OF table_frame.within_reencrypt r] show ?thesis by auto
  next
    fix key u v x
    assume k: "ks_derive_session_key P ?n ?pw s = (Inr key, u)"
      and r: "ks_reencrypt_private_for_new_session_key P ?n (ss_key (sv_session s)) key u = (Inr (), v)"
      and c: "auth_change_password_authenticated P ?n ?pw v = (Inl x, t)"
    from ks_derive_session_key_run [OF k] withinD [OF table_frame.within_reencrypt r] have "g_users v = g_users s" by auto
    with change_authenticated_Inl [OF c] i pw e show ?thesis by auto
  qed
qed

lemma change_refines:
  assumes "session_ok s" and "gate (sv_session s) (pt ! 0) = None" and op: "opcode_of (pt ! 0) = Some OP_CHANGE_PASSWORD"
    and run: "op_change_password P pt s = (r, t)"
  shows "session_step P (view_of s) (pt, status_of r) (view_of t)"
proof -
  let ?n = "ss_username (sv_session s)"
  note g = gate_phase [OF assms(1-3), simplified]
  obtain i where i: "auth_find_user (g_users s) ?n = Some i" using g(5) by (auto simp: account_Some)
  have acc: "account s ?n = Some (g_users s ! i)" using i by (simp add: account_def)
  have ph: "phase_of (sv_session s) = Must_Change ?n \<or> phase_of (sv_session s) = Active ?n" using g(3) by simp
  show ?thesis
  proof (cases "ss_has_key (sv_session s) = 1 \<and> one_string pt")
    case False
    with run g(1,2) ph have "r = Inl (if ss_has_key (sv_session s) \<noteq> 1 then ST_ERR_AUTH else ST_ERR_BAD_REQ) \<and> t = s"
      by (auto simp: op_change_password_def session_run one_string_def raise_run Let_def split: if_splits)
    moreover from this have "refusal (view_of s) pt (if ss_has_key (sv_session s) \<noteq> 1 then ST_ERR_AUTH else ST_ERR_BAD_REQ)"
      using False ph op by (auto simp: refusal_def)
    ultimately show ?thesis by (intro refusedI [of r "if ss_has_key (sv_session s) \<noteq> 1 then ST_ERR_AUTH else ST_ERR_BAD_REQ"]) auto
  next
    case True
    let ?pw = "cstr (take (unat (pt ! 1)) (drop 2 pt))"
    have pw: "cstr ?pw = payload_string pt" by (simp add: payload_string_def)
    have upd: "view_of t = (view_of s)\<lparr>vw_phase := phase_of (sv_session t),
        vw_accounts := (account s)(?n \<mapsto> new_account P (payload_string pt) salt (g_users s ! i))\<rparr>"
      if "g_users t = (g_users s)[i := new_account P (payload_string pt) salt (g_users s ! i)]"
        "ss_has_key (sv_session t) = 1" for salt
      using account_update [where f = "new_account P (payload_string pt) salt", OF i that(1)] that(2) True by (simp add: view_of_def)
    show ?thesis
    proof (cases r)
      case (Inr d)
      from op_change_password_Inr [OF run [unfolded Inr]] obtain key u v w where
        k: "ks_derive_session_key P ?n ?pw s = (Inr key, u)" and
        r: "ks_reencrypt_private_for_new_session_key P ?n (ss_key (sv_session s)) key u = (Inr (), v)" and
        c: "auth_change_password_authenticated P ?n ?pw v = (Inr (), w)" and
        t: "t = w\<lparr>sv_session := (sv_session w)\<lparr>ss_key := key, ss_must_change := 0\<rparr>\<rparr>"
        unfolding Let_def by blast
      have ss: "sv_session w = sv_session s"
        using withinD [OF same_session.within_session_key k] withinD [OF same_session.within_reencrypt r]
          withinD [OF same_session.within_change_authenticated c] by simp
      from ks_derive_session_key_run [OF k] have "g_users u = g_users s" by auto
      then have gv: "g_users v = g_users s" using withinD [OF table_frame.within_reencrypt r] by simp
      from auth_change_password_authenticated_Inr [OF c] obtain salt where
        "length salt = AUTH_SALT_LEN" "g_users w = (g_users s)[i := new_account P (payload_string pt) salt (g_users s ! i)]"
        unfolding gv i pw by (auto simp: new_account_def gv)
      moreover have "phase_of (sv_session t) = Active ?n" using g(1,2) by (simp add: t ss phase_of_def)
      ultimately show ?thesis
        using upd changed [OF op, where a = "view_of s" and n = ?n and u = "g_users s ! i" and salt = salt and P = P] True ph acc Inr by (simp add: t ss)
    next
      case (Inl e)
      have e: "e = ST_ERR_INTERNAL" and "g_users t = g_users s \<or> (\<exists>salt. length salt = AUTH_SALT_LEN \<and>
          g_users t = (g_users s)[i := new_account P (payload_string pt) salt (g_users s ! i)])"
        using change_fails [OF run [unfolded Inl] g(1,2) _ _ i] True pw by auto
      then show ?thesis
      proof (elim disjE exE conjE)
        assume "g_users t = g_users s"
        then have "view_of t = view_of s" using view_same op_change_password_fails [OF run [unfolded Inl]] by blast
        moreover have "refusal (view_of s) pt ST_ERR_INTERNAL" using ph op True by (auto simp: refusal_def)
        ultimately show ?thesis using refusedI Inl e by blast
      next
        fix salt assume a: "length salt = AUTH_SALT_LEN" "g_users t = (g_users s)[i := new_account P (payload_string pt) salt (g_users s ! i)]"
        have "sv_session t = sv_session s" using op_change_password_fails [OF run [unfolded Inl]] .
        with upd [OF a(2)] half_changed [OF op, where a = "view_of s" and n = ?n and u = "g_users s ! i" and salt = salt and P = P] True ph acc a(1) Inl e
        show ?thesis by (simp add: view_of_def)
      qed
    qed
  qed
qed

lemma create_keys_table:
  "within (\<lambda>s t. (g_users s, g_users_cap s, g_db_path s) = (g_users t, g_users_cap t, g_db_path t))
     (ks_create_keys_session P name key)"
  unfolding ks_create_keys_session_def auth_get_deleted_def ks_file_exists_def
  by (intro frame_same.within_bind frame_same.within_if frame_same.within_then frame_same.within_raise
      frame_same.within_ret frame_same.within_case_prod frame_same.within_case_option frame_same.within_get
      frame_same.within_from_option table_frame.within_ensure_dir table_frame.within_key_files)

lemma create_refines:
  assumes "session_ok s" and "gate (sv_session s) (pt ! 0) = None" and op: "opcode_of (pt ! 0) = Some OP_CREATE_KEYS"
    and run: "op_create_keys P s = (r, t)"
  shows "session_step P (view_of s) (pt, status_of r) (view_of t)"
proof -
  let ?n = "ss_username (sv_session s)"
  note g = gate_phase [OF assms(1-3), simplified]
  obtain i where i: "auth_find_user (g_users s) ?n = Some i" using g(5) by (auto simp: account_Some)
  have acc: "account s ?n = Some (g_users s ! i)" using i by (simp add: account_def)
  have ph: "phase_of (sv_session s) = Active ?n" using g(3,4) by simp
  show ?thesis
  proof (cases "ss_has_key (sv_session s) = 1")
    case False
    with run g(1) have "r = Inl ST_ERR_AUTH" "t = s" by (auto simp: op_create_keys_def session_run raise_run)
    then show ?thesis using False ph op by (intro refusedI [of r ST_ERR_AUTH]) (auto simp: refusal_def)
  next
    case True
    show ?thesis
    proof (cases "u_deleted (g_users s ! i) = 0")
      case False
      with run g(1,2) True i have r: "r = Inl ST_ERR_DELETED" "t = s\<lparr>sv_session := (sv_session s)\<lparr>ss_deleted := 1\<rparr>\<rparr>"
        by (auto simp: op_create_keys_def session_run auth_get_deleted_def io_def set_session_def or_raise_def split: option.splits)
      have "view_of t = (view_of s)\<lparr>vw_phase := Deleted ?n False\<rparr>"
        using g(1,4) by (simp add: r view_of_def account_def phase_of_def fun_eq_iff)
      then show ?thesis using found_deleted [OF op, of "view_of s" ?n "g_users s ! i" P] ph True acc False r(1) by simp
    next
      case alive: True
      have "auth_get_deleted ?n s = (Inr 0, s)" using i alive by (simp add: auth_get_deleted_run)
      then have k: "or_raise ST_ERR_INTERNAL (auth_get_deleted ?n) s = (Inr 0, s)" by (rule or_raise_ok)
      have body: "op_create_keys P s =
          then_io (or_raise ST_ERR_INTERNAL (ks_create_keys_session P ?n (ss_key (sv_session s)))) (ret []) s"
        using g(1,2) True by (simp add: op_create_keys_def session_run bind_io_ok [where m = "or_raise ST_ERR_INTERNAL (auth_get_deleted ?n)", OF k])
      obtain rk t' where k': "ks_create_keys_session P ?n (ss_key (sv_session s)) s = (rk, t')" by fastforce
      have "t' = t" and r: "r = (case rk of Inl e \<Rightarrow> Inl ST_ERR_INTERNAL | Inr u \<Rightarrow> Inr [])"
        using run k' unfolding body
        by (cases rk; simp add: then_io_ok [OF or_raise_ok] then_io_err [OF or_raise_err] ret_run)+
      then have rk: "ks_create_keys_session P ?n (ss_key (sv_session s)) s = (rk, t)"
        "r = (case rk of Inl e \<Rightarrow> Inl ST_ERR_INTERNAL | Inr u \<Rightarrow> Inr [])" using k' by simp_all
      have v: "view_of t = view_of s"
        using withinD [OF same_session.within_create_keys rk(1)] withinD [OF create_keys_table rk(1)]
        by (intro view_same) simp_all
      show ?thesis
      proof (cases rk)
        case (Inl e)
        then show ?thesis using v rk(2) True ph op by (intro refusedI [of r ST_ERR_INTERNAL]) (auto simp: refusal_def)
      next
        case (Inr u)
        then show ?thesis using created [OF op, of "view_of s" ?n "g_users s ! i" P] ph True acc alive rk(2) v by simp
      qed
    qed
  qed
qed

lemma sign_refines:
  assumes "session_ok s" and "gate (sv_session s) (pt ! 0) = None" and op: "opcode_of (pt ! 0) = Some OP_SIGN_DOC"
    and run: "op_sign_doc P pt s = (r, t)"
  shows "session_step P (view_of s) (pt, status_of r) (view_of t)"
proof -
  let ?n = "ss_username (sv_session s)"
  note g = gate_phase [OF assms(1-3), simplified]
  obtain i where i: "auth_find_user (g_users s) ?n = Some i" using g(5) by (auto simp: account_Some)
  have acc: "account s ?n = Some (g_users s ! i)" using i by (simp add: account_def)
  have ph: "phase_of (sv_session s) = Active ?n" using g(3,4) by simp
  have v: "view_of t = view_of s"
    using op_sign_doc_session [OF run] withinD [OF op_sign_doc_same_store run] by (intro view_same) (simp_all add: same_store_def)
  show ?thesis
  proof (cases r)
    case (Inl e)
    with run g(1,2) ph op have "e \<noteq> ST_OK \<and> refusal (view_of s) pt e"
      by (auto simp: op_sign_doc_def session_run io_inv refusal_def split: if_split_asm)
    with Inl v refusedI show ?thesis by blast
  next
    case (Inr d)
    note o = op_sign_doc_Inr [OF run [unfolded Inr]]
    then have "u_deleted (g_users s ! i) = 0"
      using i by (auto simp: ks_sign_doc_session_def io_inv auth_get_deleted_run split: if_split_asm)
    moreover have "length pt \<le> 65536" using o by linarith
    ultimately show ?thesis using o signed [OF op, of "view_of s" ?n "g_users s ! i" P] ph acc Inr v by simp
  qed
qed

lemma fetch_refines:
  assumes "session_ok s" and gate: "gate (sv_session s) (pt ! 0) = None" and op: "opcode_of (pt ! 0) = Some OP_GET_PUBLIC_KEY"
    and run: "op_get_public_key P pt s = (r, t)"
  shows "session_step P (view_of s) (pt, status_of r) (view_of t)"
proof -
  have v: "view_of t = view_of s"
    using op_get_public_key_session [OF run] withinD [OF op_get_public_key_same_store run]
    by (intro view_same) (simp_all add: same_store_def)
  have "pt ! 0 = opcode_val OP_GET_PUBLIC_KEY" using op by (simp add: opcode_of_Some)
  then have "ss_must_change (sv_session s) \<noteq> 1" using gate_must_change [OF gate] by auto
  then have due: "\<not> change_due (phase_of (sv_session s))" by (simp add: phase_of_def)
  have an: "phase_of (sv_session s) = Anonymous \<longleftrightarrow> ss_is_authenticated (sv_session s) = 0" by (simp add: phase_of_def)
  show ?thesis
  proof (cases r)
    case (Inl e)
    with run due an op have "e \<noteq> ST_OK \<and> refusal (view_of s) pt e"
      by (auto simp: op_get_public_key_def session_run io_inv refusal_def one_string_def Let_def split: if_split_asm)
    with Inl v refusedI show ?thesis by blast
  next
    case (Inr d)
    with run an have "if length pt = 1 then phase_of (sv_session s) \<noteq> Anonymous else one_string pt"
      by (auto simp: op_get_public_key_def session_run io_inv one_string_def Let_def split: if_split_asm)
    with fetched [OF op, of "view_of s" P] due Inr v show ?thesis by simp
  qed
qed

lemma delete_refines:
  assumes "session_ok s" and "gate (sv_session s) (pt ! 0) = None" and op: "opcode_of (pt ! 0) = Some OP_DELETE_KEYS"
    and run: "op_delete_keys s = (r, t)"
  shows "session_step P (view_of s) (pt, status_of r) (view_of t)"
proof -
  let ?n = "ss_username (sv_session s)"
  note g = gate_phase [OF assms(1-3), simplified]
  obtain i where i: "auth_find_user (g_users s) ?n = Some i" using g(5) by (auto simp: account_Some)
  have acc: "account s ?n = Some (g_users s ! i)" using i by (simp add: account_def)
  have ph: "phase_of (sv_session s) = Active ?n" using g(3,4) by simp
  have upd: "account t = (account s)(?n \<mapsto> with_deleted 1 (g_users s ! i))"
    if "g_users t = (g_users s)[i := with_deleted 1 (g_users s ! i)]"
    using account_update [where f = "with_deleted 1", OF i that] by simp
  show ?thesis
  proof (cases "ss_has_key (sv_session s) = 1")
    case False
    with run g(1) have "r = Inl ST_ERR_AUTH" "t = s" by (auto simp: op_delete_keys_def session_run raise_run)
    then show ?thesis using False ph op by (intro refusedI [of r ST_ERR_AUTH]) (auto simp: refusal_def)
  next
    case True
    show ?thesis
    proof (cases r)
      case (Inr d)
      from op_delete_keys_Inr [OF run [unfolded Inr]] obtain u where k: "ks_delete_keys ?n s = (Inr (), u)"
        and t: "t = u\<lparr>sv_session := (sv_session u)\<lparr>ss_deleted := 1\<rparr>\<rparr>" by blast
      have ss: "sv_session u = sv_session s" using withinD [OF same_session.within_delete_keys k] by simp
      from ks_delete_keys_Inr [OF k] auth_set_deleted_Inr i have
        "g_users t = (g_users s)[i := with_deleted 1 (g_users s ! i)]" by (fastforce simp: t)
      then have "view_of t = (view_of s)\<lparr>vw_phase := Deleted ?n False,
          vw_accounts := (account s)(?n \<mapsto> with_deleted 1 (g_users s ! i))\<rparr>"
        using upd g(1,4) by (simp add: view_of_def t ss phase_of_def)
      then show ?thesis using deleted [OF op, of "view_of s" ?n "g_users s ! i" P] ph True acc Inr by simp
    next
      case (Inl e)
      with run g(1,2) True obtain x where e: "e = ST_ERR_INTERNAL" and k: "ks_delete_keys ?n s = (Inl x, t)"
        by (auto simp: op_delete_keys_def session_run io_inv set_session_def)
      have ss: "sv_session t = sv_session s" using withinD [OF same_session.within_delete_keys k] by simp
      from delete_keys_Inl [OF k] i consider "g_users t = g_users s"
        | "g_users t = (g_users s)[i := with_deleted 1 (g_users s ! i)]" by auto
      then show ?thesis
      proof cases
        case 1
        then show ?thesis using view_same ss Inl e True ph op
          by (intro refusedI [of r ST_ERR_INTERNAL]) (auto simp: refusal_def)
      next
        case 2
        then have "view_of t = (view_of s)\<lparr>vw_accounts := (account s)(?n \<mapsto> with_deleted 1 (g_users s ! i))\<rparr>"
          using upd ss by (simp add: view_of_def)
        then show ?thesis using half_deleted [OF op, of "view_of s" ?n "g_users s ! i" P] ph True acc Inl e by simp
      qed
    qed
  qed
qed

lemma handle_refines:
  assumes "session_ok s" and "server_handle P pt s = (r, t)"
  shows "session_step P (view_of s) (pt, status_of r) (view_of t)"
proof (cases "gate (sv_session s) (pt ! 0)")
  case (Some e)
  with assms gate_refusal [OF assms(1) Some] show ?thesis by (auto simp: server_handle_gate intro: refusedI)
next
  case None
  have d: "dispatch P pt s = (r, t)" using None assms by (simp add: server_handle_gate)
  note op = opcode_of_Some [THEN iffD2]
  from d show ?thesis
  proof (cases rule: dispatch_cases)
    case auth
    then show ?thesis using auth_refines [OF assms(1) op] by simp
  next
    case change
    then show ?thesis using change_refines [OF assms(1) None op] by simp
  next
    case create
    then show ?thesis using create_refines [OF assms(1) None op] by simp
  next
    case sign
    then show ?thesis using sign_refines [OF assms(1) None op] by simp
  next
    case get
    then show ?thesis using fetch_refines [OF assms(1) None op] by simp
  next
    case delete
    then show ?thesis using delete_refines [OF assms(1) None op, of r t P] by simp
  next
    case logout
    have "opcode_of (pt ! 0) = Some OP_LOGOUT" using logout(1) by (intro op) simp
    moreover have "phase_of (sv_session s) \<noteq> Anonymous" using None logout(1) by (auto simp: gate_def phase_of_def)
    moreover have "view_of t = (view_of s)\<lparr>vw_phase := Anonymous, vw_keyed := False\<rparr>"
      using logout(2) by (auto simp: op_logout_run view_of_def account_def phase_of_def session_clear_def fun_eq_iff)
    moreover have "r = Inr []" using logout(2) by (simp add: op_logout_run)
    ultimately show ?thesis using session_step.logout [of pt "view_of s" P] by simp
  next
    case unknown
    have "phase_of (sv_session s) = Active (ss_username (sv_session s))"
      using None unknown(1) assms(1) gate_must_change [OF None]
      by (auto simp: gate_def phase_of_def session_ok_def session_wf_def opcode_of_def split: if_splits)
    then show ?thesis using unknown by (intro refusedI [OF unknown(2)]) (simp_all add: refusal_def)
  qed
qed

section \<open>The loop refines the machine\<close>

text \<open>The plaintexts the loop receives, in order: the answered ones, and the one its last turn was at.\<close>

function server_requests ::
  "'p platform_scheme \<Rightarrow> int \<Rightarrow> bytes \<Rightarrow> bytes \<Rightarrow> 'r server_env_scheme \<Rightarrow> bytes list" where
  "server_requests P fd key_in key_out s =
     (case server_receive P fd key_in s of
        (Inl _, u) \<Rightarrow> []
      | (Inr (nonce, pt), u) \<Rightarrow>
          pt # (case server_step P fd key_in key_out s of
                  (Inl _, t) \<Rightarrow> []
                | (Inr _, t) \<Rightarrow> server_requests P fd key_in key_out t))"
  by pat_completeness auto
termination
  by (relation "measure (\<lambda>(P, fd, key_in, key_out, s). rx_size (w_rx s))")
     (auto dest: server_step_consumes [OF sym])

declare server_requests.simps [simp del]

text \<open>Receiving and sending change nothing of the view.\<close>

interpretation same_view: env_frame "\<lambda>s t. (sv_session s, g_users s, g_users_cap s) = (sv_session t, g_users t, g_users_cap t)"
  by unfold_locales auto

lemma receive_view:
  "within (\<lambda>s t. (sv_session s, g_users s, g_users_cap s) = (sv_session t, g_users t, g_users_cap t)) (server_receive P fd key)"
proof -
  have "within (\<lambda>s t. (sv_session s, g_users s, g_users_cap s) = (sv_session t, g_users t, g_users_cap t)) (server_check_replay n)" for n
    by (auto simp: within_def server_check_replay_def split: prod.split)
  then show ?thesis
    unfolding server_receive_def Let_def
    by (intro frame_same.within_bind same_view.within_receive frame_same.within_case_prod
        frame_same.within_if frame_same.within_then frame_same.within_raise frame_same.within_ret
        same_view.within_sc_decrypt prims) auto
qed

lemma view_cong:
  assumes "(sv_session s, g_users s, g_users_cap s) = (sv_session t, g_users t, g_users_cap t)"
  shows "view_of t = view_of s" and "session_ok s \<Longrightarrow> session_ok t"
  using assms auth_inv_cong [of t s]
  by (auto simp: view_of_def account_def fun_eq_iff session_ok_def tomb_def)

text \<open>One turn: nothing received and nothing changed, or a request handled and perhaps answered.\<close>

lemma step_refines:
  assumes "session_ok s" and "pbkdf2_spec P" and "server_step P fd key_in key_out s = (r, t)"
  shows "(case server_receive P fd key_in s of
      (Inl e, u) \<Rightarrow> (\<exists>x. r = Inl x) \<and> view_of t = view_of s
    | (Inr (nonce, pt), u) \<Rightarrow> \<exists>st. session_step P (view_of s) (pt, st) (view_of t) \<and> (\<forall>x. r = Inr x \<longrightarrow> x = (pt ! 0, st)))
    \<and> session_ok t"
proof -
  obtain rr u where rc: "server_receive P fd key_in s = (rr, u)" by fastforce
  note vu = view_cong [OF withinD [OF receive_view rc]]
  show ?thesis
  proof (cases rr)
    case (Inl e)
    with assms(3) rc have "r = Inl e" "t = u" by (auto simp: server_step_def io_def)
    with vu assms(1) rc Inl show ?thesis by simp
  next
    case (Inr y)
    obtain nonce pt where y: "y = (nonce, pt)" by fastforce
    obtain rh v where h: "server_handle P pt u = (rh, v)" by fastforce
    have an: "server_answer P pt u = (Inr (status_of rh, case rh of Inl e \<Rightarrow> [] | Inr d \<Rightarrow> d), v)"
      using h by (simp add: server_answer_def io_def split: sum.split)
    have "session_ok u" using vu(2) assms(1) by blast
    from handle_refines [OF this h] session_ok_handle [OF this assms(2) h] vu(1)
    have st: "session_step P (view_of s) (pt, status_of rh) (view_of v)" "session_ok v" by simp_all
    obtain rs w where sn: "send_encrypted_response P fd key_out (pt ! 0) nonce (status_of rh)
        (case rh of Inl e \<Rightarrow> [] | Inr d \<Rightarrow> d) v = (rs, w)" by fastforce
    have "within (\<lambda>s t. (sv_session s, g_users s, g_users_cap s) = (sv_session t, g_users t, g_users_cap t))
        (send_encrypted_response P fd key_out opc nonce st d)" for opc st d
      by (intro same_view.within_send_response) auto
    note vw = view_cong [OF withinD [OF this sn]]
    have "t = w \<and> (\<forall>x. r = Inr x \<longrightarrow> x = (pt ! 0, status_of rh))"
      using assms(3) rc Inr y an sn by (cases rs) (auto simp: server_step_def io_def)
    with vw st rc Inr y show ?thesis by auto
  qed
qed

lemma loop_turn:
  "server_step P fd key_in key_out s = (Inr x, u) \<Longrightarrow> server_loop P fd key_in key_out u = (log, t) \<Longrightarrow>
     server_loop P fd key_in key_out s = (x # log, t)"
  by (simp add: server_loop.simps [of P fd key_in key_out s])

lemma requests_turn:
  "server_receive P fd key_in s = (Inr (nonce, pt), v) \<Longrightarrow> server_step P fd key_in key_out s = (Inr x, u) \<Longrightarrow>
     server_requests P fd key_in key_out s = pt # server_requests P fd key_in key_out u"
  by (simp add: server_requests.simps [of P fd key_in key_out s])

lemma loop_is_a_run:
  assumes "session_ok s" and "pbkdf2_spec P" and "server_loop P fd key_in key_out s = (log, t)"
  shows "\<exists>es. session_run P (view_of s) es (view_of t) \<and> map fst es = server_requests P fd key_in key_out s \<and>
    length log \<le> length es \<and> length es \<le> Suc (length log) \<and>
    log = map (\<lambda>(pt, st). (pt ! 0, st)) (take (length log) es)"
  using assms
proof (induction "rx_size (w_rx s)" arbitrary: s log rule: less_induct)
  case less
  obtain r u where st: "server_step P fd key_in key_out s = (r, u)" by fastforce
  note step = step_refines [OF less.prems(1,2) st]
  obtain rr v where rc: "server_receive P fd key_in s = (rr, v)" by fastforce
  note reqs = server_requests.simps [of P fd key_in key_out s]
  show ?case
  proof (cases rr)
    case (Inl e)
    with step rc obtain x where "r = Inl x" "view_of u = view_of s" by auto
    moreover from this less.prems(3) st have "log = []" "t = u" by (simp_all add: server_loop.simps [of P fd key_in key_out s])
    ultimately show ?thesis using rc Inl by (intro exI [of _ "[]"]) (simp add: reqs)
  next
    case (Inr y)
    obtain nonce pt where y: "y = (nonce, pt)" by fastforce
    with step rc Inr obtain stat where ss: "session_step P (view_of s) (pt, stat) (view_of u)"
      "\<forall>x. r = Inr x \<longrightarrow> x = (pt ! 0, stat)" "session_ok u" by auto
    show ?thesis
    proof (cases r)
      case Inl': (Inl e)
      with less.prems(3) st have "log = []" "t = u" by (simp_all add: server_loop.simps [of P fd key_in key_out s])
      with ss(1) rc Inr y st Inl' show ?thesis
        by (intro exI [of _ "[(pt, stat)]"]) (simp add: reqs session_run_cons)
    next
      case Inr': (Inr x)
      with less.prems(3) st obtain log' where l: "server_loop P fd key_in key_out u = (log', t)" "log = x # log'"
        by (auto simp: server_loop.simps [of P fd key_in key_out s] split: prod.splits)
      have "rx_size (w_rx u) < rx_size (w_rx s)" using server_step_consumes st Inr' by blast
      from less.hyps [OF this ss(3) less.prems(2) l(1)] obtain es where
        es: "session_run P (view_of u) es (view_of t)" "map fst es = server_requests P fd key_in key_out u"
          "length log' \<le> length es" "length es \<le> Suc (length log')"
          "log' = map (\<lambda>(pt, st). (pt ! 0, st)) (take (length log') es)" by blast
      have "session_run P (view_of s) ((pt, stat) # es) (view_of t)" using ss(1) es(1) by (rule run_cons)
      moreover have "map fst ((pt, stat) # es) = server_requests P fd key_in key_out s"
        using rc Inr y st Inr' es(2) by (simp add: reqs)
      moreover have "log = map (\<lambda>(pt, st). (pt ! 0, st)) (take (length log) ((pt, stat) # es))"
        using es(5) ss(2) Inr' l(2) by simp
      ultimately show ?thesis using es(3,4) l(2) by (intro exI [of _ "(pt, stat) # es"]) simp
    qed
  qed
qed

section \<open>Properties\<close>

text \<open>C4: The loop of the server refines the session machine.  From a session in order, the requests the
  loop receives, each with the status it is answered with, are a run of the machine from the view
  before the loop to the view after it, under every pattern of failing calls; the log is the
  opcodes and statuses of that run, less at most a last request whose answer was not sent.  So a
  login is to an existing account under the password it carries, a logout that is answered with
  \<open>ST_OK\<close> ends in the anonymous phase, an answered password change or deletion has changed the account and
  the phase, and every refusal has the status its phase prescribes; and unless somebody logs in,
  the user of the session stays the same or is logged out for good, and a deleted session stays
  deleted until it is logged out.\<close>

theorem loop_refines_phases:
  assumes "session_ok s" and "pbkdf2_spec P" and "server_loop P fd key_in key_out s = (log, t)"
  shows "\<exists>es. session_run P (view_of s) es (view_of t) \<and> map fst es = server_requests P fd key_in key_out s \<and>
    length log \<le> length es \<and> length es \<le> Suc (length log) \<and>
    log = map (\<lambda>(pt, st). (pt ! 0, st)) (take (length log) es) \<and>
    (\<not> logins es \<longrightarrow> later_phase (phase_of (sv_session s)) (phase_of (sv_session t)))"
  using loop_is_a_run [OF assms] session_run_later [of P "view_of s" _ "view_of t"] unfolding view_of_sel by blast

text \<open>The example: the server receives a login of \<open>bob\<close> and answers it with \<open>ST_OK\<close>.\<close>

theorem loop_refines_phases_witness:
  "\<exists>log t es. server_loop sample_platform (int 4) [1] [1] (sample_open [R_data login_wire]) = ((0, ST_OK) # log, t) \<and>
     session_run sample_platform (view_of (sample_open [R_data login_wire])) ((sample_login, ST_OK) # es) (view_of t)"
proof -
  let ?s = "sample_open [R_data login_wire]"
  obtain u where u: "server_step sample_platform (int 4) [1] [1] ?s = (Inr (0, ST_OK), u)"
    using sample_open_step [OF sample_login_ok] by blast
  obtain log t where l: "server_loop sample_platform (int 4) [1] [1] u = (log, t)" by fastforce
  from loop_turn [OF u this] have run: "server_loop sample_platform (int 4) [1] [1] ?s = ((0, ST_OK) # log, t)" .
  have "pending_in ?s = login_wire @ []" by (simp add: sample_open_facts)
  from server_receive_sealed [OF sample_gcm_spec sample_open_facts(1) sample_login_ok sample_open_facts(2) this, of 4]
  obtain v where "server_receive sample_platform (int 4) [1] ?s = (Inr (login_nonce, sample_login), v)" by blast
  from requests_turn [OF this u] have r: "server_requests sample_platform (int 4) [1] [1] ?s =
      sample_login # server_requests sample_platform (int 4) [1] [1] u" .
  from loop_refines_phases [OF sample_open_facts(7) sample_pbkdf2_spec run] obtain es where
    es: "session_run sample_platform (view_of ?s) es (view_of t)" "map fst es = sample_login # server_requests sample_platform (int 4) [1] [1] u"
    "(0, ST_OK) # log = map (\<lambda>(pt, st). (pt ! 0, st)) (take (Suc (length log)) es)"
    unfolding r list.size add_Suc_right add_0_right by (elim exE conjE) (rule that)
  from es(2,3) obtain es' where "es = (sample_login, ST_OK) # es'" by (cases es) auto
  with es(1) have "session_run sample_platform (view_of ?s) ((sample_login, ST_OK) # es') (view_of t)" by simp
  with run show ?thesis by (intro exI conjI)
qed

end
