(* ===== verification/KeyLife.thy ===== *)
theory KeyLife
  imports ServerProps
begin

text \<open>
  The life of an account and its key pair through the requests that change them: deletion, a
  password change, and a password change that fails half way.
\<close>

lemma handle_dispatch:
  assumes "server_handle P pt s = (Inr d, t)"
  shows "dispatch P pt s = (Inr d, t)"
  using assms by (auto simp: server_handle_gate split: option.splits)

text \<open>What a completed change of the password hash leaves in memory and on disk.\<close>

lemma change_authenticated_contents:
  assumes "auth_inv s" and "pbkdf2_spec P" and "auth_change_password_authenticated P name pw s = (Inr x, t)"
  shows "\<exists>i path salt. g_db_path s = Some path \<and> auth_find_user (g_users s) name = Some i \<and>
    g_users t = (g_users s)[i := with_password salt
      (pbkdf2 P (cstr pw) salt AUTH_PBKDF2_ITERS AUTH_HASH_LEN) (g_users s ! i)] \<and>
    file_at t path = Some (db_text (g_users t)) \<and>
    (\<forall>q. q \<noteq> path \<longrightarrow> q \<noteq> path @ ascii ''.tmp'' \<longrightarrow> file_at t q = file_at s q)"
proof -
  from auth_change_password_authenticated_Inr [OF assms(3)] obtain i path salt u k p where
    a: "g_db_path s = Some path" "auth_find_user (g_users s) name = Some i" "length salt = AUTH_SALT_LEN"
    and u: "u = auth_update_user i (with_password salt (pbkdf2 P (cstr pw) salt AUTH_PBKDF2_ITERS AUTH_HASH_LEN))
          (s\<lparr>w_tick := k, w_rpos := p\<rparr>)"
    and w: "auth_write_db path u = (Inr (), t)" "g_users t = g_users u" by blast
  have "auth_inv u"
    unfolding u by (rule auth_inv_update) (use assms(1,2) a(3) user_ok_with(1) in \<open>auto simp: pbkdf2_spec_def\<close>)
  from auth_write_db_contents(1) [OF w(1) this] w(2) a u preservesD [OF auth_write_db_other w(1)]
  show ?thesis by (intro exI [of _ i] exI [of _ path] exI [of _ salt]) simp
qed

text \<open>A failed one leaves the database file and every key file alone.\<close>

lemma change_authenticated_failed:
  assumes "auth_change_password_authenticated P name pw s = (Inl x, t)" and "g_db_path s = Some SERVER_DB"
  shows "file_at t SERVER_DB = file_at s SERVER_DB \<and> file_at t (enc_file n) = file_at s (enc_file n)"
proof (cases "auth_find_user (g_users s) name")
  case None
  with assms have "t = s" by (auto simp: auth_change_password_authenticated_def io_def)
  then show ?thesis by simp
next
  case (Some i)
  obtain ra v where a: "auth_apply_new_password P i pw s = (ra, v)" by fastforce
  have v: "file_at v q = file_at s q" for q
    using a auth_apply_new_password_Inl [of P i pw s _ v] auth_apply_new_password_Inr [of P i pw s _ v]
    by (cases ra) auto
  show ?thesis
  proof (cases ra)
    case (Inl e)
    with assms a Some have "t = v" by (auto simp: auth_change_password_authenticated_def io_def)
    then show ?thesis using v by simp
  next
    case (Inr y)
    with assms a Some have w: "auth_write_db SERVER_DB v = (Inl (), t)"
      by (simp add: auth_change_password_authenticated_def io_def)
    from auth_write_db_failed [OF w] preservesD [OF auth_write_db_other [OF key_files_not_db(2,4)] w] v
    show ?thesis by simp
  qed
qed

lemma find_user_update:
  assumes "auth_find_user us name = Some i" and "\<And>u. u_username (f u) = u_username u"
  shows "auth_find_user (us[i := f (us ! i)]) name = Some i"
  using assms
proof (induction us arbitrary: i)
  case (Cons u us)
  then show ?case by (cases i) (auto split: if_splits)
qed simp

text \<open>A key file of version 2 plays no part in deriving the session key.\<close>

lemma login_key_version_2:
  assumes "gcm_spec P" and "holds_key P s name key pkey"
  shows "login_key P (file_at s (enc_file name)) name pw =
    pbkdf2 P (cstr pw) (ascii ''dss-session:'' @ name) KS_PBKDF2_ITERS 32"
proof -
  obtain salt iv where b: "length salt = 16" "length iv = 12" "length (pem_of_private P pkey) \<le> INT_MAX"
    "file_at s (enc_file name) = Some (key_blob P 2 key salt iv (pem_of_private P pkey))"
    using assms(2) by (auto simp: holds_key_def)
  obtain ct tag where e: "gcm_encrypt P key iv [] (pem_of_private P pkey) = (ct, tag)" by fastforce
  from key_blob_parts(2) [OF assms(1) b(1-3) e refl, of 2] show ?thesis
    by (simp add: login_key_def b(4) KS_VERSION_def)
qed

lemma derive_key_version_2:
  assumes "gcm_spec P" and "holds_key P s name key pkey" and "ks_derive_session_key P name pw s = (Inr new, t)"
  shows "new = pbkdf2 P (cstr pw) (ascii ''dss-session:'' @ name) KS_PBKDF2_ITERS 32"
proof -
  obtain salt iv where b: "length salt = 16" "length iv = 12" "length (pem_of_private P pkey) \<le> INT_MAX"
    and f: "file_at s (enc_file name) = Some (key_blob P 2 key salt iv (pem_of_private P pkey))"
    using assms(2) by (auto simp: holds_key_def)
  obtain ct tag where e: "gcm_encrypt P key iv [] (pem_of_private P pkey) = (ct, tag)" by fastforce
  note p = key_blob_parts(2) [OF assms(1) b(1-3) e refl, of 2]
  from assms(3) obtain k s1 r where
    d: "ks_derive_login_session_key P name pw s = (Inr k, s1)" and rd: "ks_read_all (enc_file name) s1 = (r, t) \<or> True"
      "(case r of Inl _ \<Rightarrow> new = k | Inr c \<Rightarrow> file_at s1 (enc_file name) = Some c \<and>
         (c ! 4 \<noteq> KS_VERSION \<longrightarrow> new = k))"
    by (fastforce simp: ks_derive_session_key_def ks_build_user_paths_eq io_inv split: if_splits sum.splits
        dest: ks_read_all_run)
  have k: "k = pbkdf2 P (cstr pw) (ascii ''dss-session:'' @ name) KS_PBKDF2_ITERS 32" "file_at s1 q = file_at s q" for q
    using d by (auto simp: ks_derive_login_session_key_def io_inv Let_def split: if_splits dest: lib_call_run)
  show ?thesis using rd(2) k p f by (auto simp: KS_VERSION_def split: sum.splits)
qed

text \<open>The step both outcomes of a password change share.\<close>

lemma reencrypt_after_derive:
  assumes "gcm_spec P" and "ks_derive_session_key P name pw s = (Inr key, u)" and "holds_key P s name old pkey"
    and "ks_reencrypt_private_for_new_session_key P name old key u = (Inr x, v)"
  shows "(holds_key P v name key pkey \<or> holds_key P v name old pkey) \<and>
    key = pbkdf2 P (cstr pw) (ascii ''dss-session:'' @ name) KS_PBKDF2_ITERS 32 \<and>
    ((\<exists>b w. ks_read_all (enc_file name) u = (Inr b, w)) \<or> calm s \<longrightarrow> holds_key P v name key pkey)"
proof -
  obtain k where u: "u = s\<lparr>w_tick := k\<rparr>" using ks_derive_session_key_run [OF assms(2)] by blast
  have h: "holds_key P u name old pkey" using assms(3) by (simp add: u holds_key_def)
  have "calm s \<longrightarrow> holds_key P v name key pkey"
    using ks_reencrypt_keeps_key [OF assms(1) _ h assms(4)] by (simp add: u)
  with ks_reencrypt_holds_key [OF assms(1) h assms(4)] derive_key_version_2 [OF assms(1,3,2)] show ?thesis by auto
qed

lemma reencrypt_keeps_database:
  assumes "ks_derive_session_key P name pw s = (Inr key, u)"
    and "ks_reencrypt_private_for_new_session_key P name old key u = (Inr x, v)"
  shows "file_at v SERVER_DB = file_at s SERVER_DB"
proof -
  obtain k where u: "u = s\<lparr>w_tick := k\<rparr>" using ks_derive_session_key_run [OF assms(1)] by blast
  from assms(2) show ?thesis
  proof (cases rule: ks_reencrypt_cases)
    case unread
    with ks_read_all_run [OF unread(2)] show ?thesis by (auto simp: u)
  next
    case rewritten
    then show ?thesis using key_files_not_db(2) [of name] by (auto simp: only_file_def u)
  qed
qed

section \<open>A sample password change\<close>

definition sample_change :: bytes where "sample_change = 1 # 3 # ascii ''new''"

definition sample_keyed :: "bytes list \<Rightarrow> server_env" where
  "sample_keyed dirs = (sample_server [(enc_file (ascii ''bob''),
     key_blob sample_platform 2 (replicate 32 5) (replicate 16 6) (replicate 12 7) [9, 9])] [] sample_session)
     \<lparr>w_dirs := dirs\<rparr>"

lemma sample_keyed_facts:
  "calm (sample_keyed dirs)" "g_users (sample_keyed dirs) = [sample_user]" "auth_inv (sample_keyed dirs)"
  "g_db_path (sample_keyed dirs) = Some SERVER_DB" "sv_session (sample_keyed dirs) = sample_session"
  "w_dirs (sample_keyed dirs) = dirs"
  "file_at (sample_keyed dirs) (enc_file (ascii ''bob'')) =
     Some (key_blob sample_platform 2 (replicate 32 5) (replicate 16 6) (replicate 12 7) [9, 9])"
  by (simp_all add: sample_keyed_def sample_server_def calm_def file_at_def auth_inv_def sample_user_ok)

lemma sample_keyed_holds:
  "file_at s (enc_file (ascii ''bob'')) = file_at (sample_keyed dirs) (enc_file (ascii ''bob'')) \<Longrightarrow>
     holds_key sample_platform s (ascii ''bob'') (replicate 32 5) [9, 9]"
  unfolding holds_key_def sample_keyed_facts
  by (intro exI [of _ "replicate 16 6"] exI [of _ "replicate 12 7"])
     (simp add: sample_platform_def [THEN arg_cong, of pem_of_private] INT_MAX_def)

lemma sample_change_parts:
  "sample_change ! 0 = 1" "length sample_change = 2 + unat (sample_change ! 1)" "0 < unat (sample_change ! 1)"
  "cstr (take (unat (sample_change ! 1)) (drop 2 sample_change)) = ascii ''new''"
  by (simp_all add: sample_change_def cstr_def ascii_def)

lemma reencrypt_dirs:
  "ks_reencrypt_private_for_new_session_key P name k k' s = (r, t) \<Longrightarrow> w_dirs t = w_dirs s"
proof -
  assume run: "ks_reencrypt_private_for_new_session_key P name k k' s = (r, t)"
  have "within (\<lambda>s t. w_dirs s = w_dirs t) (ks_reencrypt_private_for_new_session_key P name k k')"
    unfolding ks_reencrypt_private_for_new_session_key_def ks_read_all_def ks_write_all_def
      ks_decrypt_private_blob_with_key_def ks_encrypt_private_pem_with_key_def Let_def
    by (intro frame_same.within_bind frame_same.within_case_prod frame_same.within_try frame_same.within_case_sum
        frame_same.within_if frame_same.within_then frame_same.within_raise frame_same.within_ret
        frame_same.within_on_error frame_same.within_from_option frame_same.within_case_option prims)
       (auto simp: set_file_def)
  from withinD [OF this run] show ?thesis by simp
qed

lemma sample_change_start:
  assumes "enc_file (ascii ''bob'') \<notin> set dirs"
  shows "\<exists>key u v. ks_derive_session_key sample_platform (ascii ''bob'') (ascii ''new'') (sample_keyed dirs) = (Inr key, u) \<and>
    calm u \<and> holds_key sample_platform u (ascii ''bob'') (replicate 32 5) [9, 9] \<and>
    ks_reencrypt_private_for_new_session_key sample_platform (ascii ''bob'') (replicate 32 5) key u = (Inr (), v) \<and>
    calm v \<and> w_dirs v = dirs \<and> g_users v = [sample_user] \<and> auth_inv v \<and> g_db_path v = Some SERVER_DB"
proof -
  let ?s = "sample_keyed dirs"
  obtain key k where d: "ks_derive_session_key sample_platform (ascii ''bob'') (ascii ''new'') ?s = (Inr key, ?s\<lparr>w_tick := k\<rparr>)"
    using ks_derive_session_key_calm [OF sample_keyed_facts(1) sample_name_ok, of sample_platform "ascii ''new''" dirs] by auto
  let ?u = "?s\<lparr>w_tick := k\<rparr>"
  have u: "calm ?u" "file_at ?u (enc_file (ascii ''bob'')) = file_at ?s (enc_file (ascii ''bob''))" "w_dirs ?u = dirs"
    by (simp_all add: sample_keyed_facts)
  from ks_reencrypt_calm [OF u(1) sample_name_ok u(2) [unfolded sample_keyed_facts] sample_unwrap] u(3) assms obtain v where
    v: "ks_reencrypt_private_for_new_session_key sample_platform (ascii ''bob'') (replicate 32 5) key ?u = (Inr (), v)"
    by (auto simp: INT_MAX_def)
  have "calm v" using withinD [OF faults.within_reencrypt v] u(1) by (metis calm_def)
  moreover have "w_dirs v = dirs" using reencrypt_dirs [OF v] u(3) by simp
  moreover have g: "g_users v = [sample_user]" "g_users_cap v = g_users_cap ?s" "g_db_path v = Some SERVER_DB"
    using withinD [OF table_frame.within_reencrypt v] by (simp_all add: sample_keyed_facts)
  moreover have "auth_inv v" using auth_inv_cong [of v ?s] g sample_keyed_facts(2,3) by simp
  ultimately show ?thesis using d u(1) v sample_keyed_holds [OF u(2)] by blast
qed

section \<open>Which calls a run depends on\<close>

text \<open>
  A program whose run depends on the fault oracle only at the calls it makes: under an oracle that
  agrees with the old one there, it returns the same and does the same.  A run in which the library
  works up to a point and fails from there on is obtained from one in which it always works.
\<close>

definition oracle_local :: "('r env_scheme, 'e, 'a) io \<Rightarrow> bool" where
  "oracle_local m \<longleftrightarrow> (\<forall>s r t f. m s = (r, t) \<longrightarrow> w_tick s \<le> w_tick t \<and> w_fault t = w_fault s \<and>
     ((\<forall>n. w_tick s \<le> n \<and> n < w_tick t \<longrightarrow> f n = w_fault s n) \<longrightarrow>
        m (s\<lparr>w_fault := f\<rparr>) = (r, t\<lparr>w_fault := f\<rparr>)))"

named_theorems oracle_intros \<open>programs that depend on the oracle at their own calls only\<close>

lemma oracle_localD:
  assumes "oracle_local m" and "m s = (r, t)"
  shows "w_tick s \<le> w_tick t" and "w_fault t = w_fault s"
    and "(\<And>n. w_tick s \<le> n \<Longrightarrow> n < w_tick t \<Longrightarrow> f n = w_fault s n) \<Longrightarrow> m (s\<lparr>w_fault := f\<rparr>) = (r, t\<lparr>w_fault := f\<rparr>)"
  using assms unfolding oracle_local_def by blast+

lemma oracle_local_bind [oracle_intros]:
  assumes "oracle_local m" and "\<And>x. oracle_local (k x)"
  shows "oracle_local (bind_io m k)"
  unfolding oracle_local_def
proof (intro allI impI)
  fix s r t f assume run: "bind_io m k s = (r, t)"
  obtain rm u where m: "m s = (rm, u)" by fastforce
  note a = oracle_localD [OF assms(1) m]
  show "w_tick s \<le> w_tick t \<and> w_fault t = w_fault s \<and>
     ((\<forall>n. w_tick s \<le> n \<and> n < w_tick t \<longrightarrow> f n = w_fault s n) \<longrightarrow>
        bind_io m k (s\<lparr>w_fault := f\<rparr>) = (r, t\<lparr>w_fault := f\<rparr>))"
  proof (cases rm)
    case (Inl e)
    with run m have "r = Inl e" "t = u" by (simp_all add: bind_io_err)
    with a m Inl show ?thesis by (auto intro: bind_io_err)
  next
    case (Inr x)
    with run m have k: "k x u = (r, t)" by (simp add: bind_io_ok)
    note b = oracle_localD [OF assms(2) k]
    have "bind_io m k (s\<lparr>w_fault := f\<rparr>) = (r, t\<lparr>w_fault := f\<rparr>)"
      if f: "\<forall>n. w_tick s \<le> n \<and> n < w_tick t \<longrightarrow> f n = w_fault s n"
    proof -
      have "m (s\<lparr>w_fault := f\<rparr>) = (rm, u\<lparr>w_fault := f\<rparr>)" by (rule a(3)) (use f b(1) in auto)
      moreover have "k x (u\<lparr>w_fault := f\<rparr>) = (r, t\<lparr>w_fault := f\<rparr>)" by (rule b(3)) (use f a(1,2) in auto)
      ultimately show ?thesis using Inr by (simp add: bind_io_ok)
    qed
    with a(1,2) b(1,2) show ?thesis by auto
  qed
qed

lemma oracle_local_then [oracle_intros]: "oracle_local m \<Longrightarrow> oracle_local k \<Longrightarrow> oracle_local (then_io m k)"
  unfolding then_io_def by (rule oracle_local_bind)

lemma oracle_local_try [oracle_intros]: "oracle_local m \<Longrightarrow> oracle_local (try_io m)"
  unfolding oracle_local_def try_io_def by (fastforce split: prod.splits)

lemma on_error_try:
  "on_error m h = bind_io (try_io m) (\<lambda>r. case r of Inr x \<Rightarrow> ret x | Inl e \<Rightarrow> then_io (try_io h) (raise e))"
  by (auto simp: on_error_def bind_io_def then_io_def try_io_def ret_def raise_def fun_eq_iff
      split: sum.splits prod.splits)

lemma oracle_local_simple [oracle_intros]:
  "oracle_local (ret x)" "oracle_local (raise e)" "oracle_local (from_option e z)"
  by (auto simp: oracle_local_def io_def from_option_def split: option.splits)

lemma oracle_local_get [oracle_intros]: "(\<And>s f. g (s\<lparr>w_fault := f\<rparr>) = g s) \<Longrightarrow> oracle_local (get_io g)"
  by (simp add: oracle_local_def get_io_def)

lemma oracle_local_put [oracle_intros]:
  "(\<And>s f. g (s\<lparr>w_fault := f\<rparr>) = (g s)\<lparr>w_fault := f\<rparr>) \<Longrightarrow> (\<And>s. w_tick (g s) = w_tick s) \<Longrightarrow>
     (\<And>s. w_fault (g s) = w_fault s) \<Longrightarrow> oracle_local (put_io g)"
  by (auto simp: oracle_local_def put_io_def)

lemma oracle_local_cases [oracle_intros]:
  "oracle_local m \<Longrightarrow> oracle_local k \<Longrightarrow> oracle_local (if b then m else k)"
  "(\<And>e. oracle_local (g e)) \<Longrightarrow> (\<And>x. oracle_local (h x)) \<Longrightarrow> oracle_local (case r of Inl e \<Rightarrow> g e | Inr x \<Rightarrow> h x)"
  "oracle_local m \<Longrightarrow> (\<And>x. oracle_local (h x)) \<Longrightarrow> oracle_local (case z of None \<Rightarrow> m | Some x \<Rightarrow> h x)"
  "(\<And>x y. oracle_local (g2 x y)) \<Longrightarrow> oracle_local (case p of (x, y) \<Rightarrow> g2 x y)"
  by (simp_all split: sum.split option.split prod.split)

lemma oracle_local_on_error [oracle_intros]: "oracle_local m \<Longrightarrow> oracle_local h \<Longrightarrow> oracle_local (on_error m h)"
  unfolding on_error_try by (intro oracle_intros)

lemma oracle_local_prims [oracle_intros]:
  "oracle_local (lib_call e)" "oracle_local (file_write e p d)" "oracle_local (file_close e p)"
  by (auto simp: oracle_local_def lib_call_def file_write_def file_close_def set_file_def file_at_def Let_def)

lemma oracle_local_lib_calls [oracle_intros]: "oracle_local (lib_calls n e)"
  by (induction n) (auto intro: oracle_intros)

lemma oracle_local_rand [oracle_intros]: "oracle_local (rand_bytes e n)"
  unfolding rand_bytes_def
  by (intro oracle_local_then oracle_local_prims) (auto simp: oracle_local_def)

lemma oracle_local_open [oracle_intros]: "oracle_local (open_read e p)" "oracle_local (open_write e p)"
  unfolding open_read_def open_write_def
  by (intro oracle_intros; simp add: file_at_def set_file_def)+

lemmas key_ops = ks_read_all_def ks_write_all_def ks_pbkdf2_key_def ks_derive_login_session_key_def
  ks_decrypt_private_blob_with_key_def ks_encrypt_private_pem_with_key_def

lemma oracle_local_derive [oracle_intros]: "oracle_local (ks_derive_session_key P name pw)"
  unfolding ks_derive_session_key_def key_ops Let_def by (intro oracle_intros)

lemma oracle_local_read [oracle_intros]: "oracle_local (ks_read_all p)"
  unfolding key_ops Let_def by (intro oracle_intros)

lemma oracle_local_reencrypt [oracle_intros]: "oracle_local (ks_reencrypt_private_for_new_session_key P name k k')"
  unfolding ks_reencrypt_private_for_new_session_key_def key_ops Let_def by (intro oracle_intros)

lemma reencrypt_reads:
  assumes "ks_reencrypt_private_for_new_session_key P name old new s = (Inr u, t)"
  shows "\<exists>r v. ks_read_all (enc_file name) s = (r, v) \<and> w_tick v \<le> w_tick t"
proof -
  obtain r v where rd: "ks_read_all (enc_file name) s = (r, v)" by fastforce
  have "name_ok name" using assms by (cases rule: ks_reencrypt_cases) auto
  let ?rest = "\<lambda>r. case r of Inl e \<Rightarrow> ret () | Inr b \<Rightarrow>
      bind_io (ks_decrypt_private_blob_with_key P b old) (\<lambda>priv_pem.
      bind_io (ks_encrypt_private_pem_with_key P priv_pem new) (\<lambda>new_blob.
      ks_write_all (enc_file name) new_blob))"
  have "?rest r v = (Inr u, t)"
    using assms rd \<open>name_ok name\<close>
    by (simp add: ks_reencrypt_private_for_new_session_key_def ks_build_user_paths_eq io_def try_io_def split: sum.splits)
  moreover have "oracle_local (?rest r)" unfolding key_ops Let_def by (intro oracle_intros)
  ultimately show ?thesis using rd oracle_localD(1) by blast
qed

lemma oracle_local_apply [oracle_intros]: "oracle_local (auth_apply_new_password P i pw)"
  unfolding auth_apply_new_password_def auth_pbkdf2_def Let_def
  by (intro oracle_intros) (simp_all add: auth_update_user_def)

section \<open>Properties\<close>

text \<open>C7: Deleting keys is final.  When \<open>OP_DELETE_KEYS\<close> is answered with \<open>ST_OK\<close>, the account carries a
  tombstone in memory and in the database file, both key files are gone, and this session answers
  every further request except a login, a logout and fetching a public key with
  \<open>ST_ERR_DELETED\<close>, changing nothing.\<close>

theorem delete_request_is_final:
  assumes "auth_inv s" and "g_db_path s = Some SERVER_DB" and "pt ! 0 = opcode_val OP_DELETE_KEYS"
    and "server_handle P pt s = (Inr d, t)"
  shows "tomb t (ss_username (sv_session s)) \<and> file_at t SERVER_DB = Some (db_text (g_users t)) \<and>
    file_at t (pub_file (ss_username (sv_session s))) = None \<and>
    file_at t (enc_file (ss_username (sv_session s))) = None \<and>
    (\<forall>pt'. pt' ! 0 \<notin> {opcode_val OP_AUTH, opcode_val OP_GET_PUBLIC_KEY, opcode_val OP_LOGOUT} \<longrightarrow>
       server_handle P pt' t = (Inl ST_ERR_DELETED, t))"
proof -
  let ?u = "ss_username (sv_session s)"
  have "opcode_of (pt ! 0) = Some OP_DELETE_KEYS" unfolding assms(3) by (rule opcode_of_val)
  then have o: "op_delete_keys s = (Inr d, t)" using handle_dispatch [OF assms(4)] by (simp add: dispatch_def)
  from op_delete_keys_Inr [OF o] obtain u where a: "ss_is_authenticated (sv_session s) = 1"
    and k: "ks_delete_keys ?u s = (Inr (), u)"
    and t: "t = u\<lparr>sv_session := (sv_session u)\<lparr>ss_deleted := 1\<rparr>\<rparr>" by blast
  have ss: "sv_session u = sv_session s" using withinD [OF same_session.within_delete_keys k] by simp
  from ks_delete_keys_Inr [OF k] obtain v where v: "auth_set_deleted ?u 1 s = (Inr (), v)" "g_users u = g_users v"
    and f: "file_at u (pub_file ?u) = None" "file_at u (enc_file ?u) = None"
      "\<forall>q. q \<noteq> pub_file ?u \<longrightarrow> q \<noteq> enc_file ?u \<longrightarrow> file_at u q = file_at v q" by blast
  from auth_set_deleted_Inr [OF v(1)] assms(2) obtain i where
    w: "auth_write_db SERVER_DB (auth_update_user i (with_deleted 1) s) = (Inr (), v)"
      "g_users v = g_users (auth_update_user i (with_deleted 1) s)" by auto
  have "auth_inv (auth_update_user i (with_deleted 1) s)"
    by (rule auth_inv_update) (use assms(1) user_ok_with(2) in auto)
  from auth_write_db_contents(1) [OF w(1) this] w(2) have "file_at v SERVER_DB = Some (db_text (g_users v))" by simp
  moreover have "file_at u SERVER_DB = file_at v SERVER_DB" using f(3) key_files_not_db(1,2) [of ?u] by metis
  moreover have "server_handle P pt' t = (Inl ST_ERR_DELETED, t)"
    if "pt' ! 0 \<notin> {opcode_val OP_AUTH, opcode_val OP_GET_PUBLIC_KEY, opcode_val OP_LOGOUT}" for pt'
    using that a by (simp add: server_handle_gate gate_def t ss)
  ultimately show ?thesis using f v(2) delete_keys_tomb [OF k] by (simp add: t file_at_def)
qed

theorem delete_request_is_final_witness:
  "\<exists>t. server_handle sample_platform [5] (sample_server [] [] sample_session) = (Inr [], t) \<and>
     tomb t (ascii ''bob'') \<and> server_handle sample_platform [2] t = (Inl ST_ERR_DELETED, t)"
proof -
  obtain t where t: "server_handle sample_platform [5] (sample_server [] [] sample_session) = (Inr [], t)"
    using sample_delete by blast
  from delete_request_is_final [OF sample_server_simps(8,3) _ t] t show ?thesis by simp
qed

text \<open>C11: A password change keeps the key pair.  When \<open>OP_CHANGE_PASSWORD\<close> is answered with \<open>ST_OK\<close>, whatever
  library calls failed on the way, the account has the hash of the new password, in memory and in the
  database file, and the flag demanding a change is gone.  A private key that was stored under the
  session's key in a file of version 2 is then still on disk, under the session's new key or still
  under the old one (a failing read of the key file goes unnoticed); the new key is the one the next login with the
  new password derives, and in a working environment the private key is stored under it.\<close>

theorem password_change_keeps_keys:
  assumes "auth_inv s" and "pbkdf2_spec P" and "gcm_spec P" and "g_db_path s = Some SERVER_DB"
    and "name = ss_username (sv_session s)"
    and "pt ! 0 = opcode_val OP_CHANGE_PASSWORD" and "new_pw = cstr (take (unat (pt ! 1)) (drop 2 pt))"
    and "server_handle P pt s = (Inr d, t)"
  shows "(\<exists>i. auth_find_user (g_users t) name = Some i \<and> u_must_change (g_users t ! i) = 0 \<and>
       u_hash (g_users t ! i) = pbkdf2 P new_pw (u_salt (g_users t ! i)) AUTH_PBKDF2_ITERS AUTH_HASH_LEN) \<and>
    ss_must_change (sv_session t) = 0 \<and> file_at t SERVER_DB = Some (db_text (g_users t)) \<and>
    (holds_key P s name (ss_key (sv_session s)) pkey \<longrightarrow>
       (holds_key P t name (ss_key (sv_session t)) pkey \<or> holds_key P t name (ss_key (sv_session s)) pkey) \<and>
       ss_key (sv_session t) = login_key P (file_at t (enc_file name)) name new_pw \<and>
       (calm s \<longrightarrow> holds_key P t name (ss_key (sv_session t)) pkey))"
proof -
  have "opcode_of (pt ! 0) = Some OP_CHANGE_PASSWORD" unfolding assms(6) by (rule opcode_of_val)
  then have o: "op_change_password P pt s = (Inr d, t)" using handle_dispatch [OF assms(8)] by (simp add: dispatch_def)
  from op_change_password_Inr [OF o] obtain key u v w where
    k: "ks_derive_session_key P name new_pw s = (Inr key, u)" and
    r: "ks_reencrypt_private_for_new_session_key P name (ss_key (sv_session s)) key u = (Inr (), v)" and
    c: "auth_change_password_authenticated P name new_pw v = (Inr (), w)" and
    t: "t = w\<lparr>sv_session := (sv_session w)\<lparr>ss_key := key, ss_must_change := 0\<rparr>\<rparr>"
    unfolding Let_def assms(5,7) by blast
  from ks_derive_session_key_run [OF k] obtain k0 where u: "u = s\<lparr>w_tick := k0\<rparr>" by blast
  have gv: "g_users v = g_users s" "g_users_cap v = g_users_cap s" "g_db_path v = g_db_path s"
    using withinD [OF table_frame.within_reencrypt r] by (simp_all add: u)
  then have "auth_inv v" using assms(1) auth_inv_cong by metis
  from change_authenticated_contents [OF this assms(2) c] gv(3) assms(4) obtain i salt where
    i: "auth_find_user (g_users v) name = Some i"
      "g_users w = (g_users v)[i := with_password salt (pbkdf2 P (cstr new_pw) salt AUTH_PBKDF2_ITERS AUTH_HASH_LEN) (g_users v ! i)]"
      "file_at w SERVER_DB = Some (db_text (g_users w))"
      "\<forall>q. q \<noteq> SERVER_DB \<longrightarrow> q \<noteq> SERVER_DB @ ascii ''.tmp'' \<longrightarrow> file_at w q = file_at v q" by auto
  have f: "file_at t (enc_file name) = file_at v (enc_file name)"
    using i(4) key_files_not_db(2,4) by (auto simp: t file_at_def)
  then have hk: "holds_key P v name k pkey = holds_key P t name k pkey" for k by (simp add: holds_key_def)
  have "auth_find_user (g_users w) name = Some i"
    unfolding i(2) by (rule find_user_update [OF i(1)]) simp
  moreover have "g_users w ! i = with_password salt (pbkdf2 P (cstr new_pw) salt AUTH_PBKDF2_ITERS AUTH_HASH_LEN) (g_users v ! i)"
    using i(1,2) find_user_name by fastforce
  moreover have "cstr new_pw = new_pw" by (simp add: assms(7))
  moreover have "(holds_key P t name key pkey \<or> holds_key P t name (ss_key (sv_session s)) pkey) \<and>
      key = login_key P (file_at t (enc_file name)) name new_pw \<and> (calm s \<longrightarrow> holds_key P t name key pkey)"
    if h: "holds_key P s name (ss_key (sv_session s)) pkey"
    using reencrypt_after_derive [OF assms(3) k h r] login_key_version_2 [OF assms(3)] unfolding hk by metis
  ultimately show ?thesis using i(3) by (auto simp: t with_password_def file_at_def)
qed

theorem password_change_keeps_keys_witness:
  "\<exists>t. server_handle sample_platform sample_change (sample_keyed []) = (Inr [], t) \<and>
     holds_key sample_platform t (ascii ''bob'') (ss_key (sv_session t)) [9, 9]"
proof -
  let ?s = "sample_keyed []"
  from sample_change_start [of "[]"] obtain key u v where
    d: "ks_derive_session_key sample_platform (ascii ''bob'') (ascii ''new'') ?s = (Inr key, u)"
    and r: "ks_reencrypt_private_for_new_session_key sample_platform (ascii ''bob'') (replicate 32 5) key u = (Inr (), v)"
    and v: "calm v" "w_dirs v = []" "g_users v = [sample_user]" "auth_inv v" "g_db_path v = Some SERVER_DB" by auto
  have "auth_find_user (g_users v) (ascii ''bob'') = Some 0" by (simp add: v(3))
  from change_authenticated_calm [OF v(1,4) sample_pbkdf2_spec this v(5)] v(2) obtain w where
    c: "auth_change_password_authenticated sample_platform (ascii ''bob'') (ascii ''new'') v = (Inr (), w)" by auto
  have len: "\<not> length sample_change < 2" using sample_change_parts(2) by linarith
  have h: "server_handle sample_platform sample_change ?s = op_change_password sample_platform sample_change ?s"
    by (simp add: server_handle_gate gate_def dispatch_def opcode_of_def sample_change_parts sample_keyed_facts)
  obtain t where "op_change_password sample_platform sample_change ?s = (Inr [], t)"
    using len sample_change_parts d r c
    by (simp add: op_change_password_def session_run sample_keyed_facts Let_def bind_io_ok [OF or_raise_ok]
        then_io_ok [OF or_raise_ok]) (simp add: io_def set_session_def)
  with h have t: "server_handle sample_platform sample_change ?s = (Inr [], t)" by simp
  have a: "ascii ''bob'' = ss_username (sv_session ?s)" "holds_key sample_platform ?s (ascii ''bob'') (ss_key (sv_session ?s)) [9, 9]"
    "sample_change ! 0 = opcode_val OP_CHANGE_PASSWORD"
    by (simp_all add: sample_keyed_facts sample_change_parts sample_keyed_holds)
  from password_change_keeps_keys [OF sample_keyed_facts(3) sample_pbkdf2_spec sample_gcm_spec sample_keyed_facts(4) a(1,3) refl t]
    sample_keyed_facts(1) a(2) t
  show ?thesis by blast
qed

text \<open>C36: A password change whose database write fails leaves the private key under the new password's
  key.  In a session whose private key is stored under its key in a file of version 2, the file is
  read and re-encrypted before the database is written; if that write fails, at whatever library
  call, the client is told \<open>ST_ERR_INTERNAL\<close>, the session keeps the old key and the
  database file the old hash, but the private key on disk is encrypted under the key derived from
  the new password.  The table in memory already holds the new hash, so a login with the new
  password reaches the key, but only until a restart reads the database file again.\<close>

theorem failed_change_strands_private_key:
  assumes "gcm_spec P" and "name = ss_username (sv_session s)"
    and "active (sv_session s)" and "length pt = 2 + unat (pt ! 1)" and "0 < unat (pt ! 1)"
    and "pt ! 0 = opcode_val OP_CHANGE_PASSWORD" and "new_pw = cstr (take (unat (pt ! 1)) (drop 2 pt))"
    and "g_db_path s = Some SERVER_DB" and "auth_find_user (g_users s) name = Some i"
    and "holds_key P s name (ss_key (sv_session s)) pkey"
    and "ks_derive_session_key P name new_pw s = (Inr new_key, u)"
    and "ks_read_all (enc_file name) u = (Inr blob, u')"
    and "ks_reencrypt_private_for_new_session_key P name (ss_key (sv_session s)) new_key u = (Inr (), v)"
    and "auth_apply_new_password P i new_pw v = (Inr (), x)"
    and "auth_write_db SERVER_DB x = (Inl (), w)"
  shows "server_handle P pt s = (Inl ST_ERR_INTERNAL, w) \<and> sv_session w = sv_session s \<and>
    file_at w SERVER_DB = file_at s SERVER_DB \<and>
    holds_key P w name new_key pkey \<and> new_key = login_key P (file_at w (enc_file name)) name new_pw \<and>
    u_hash (g_users w ! i) = pbkdf2 P new_pw (u_salt (g_users w ! i)) AUTH_PBKDF2_ITERS AUTH_HASH_LEN"
proof -
  have op: "pt ! 0 = 1" "opcode_of 1 = Some OP_CHANGE_PASSWORD" "2 \<le> length pt"
    using assms(4,6) by (simp_all add: opcode_of_def)
  obtain k where u: "u = s\<lparr>w_tick := k\<rparr>" using ks_derive_session_key_run [OF assms(11)] by blast
  have gv: "g_db_path v = Some SERVER_DB" "g_users v = g_users s"
    using withinD [OF table_frame.within_reencrypt assms(13)] assms(8) by (simp_all add: u)
  then have c: "auth_change_password_authenticated P name new_pw v = (Inl (), w)"
    using assms(9,14,15) by (simp add: auth_change_password_authenticated_def io_def)
  have "gate (sv_session s) 1 = None" using assms(3) by (simp add: gate_def active_def)
  then have "server_handle P pt s = op_change_password P pt s"
    using op by (simp add: server_handle_gate dispatch_def)
  also have "\<dots> = (Inl ST_ERR_INTERNAL, w)"
    using assms(3) op(3) assms(4,5,11,13) c unfolding assms(2,7)
    by (simp add: op_change_password_def session_run active_def Let_def bind_io_ok [OF or_raise_ok]
        then_io_ok [OF or_raise_ok] then_io_err [OF or_raise_err])
  finally have h: "server_handle P pt s = (Inl ST_ERR_INTERNAL, w)" .
  have "file_at v SERVER_DB = file_at s SERVER_DB"
    by (rule reencrypt_keeps_database [OF assms(11,13)])
  moreover have fw: "file_at w SERVER_DB = file_at v SERVER_DB \<and> file_at w (enc_file name) = file_at v (enc_file name)"
    by (rule change_authenticated_failed [OF c gv(1)])
  moreover have "sv_session w = sv_session s"
    using withinD [OF same_session.within_change_authenticated c]
      withinD [OF same_session.within_reencrypt assms(13)] by (simp add: u)
  moreover have "holds_key P w name new_key pkey"
    using reencrypt_after_derive [OF assms(1,11,10,13)] assms(12) fw by (auto simp: holds_key_def)
  moreover from this have "new_key = login_key P (file_at w (enc_file name)) name new_pw"
    using derive_key_version_2 [OF assms(1,10,11)] login_key_version_2 [OF assms(1)] by metis
  moreover obtain salt k p where "x = auth_update_user i (with_password salt
      (pbkdf2 P (cstr new_pw) salt AUTH_PBKDF2_ITERS AUTH_HASH_LEN)) (v\<lparr>w_tick := k, w_rpos := p\<rparr>)"
    using auth_apply_new_password_Inr [OF assms(14)] by blast
  then have "u_hash (g_users w ! i) = pbkdf2 P new_pw (u_salt (g_users w ! i)) AUTH_PBKDF2_ITERS AUTH_HASH_LEN"
    using auth_write_db_fields(1) [OF assms(15)] find_user_name [OF assms(9)] gv(2)
    by (simp add: assms(7) with_password_def)
  ultimately show ?thesis using h by simp
qed

text \<open>
  The example is a run in which the library works until the server has changed the password in
  memory, and the \<open>fopen\<close> of \<open>users.db.tmp\<close> is the one call that fails.
\<close>

theorem failed_change_strands_private_key_witness:
  "\<exists>n key w. server_handle sample_platform sample_change (sample_keyed []\<lparr>w_fault := (\<lambda>m. m = n)\<rparr>) =
       (Inl ST_ERR_INTERNAL, w) \<and>
     holds_key sample_platform w (ascii ''bob'') key [9, 9] \<and> ss_key (sv_session w) = replicate 32 5"
proof -
  let ?s = "sample_keyed []" let ?b = "ascii ''bob''" let ?new = "ascii ''new''"
  let ?re = "ks_reencrypt_private_for_new_session_key sample_platform ?b (replicate 32 5)"
  from sample_change_start [of "[]"] obtain key u v where
    d: "ks_derive_session_key sample_platform ?b ?new ?s = (Inr key, u)"
    and u: "calm u" "holds_key sample_platform u ?b (replicate 32 5) [9, 9]"
    and r: "?re key u = (Inr (), v)" and v: "calm v" by auto
  obtain blob u' where rd: "ks_read_all (enc_file ?b) u = (Inr blob, u')" "w_tick u' \<le> w_tick v"
    using reencrypt_reads [OF r] ks_read_all_calm [OF u(1), of "enc_file ?b"] u(2) by (auto simp: holds_key_def)
  obtain x where x: "auth_apply_new_password sample_platform 0 ?new v = (Inr (), x)"
    using v(1) by (simp add: auth_apply_new_password_def auth_pbkdf2_def rand_bytes_calm io_def)
  define f where "f = (\<lambda>m. m = Suc (w_tick x))"
  note dl = oracle_localD [OF oracle_local_derive d] and rl = oracle_localD [OF oracle_local_reencrypt r]
    and al = oracle_localD [OF oracle_local_apply x] and rdl = oracle_localD [OF oracle_local_read rd(1)]
  have quiet: "\<not> w_fault ?s n" for n using sample_keyed_facts(1) by (simp add: calm_def)
  have f: "ks_derive_session_key sample_platform ?b ?new (?s\<lparr>w_fault := f\<rparr>) = (Inr key, u\<lparr>w_fault := f\<rparr>)"
    "ks_read_all (enc_file ?b) (u\<lparr>w_fault := f\<rparr>) = (Inr blob, u'\<lparr>w_fault := f\<rparr>)"
    "?re key (u\<lparr>w_fault := f\<rparr>) = (Inr (), v\<lparr>w_fault := f\<rparr>)"
    "auth_apply_new_password sample_platform 0 ?new (v\<lparr>w_fault := f\<rparr>) = (Inr (), x\<lparr>w_fault := f\<rparr>)"
    by (rule dl(3) rdl(3) rl(3) al(3); use dl(1,2) rl(1,2) al(1,2) rdl(1) rd(2) quiet in \<open>simp add: f_def\<close>)+
  obtain w where w: "auth_write_db SERVER_DB (x\<lparr>w_fault := f\<rparr>) = (Inl (), w)"
    by (auto simp: auth_write_db_def Let_def open_write_def lib_call_def io_def f_def)
  have s: "?b = ss_username (sv_session (?s\<lparr>w_fault := f\<rparr>))" "active (sv_session (?s\<lparr>w_fault := f\<rparr>))"
    "sample_change ! 0 = opcode_val OP_CHANGE_PASSWORD" "g_db_path (?s\<lparr>w_fault := f\<rparr>) = Some SERVER_DB"
    "auth_find_user (g_users (?s\<lparr>w_fault := f\<rparr>)) ?b = Some 0"
    by (simp_all add: sample_keyed_facts active_def sample_change_parts)
  have k: "holds_key sample_platform (?s\<lparr>w_fault := f\<rparr>) ?b (ss_key (sv_session (?s\<lparr>w_fault := f\<rparr>))) [9, 9]"
    "?re key (u\<lparr>w_fault := f\<rparr>) = ks_reencrypt_private_for_new_session_key sample_platform ?b
       (ss_key (sv_session (?s\<lparr>w_fault := f\<rparr>))) key (u\<lparr>w_fault := f\<rparr>)"
    using sample_keyed_holds [OF refl, of "[]"] by (simp_all add: sample_keyed_facts holds_key_def file_at_def)
  note res = failed_change_strands_private_key [OF sample_gcm_spec s(1,2) sample_change_parts(2,3) s(3)
      sample_change_parts(4) [symmetric] s(4,5) k(1) f(1,2) f(3) [unfolded k(2)] f(4) w]
  have "ss_key (sv_session w) = replicate 32 5" using res by (simp add: sample_keyed_facts)
  with res show ?thesis unfolding f_def by blast
qed

end
