(* ===== verification/ServerRun.thy ===== *)
theory ServerRun
  imports ServerProps
begin

text \<open>
  The server program from \<open>main\<close> to its exit: loading the accounts, serving one client, and the
  state it leaves.
\<close>

section \<open>Initialisation\<close>

text \<open>Loading the database involves neither the session nor the replay cache.\<close>

definition server_part :: "'r server_env_scheme \<Rightarrow> session_state \<times> replay_cache" where
  "server_part s = (sv_session s, sv_cache s)"

interpretation same_part: loading_frame "\<lambda>s t. server_part s = server_part t"
  by unfold_locales (auto simp: server_part_def)

lemma server_init_db_run:
  assumes "server_init_db P s = (r, t)" and "auth_inv s"
  shows "auth_inv t" and "server_part t = server_part s" and "r = Inr () \<Longrightarrow> g_db_path t = Some SERVER_DB"
proof -
  obtain rb u where b: "auth_bootstrap_from_seed_if_needed P (Some SERVER_DB) (Some SERVER_SEED) s = (rb, u)" by fastforce
  have u: "auth_inv u" "server_part u = server_part s"
    using withinD [OF table_frame.within_bootstrap b] withinD [OF same_part.within_bootstrap b] assms(2)
      auth_inv_cong [of u s] by simp_all
  have "auth_inv t \<and> server_part t = server_part s \<and> (r = Inr () \<longrightarrow> g_db_path t = Some SERVER_DB)"
  proof (cases rb)
    case (Inl e)
    with b assms(1) u show ?thesis by (auto simp: server_init_db_def io_def)
  next
    case (Inr x)
    with b assms(1) have l: "auth_load_db P (Some SERVER_DB) u = (r, t)" by (simp add: server_init_db_def io_def)
    from auth_load_db_run [OF l u(1)] withinD [OF same_part.within_load_db l] u(2) show ?thesis by simp
  qed
  then show "auth_inv t" "server_part t = server_part s" "r = Inr () \<Longrightarrow> g_db_path t = Some SERVER_DB" by auto
qed

lemma server_serve_clean:
  assumes "server_serve P fd s = (log, t)"
  shows "sv_session t = session_clear \<and> rc_entries (sv_cache t) = None \<and> rc_count (sv_cache t) = 0"
  using assms by (auto simp: server_serve_def Let_def replay_free_def split: prod.splits)

section \<open>Properties\<close>

text \<open>C23: A run of the server ends clean.  Whatever the database file and the socket hold and whichever
  library call fails, when \<open>main\<close> returns, the accounts in memory are well formed, the session is
  blank, the replay cache is freed, every descriptor it has opened is closed, and it returns 1 only if
  it has answered no request.\<close>

theorem server_main_ends_clean:
  assumes "pbkdf2_spec P" and "g_users s0 = []" and "g_users_cap s0 = 0" and "fresh_fds gai []"
    and "server_main P gai accepts s0 = Some (code, log, fds, t)"
  shows "auth_inv t \<and> sv_session t = session_clear \<and> rc_entries (sv_cache t) = None \<and>
    fds = [] \<and> (code = 0 \<or> code = 1 \<and> log = [])"
proof -
  define s where "s = s0\<lparr>sv_session := session_clear, sv_cache := replay_zero\<rparr>"
  have inv: "auth_inv s" using assms(2,3) by (simp add: s_def auth_inv_def)
  obtain r u where i: "server_init_db P s = (r, u)" by fastforce
  note ui = server_init_db_run [OF i inv]
  have part: "sv_session u = session_clear" "sv_cache u = replay_zero"
    using ui(2) by (simp_all add: server_part_def s_def)
  have early: "auth_inv u \<and> sv_session u = session_clear \<and> rc_entries (sv_cache u) = None"
    using ui(1) part by (simp add: replay_zero_def)
  have serve: "auth_inv v \<and> sv_session v = session_clear \<and> rc_entries (sv_cache v) = None"
    if "server_serve P fd u = (log', v)" for fd log' v
  proof -
    have "session_ok u" using ui(1) part(1) by (simp add: session_ok_def)
    then have "session_ok v" using conn_session.serve_within [OF that] assms(1) by blast
    with server_serve_clean [OF that] show ?thesis by (simp add: session_ok_def)
  qed
  obtain rl fds1 where l: "tcp_listen gai [] = (rl, fds1)" by fastforce
  from tcp_listen_fds [OF assms(4) l] assms(5) i l early serve show ?thesis
    by (auto simp: server_main_def Let_def close_fd_def s_def [symmetric] split: sum.splits prod.splits option.splits)
qed

theorem server_main_ends_clean_witness:
  "\<exists>code log fds t. server_main sample_platform (Gai_ok [\<lparr>ep_socket = Inr 3, ep_connect = None, ep_reuse = None,
         ep_bind = None, ep_listen = None\<rparr>]) [Inl EINTR, Inr 4]
       ((sample_server [(SERVER_DB, db_text [sample_user])] [R_data [1, 2, 3]] sample_session)
          \<lparr>g_users := [], g_users_cap := 0\<rparr>) = Some (code, log, fds, t) \<and>
     auth_inv t \<and> sv_session t = session_clear \<and> fds = []"
proof -
  let ?s0 = "(sample_server [(SERVER_DB, db_text [sample_user])] [R_data [1, 2, 3]] sample_session)
      \<lparr>g_users := [], g_users_cap := 0\<rparr>"
  let ?gai = "Gai_ok [\<lparr>ep_socket = Inr 3, ep_connect = None, ep_reuse = None, ep_bind = None, ep_listen = None\<rparr>]"
  let ?start = "?s0\<lparr>sv_session := session_clear, sv_cache := replay_zero\<rparr>"
  have net: "tcp_listen ?gai [] = (Inr 3, [3])" "tcp_accept 3 [Inl EINTR, Inr 4] = Some (Inr 4)"
    by (simp_all add: tcp_listen_def tcp_accept_def)
  obtain r u where i: "server_init_db sample_platform ?start = (r, u)" by (rule prod.exhaust)
  obtain log v where v: "server_serve sample_platform 4 u = (log, v)" by (rule prod.exhaust)
  have "\<exists>code log fds t. server_main sample_platform ?gai [Inl EINTR, Inr 4] ?s0 = Some (code, log, fds, t)"
    using i by (cases r) (simp_all add: server_main_def net v)
  then obtain code log fds t
    where r: "server_main sample_platform ?gai [Inl EINTR, Inr 4] ?s0 = Some (code, log, fds, t)" by blast
  have "g_users ?s0 = []" "g_users_cap ?s0 = 0" by simp_all
  note empty = this
  have "fresh_fds ?gai []" by (simp add: fresh_fds_def)
  from server_main_ends_clean [OF sample_pbkdf2_spec empty this r] r show ?thesis by blast
qed

end
