(* ===== verification/FirstStart.thy ===== *)
theory FirstStart
  imports ServerRun
begin

text \<open>
  The first start of the server: with no database, the accounts of the seed file become the
  database, and the seed is put aside.
\<close>

section \<open>Seed files\<close>

text \<open>An account of the seed: name, plain password and the two flags.\<close>

record seed_user =
  sd_name :: bytes
  sd_password :: bytes
  sd_must_change :: int
  sd_deleted :: int

definition seed_line :: "seed_user \<Rightarrow> bytes" where
  "seed_line x = sd_name x @ [colon] @ sd_password x @ [colon] @ show_int (sd_must_change x) @ [colon] @
     show_int (sd_deleted x)"

definition seed_text :: "seed_user list \<Rightarrow> bytes" where
  "seed_text xs = concat (map (\<lambda>x. seed_line x @ [newline]) xs)"

definition plain :: "bytes \<Rightarrow> bool" where
  "plain b \<longleftrightarrow> b \<noteq> [] \<and> colon \<notin> set b \<and> newline \<notin> set b \<and> 0 \<notin> set b"

definition seed_ok :: "seed_user \<Rightarrow> bool" where
  "seed_ok x \<longleftrightarrow> plain (sd_name x) \<and> plain (sd_password x) \<and> sd_must_change x \<in> {0, 1} \<and> sd_deleted x \<in> {0, 1} \<and>
     length (sd_name x) + length (sd_password x) + 5 < AUTH_LINE_MAX \<and> length (sd_name x) + 102 < AUTH_LINE_MAX"

lemma seed_line_chars:
  assumes "seed_ok x"
  shows "newline \<notin> set (seed_line x) \<and> 0 \<notin> set (seed_line x) \<and> seed_line x \<noteq> [] \<and> length (seed_line x) \<le> Suc (AUTH_LINE_MAX - 2)"
proof -
  obtain c d where f: "show_int (sd_must_change x) = [c]" "c = 48 \<or> c = 49"
    "show_int (sd_deleted x) = [d]" "d = 48 \<or> d = 49"
    using assms show_flag [of "sd_must_change x"] show_flag [of "sd_deleted x"]
    by (auto simp: seed_ok_def)
  then have n: "c \<noteq> newline" "d \<noteq> newline" "c \<noteq> 0" "d \<noteq> 0" by auto
  show ?thesis
    using assms n by (simp add: seed_line_def f(1,3) seed_ok_def plain_def AUTH_LINE_MAX_def)
qed

lemma seed_line_tokens:
  assumes "seed_ok x"
  shows "strtok_n 4 [colon] (seed_line x) =
    Some ([sd_name x, sd_password x, show_int (sd_must_change x), show_int (sd_deleted x)], [])"
proof -
  have n: "sd_name x \<noteq> []" "set (sd_name x) \<inter> set [colon] = {}"
    and p: "sd_password x \<noteq> []" "set (sd_password x) \<inter> set [colon] = {}"
    using assms by (auto simp: seed_ok_def plain_def)
  have m: "show_int (sd_must_change x) \<noteq> []" "set (show_int (sd_must_change x)) \<inter> set [colon] = {}"
    and d: "show_int (sd_deleted x) \<noteq> []" "set (show_int (sd_deleted x)) \<inter> set [colon] = {}"
    using assms show_flag [of "sd_must_change x"] show_flag [of "sd_deleted x"]
    by (auto simp: seed_ok_def)
  have four: "(4::nat) = Suc (Suc (Suc (Suc 0)))" by simp
  have c: "colon \<in> set [colon]" by simp
  show ?thesis
    unfolding seed_line_def four
    by (simp add: strtok_first(1) [OF n c] strtok_first(1) [OF p c] strtok_first(1) [OF m c] strtok_first(2) [OF d c])
qed

text \<open>The account a seed line becomes, for a salt.\<close>

definition seeded :: "'p platform_scheme \<Rightarrow> seed_user \<Rightarrow> bytes \<Rightarrow> auth_user" where
  "seeded P x salt = \<lparr>u_username = sd_name x, u_must_change = sd_must_change x, u_deleted = sd_deleted x,
     u_salt = salt, u_hash = pbkdf2 P (sd_password x) salt AUTH_PBKDF2_ITERS AUTH_HASH_LEN\<rparr>"

lemma seeded_ok:
  "pbkdf2_spec P \<Longrightarrow> seed_ok x \<Longrightarrow> length salt = AUTH_SALT_LEN \<Longrightarrow> user_ok (seeded P x salt)"
  by (auto simp: user_ok_def seeded_def seed_ok_def plain_def pbkdf2_spec_def)

lemma seed_lines_skip: "auth_seed_lines P db (filter (\<lambda>l. l \<noteq> []) ls) = auth_seed_lines P db ls"
proof (induction ls)
  case (Cons l ls)
  then show ?case by (cases "l = []") (simp_all only: filter.simps if_True if_False not_True_eq_False auth_seed_lines.simps simp_thms)
qed simp

lemma seed_lines_calm:
  assumes "calm s" and P: "pbkdf2_spec P" and "\<forall>x \<in> set xs. seed_ok x" and "file_at s db = Some c"
  shows "\<exists>salts t. auth_seed_lines P db (map seed_line xs) s = (Inr (), t) \<and> calm t \<and>
    file_at t db = Some (c @ db_text (map2 (seeded P) xs salts)) \<and> (\<forall>q. q \<noteq> db \<longrightarrow> file_at t q = file_at s q) \<and>
    w_dirs t = w_dirs s \<and> length salts = length xs \<and> (\<forall>salt \<in> set salts. length salt = AUTH_SALT_LEN)"
  using assms
proof (induction xs arbitrary: s c)
  case Nil
  then show ?case by (intro exI [of _ "[]"]) (simp add: io_def db_text_def)
next
  case (Cons x xs)
  have x: "seed_ok x" using Cons.prems(3) by simp
  define salt where "salt = map (w_tape s) [w_rpos s ..< w_rpos s + AUTH_SALT_LEN]"
  have sl: "length salt = AUTH_SALT_LEN" by (simp add: salt_def)
  let ?u = "seeded P x salt"
  have hl: "length (u_hash ?u) = AUTH_HASH_LEN" using P by (simp add: seeded_def pbkdf2_spec_def)
  let ?t = "s\<lparr>w_rpos := w_rpos s + AUTH_SALT_LEN, w_tick := Suc (Suc (Suc (w_tick s)))\<rparr>"
  let ?s1 = "set_file db (c @ user_line ?u @ [newline]) ?t"
  have flags: "auth_parse_bool (show_int (sd_must_change x)) = Some (sd_must_change x)"
    "auth_parse_bool (show_int (sd_deleted x)) = Some (sd_deleted x)"
    using x by (auto simp: seed_ok_def intro!: parse_flag)
  have name: "sd_name x \<noteq> []" "colon \<notin> set (sd_name x)" "cstr (sd_password x) = sd_password x"
    using x by (auto simp: seed_ok_def plain_def intro: cstr_id)
  have pl: "auth_print_user (sd_name x) (sd_must_change x) (sd_deleted x) (hex_pairs salt)
      (hex_pairs (pbkdf2 P (sd_password x) salt AUTH_PBKDF2_ITERS AUTH_HASH_LEN)) = user_line ?u @ [newline]"
    using print_user_line [of ?u] by (simp add: seeded_def)
  have ne: "seed_line x \<noteq> []" using seed_line_chars [OF x] by blast
  have hx: "length (pbkdf2 P (sd_password x) salt AUTH_PBKDF2_ITERS AUTH_HASH_LEN) = AUTH_HASH_LEN"
    using P by (simp add: pbkdf2_spec_def)
  have step: "auth_seed_lines P db (map seed_line (x # xs)) s = auth_seed_lines P db (map seed_line xs) ?s1"
    using Cons.prems(1,4) ne flags name sl hx
    by (simp add: seed_line_tokens [OF x] rand_bytes_calm auth_pbkdf2_def auth_hex_encode_def pl file_write_def
        calm_def io_def Let_def flip: salt_def)
  have "file_at ?s1 db = Some (c @ user_line ?u @ [newline])" "calm ?s1" using Cons.prems(1) by simp_all
  from Cons.IH [OF this(2) P _ this(1)] Cons.prems(3) obtain salts t where
    t: "auth_seed_lines P db (map seed_line xs) ?s1 = (Inr (), t)" "calm t"
      "file_at t db = Some ((c @ user_line ?u @ [newline]) @ db_text (map2 (seeded P) xs salts))"
      "\<forall>q. q \<noteq> db \<longrightarrow> file_at t q = file_at ?s1 q" "w_dirs t = w_dirs ?s1" "length salts = length xs"
      "\<forall>salt \<in> set salts. length salt = AUTH_SALT_LEN" by auto
  have "w_dirs ?s1 = w_dirs s" by (simp add: set_file_def)
  with t sl show ?case
    unfolding step by (intro exI [of _ "salt # salts"] exI [of _ t]) (simp add: db_text_def)
qed

definition SEED_CONSUMED :: bytes where "SEED_CONSUMED = ascii ''server/res/users.seed.consumed''"

lemma consumed_path:
  "calm s \<Longrightarrow> auth_make_seed_path SERVER_DB (ascii ''.seed.consumed'') s = (Inr SEED_CONSUMED, s\<lparr>w_tick := Suc (w_tick s)\<rparr>)"
  by (simp add: auth_make_seed_path_def io_def strrchr_def SERVER_DB_def SEED_CONSUMED_def ascii_def)

lemma start_paths: "SERVER_DB \<noteq> SERVER_SEED" "SERVER_DB \<noteq> SEED_CONSUMED" "SERVER_SEED \<noteq> SEED_CONSUMED"
  "SERVER_SEED \<noteq> SERVER_DB" "SEED_CONSUMED \<noteq> SERVER_DB" "SEED_CONSUMED \<noteq> SERVER_SEED"
  by (simp_all add: SERVER_DB_def SERVER_SEED_def SEED_CONSUMED_def ascii_def)

lemma bootstrap_imports:
  assumes "calm s" and "pbkdf2_spec P" and "\<forall>x \<in> set xs. seed_ok x" and "\<not> path_exists s SERVER_DB"
    and "file_at s SERVER_SEED = Some (seed_text xs)"
  shows "\<exists>salts t. auth_bootstrap_from_seed_if_needed P (Some SERVER_DB) (Some SERVER_SEED) s = (Inr (), t) \<and> calm t \<and>
    file_at t SERVER_DB = Some (db_text (map2 (seeded P) xs salts)) \<and>
    file_at t SERVER_SEED = None \<and> file_at t SEED_CONSUMED = Some (seed_text xs) \<and>
    length salts = length xs \<and> (\<forall>salt \<in> set salts. length salt = AUTH_SALT_LEN)"
proof -
  let ?ls = "read_lines (AUTH_LINE_MAX - 2) (seed_text xs)"
  have "\<forall>l \<in> set (map seed_line xs). newline \<notin> set l \<and> 0 \<notin> set l \<and> l \<noteq> [] \<and> length l \<le> Suc (AUTH_LINE_MAX - 2)"
    using assms(3) seed_line_chars by simp
  from read_lines_concat [OF this] have "filter (\<lambda>l. l \<noteq> []) ?ls = map seed_line xs"
    by (simp add: seed_text_def comp_def)
  then have lines: "auth_seed_lines P SERVER_DB ?ls = auth_seed_lines P SERVER_DB (map seed_line xs)"
    using seed_lines_skip by metis
  let ?s2 = "set_file SERVER_DB [] (s\<lparr>w_tick := Suc (Suc (Suc (w_tick s)))\<rparr>)"
  have "calm ?s2" "file_at ?s2 SERVER_DB = Some []" using assms(1) by simp_all
  from seed_lines_calm [OF this(1) assms(2,3) this(2)] obtain salts t where
    t: "auth_seed_lines P SERVER_DB (map seed_line xs) ?s2 = (Inr (), t)" "calm t"
      "file_at t SERVER_DB = Some (db_text (map2 (seeded P) xs salts))"
      "\<forall>q. q \<noteq> SERVER_DB \<longrightarrow> file_at t q = file_at ?s2 q"
      "length salts = length xs" "\<forall>salt \<in> set salts. length salt = AUTH_SALT_LEN" by auto
  have seed: "file_at t SERVER_SEED = Some (seed_text xs)" using t(4) start_paths assms(5) by simp
  have "path_exists s SERVER_SEED" "SERVER_DB \<notin> set (w_dirs s)" using assms(4,5) by (auto simp: path_exists_def)
  moreover have "\<not> w_fault s n" "\<not> w_fault t n" for n using assms(1) t(2) by (simp_all add: calm_def)
  ultimately show ?thesis
    using assms(1,4,5) t seed start_paths
    by (intro exI [of _ salts])
       (simp add: auth_bootstrap_from_seed_if_needed_def consumed_path path_exists_tick open_read_def open_write_def
         file_close_def rename_def lines io_def Let_def)
qed

section \<open>Properties\<close>

text \<open>C15: The first start imports the seed.  In a working environment without a database, the
  initialisation of the server succeeds on every well-formed seed file: its accounts are in memory
  in the order of the seed and with its flags, every one of them can log in with its plain
  password, the database holds them as the server prints them, and the seed file with the plain
  passwords has been renamed, so that it is not imported again.\<close>

theorem first_start_imports_seed:
  assumes "calm s" and "pbkdf2_spec P" and "\<forall>x \<in> set xs. seed_ok x" and "distinct (map sd_name xs)"
    and "length xs < 2 ^ 62" and "\<not> path_exists s SERVER_DB" and "file_at s SERVER_SEED = Some (seed_text xs)"
  shows "\<exists>t. server_init_db P s = (Inr (), t) \<and>
    map (\<lambda>u. (u_username u, u_must_change u, u_deleted u)) (g_users t) =
      map (\<lambda>x. (sd_name x, sd_must_change x, sd_deleted x)) xs \<and>
    (\<forall>x \<in> set xs. \<exists>w. auth_verify_password P (sd_name x) (sd_password x) t =
       (Inr (sd_must_change x, sd_deleted x), w)) \<and>
    file_at t SERVER_DB = Some (db_text (g_users t)) \<and> file_at t SERVER_SEED = None \<and>
    file_at t SEED_CONSUMED = Some (seed_text xs)"
proof -
  obtain salts u where b: "auth_bootstrap_from_seed_if_needed P (Some SERVER_DB) (Some SERVER_SEED) s = (Inr (), u)"
    and u: "calm u" "file_at u SERVER_DB = Some (db_text (map2 (seeded P) xs salts))"
      "file_at u SERVER_SEED = None" "file_at u SEED_CONSUMED = Some (seed_text xs)"
    and salts: "length salts = length xs" "\<forall>salt \<in> set salts. length salt = AUTH_SALT_LEN"
    using bootstrap_imports [OF assms(1,2,3,6,7)] by blast
  let ?us = "map2 (seeded P) xs salts"
  have ok: "\<forall>v \<in> set ?us. user_ok v"
  proof
    fix v assume "v \<in> set ?us"
    then obtain x salt where z: "(x, salt) \<in> set (zip xs salts)" "v = seeded P x salt" by auto
    from set_zip_leftD [OF z(1)] set_zip_rightD [OF z(1)] show "user_ok v"
      using seeded_ok [OF assms(2)] assms(3) salts(2) z(2) by blast
  qed
  have names: "map (\<lambda>v. (u_username v, u_must_change v, u_deleted v)) ?us =
      map (\<lambda>x. (sd_name x, sd_must_change x, sd_deleted x)) xs"
    using salts(1) by (intro nth_equalityI) (auto simp: seeded_def)
  have "map u_username ?us = map sd_name xs"
    using salts(1) by (intro nth_equalityI) (auto simp: seeded_def)
  with assms(4) have d: "distinct (map u_username ?us)" by simp
  have "length ?us < 2 ^ 62" using assms(5) by simp
  from auth_load_db_text [OF u(1,2) ok d this] obtain t where
    l: "auth_load_db P (Some SERVER_DB) u = (Inr (), t)" "g_users t = ?us" "w_files t = w_files u" by blast
  have c: "calm t" using withinD [OF load_oracle.within_load_db l(1)] u(1) by (simp add: calm_def)
  have "\<exists>w. auth_verify_password P (sd_name x) (sd_password x) t = (Inr (sd_must_change x, sd_deleted x), w)"
    if x: "x \<in> set xs" for x
  proof -
    obtain i where i: "i < length xs" "xs ! i = x" using x by (metis in_set_conv_nth)
    with salts(1) have v: "?us ! i = seeded P x (salts ! i)" "i < length ?us" by simp_all
    have "auth_find_user ?us (sd_name x) = Some i"
      using auth_find_user_distinct [OF d v(2)] v(1) by (simp add: seeded_def)
    moreover have "cstr (sd_password x) = sd_password x" using assms(3) x by (auto simp: seed_ok_def plain_def intro: cstr_id)
    ultimately show ?thesis
      using c v(1) by (simp add: auth_verify_password_calm l(2) seeded_def)
  qed
  moreover have "file_at t q = file_at u q" for q using l(3) by (simp add: file_at_def)
  ultimately show ?thesis
    using b l u names by (simp add: server_init_db_def io_def)
qed

definition sample_seed :: seed_user where
  "sample_seed = \<lparr>sd_name = ascii ''eve'', sd_password = ascii ''x'', sd_must_change = 1, sd_deleted = 0\<rparr>"

theorem first_start_imports_seed_witness:
  "\<exists>t w. server_init_db sample_platform (sample_server [(SERVER_SEED, seed_text [sample_seed])] [] session_clear) = (Inr (), t) \<and>
     auth_verify_password sample_platform (ascii ''eve'') (ascii ''x'') t = (Inr (1, 0), w) \<and>
     file_at t SERVER_SEED = None"
proof -
  let ?s = "sample_server [(SERVER_SEED, seed_text [sample_seed])] [] session_clear"
  have "\<forall>x \<in> set [sample_seed]. seed_ok x"
    by (simp add: sample_seed_def seed_ok_def plain_def ascii_def AUTH_LINE_MAX_def)
  moreover have "distinct (map sd_name [sample_seed])" "length [sample_seed] < 2 ^ 62" by simp_all
  moreover have "\<not> path_exists ?s SERVER_DB" "file_at ?s SERVER_SEED = Some (seed_text [sample_seed])"
    using start_paths by (simp_all add: path_exists_def)
  ultimately show ?thesis
    using first_start_imports_seed [OF sample_server_simps(1) sample_pbkdf2_spec, of "[sample_seed]"]
    by (fastforce simp: sample_seed_def)
qed

end
