(* ===== verification/Provision.thy ===== *)
theory Provision
  imports AuthOps
begin

text \<open>
  \<^verbatim>\<open>tools/account_provision.c\<close>: the offline tool that registers an account, or registers a
  deleted one again, by rewriting the database.  It has its own copy of the record, the parser
  and the writer; the copies are shown to agree with those of the server.
\<close>

definition AP_DB_PATH :: bytes where "AP_DB_PATH = ascii ''server/res/users.db''"
definition AP_LINE_MAX :: nat where "AP_LINE_MAX = 1024"

type_synonym ap_user = auth_user

definition ap_parse_bool :: "bytes \<Rightarrow> int option" where
  "ap_parse_bool s =
     (case strtol s of (v, e, erange) \<Rightarrow>
        if erange \<or> s = [] \<or> e \<noteq> [] then None
        else if v \<noteq> 0 \<and> v \<noteq> 1 then None
        else Some v)"

definition ap_pbkdf2 ::
  "'p platform_scheme \<Rightarrow> bytes \<Rightarrow> bytes \<Rightarrow> ('r env_scheme, unit, bytes) io" where
  "ap_pbkdf2 P password salt = then_io (lib_call ())
     (ret (pbkdf2 P (cstr password) salt AUTH_PBKDF2_ITERS AUTH_HASH_LEN))"

definition ap_parse_line :: "bytes \<Rightarrow> ('r env_scheme, unit, ap_user) io" where
  "ap_parse_line line =
     (case strtok_n 5 [colon] line of
        None \<Rightarrow> raise ()
      | Some (flds, r) \<Rightarrow>
          if strtok [colon] r \<noteq> None then raise ()
          else if flds ! 0 = [] \<or> colon \<in> set (flds ! 0) then raise ()
          else then_io (lib_call ())
            (case (ap_parse_bool (flds ! 1), ap_parse_bool (flds ! 2),
                   auth_hex_decode (flds ! 3) AUTH_SALT_LEN,
                   auth_hex_decode (flds ! 4) AUTH_HASH_LEN) of
               (Some must_change, Some deleted, Some salt, Some hash) \<Rightarrow>
                 ret \<lparr>u_username = flds ! 0, u_must_change = must_change, u_deleted = deleted,
                      u_salt = salt, u_hash = hash\<rparr>
             | _ \<Rightarrow> raise ()))"

text \<open>The users read so far and the capacity of the array they are in.\<close>

fun ap_load_lines ::
  "bytes list \<Rightarrow> ap_user list \<Rightarrow> nat \<Rightarrow> ('r env_scheme, unit, ap_user list) io" where
  "ap_load_lines [] users cap = ret users"
| "ap_load_lines (line # ls) users cap =
     (if line = [] then ap_load_lines ls users cap
      else bind_io (ap_parse_line line) (\<lambda>user.
        bind_io
          (if length users = cap
           then let new_cap = (if cap = 0 then 8 else (cap * 2) mod 2 ^ 64) in
             if new_cap < cap then raise () else then_io (lib_call ()) (ret new_cap)
           else ret cap)
          (\<lambda>cap'. ap_load_lines ls (users @ [user]) cap')))"

definition ap_load_db :: "('r env_scheme, unit, ap_user list) io" where
  "ap_load_db = bind_io (open_read () AP_DB_PATH) (\<lambda>content.
     bind_io (ap_load_lines (read_lines (AP_LINE_MAX - 2) content) [] 0) (\<lambda>users.
     then_io (lib_calls 2 ()) (ret users)))"

text \<open>
  \<open>mkstemp\<close> fills in the last six characters of the template so that the file is new, and
  creates it; \<open>fdopen\<close> can fail after that.
\<close>

definition mkstemp :: "bytes \<Rightarrow> ('r env_scheme, unit, bytes) io" where
  "mkstemp stem = bind_io (rand_bytes () 6) (\<lambda>x.
     bind_io (get_io (\<lambda>s. path_exists s (stem @ x))) (\<lambda>there.
     if there then raise ()
     else then_io (put_io (set_file (stem @ x) [])) (ret (stem @ x))))"

fun ap_write_users :: "bytes \<Rightarrow> ap_user list \<Rightarrow> ('r env_scheme, unit, unit) io" where
  "ap_write_users tmp [] = ret ()"
| "ap_write_users tmp (u # us) =
     bind_io (from_option () (auth_hex_encode (u_salt u) (AUTH_SALT_LEN * 2 + 1))) (\<lambda>salt_hex.
     bind_io (from_option () (auth_hex_encode (u_hash u) (AUTH_HASH_LEN * 2 + 1))) (\<lambda>hash_hex.
     then_io (file_write () tmp
       (u_username u @ [colon] @ show_int (u_must_change u) @ [colon] @
        show_int (u_deleted u) @ [colon] @ salt_hex @ [colon] @ hash_hex @ [newline]))
     (ap_write_users tmp us)))"

definition ap_write_db_atomic :: "ap_user list \<Rightarrow> ('r env_scheme, unit, unit) io" where
  "ap_write_db_atomic users =
     bind_io (mkstemp (ascii ''server/res/users.db.tmp'')) (\<lambda>template_path.
     then_io (on_error (lib_call ()) (unlink () template_path))
     (then_io
       (on_error (then_io (ap_write_users template_path users) (lib_calls 2 ()))
         (then_io (try_io (file_close () template_path)) (unlink () template_path)))
     (then_io (on_error (file_close () template_path) (unlink () template_path))
       (on_error (rename () template_path AP_DB_PATH) (unlink () template_path)))))"

text \<open>The users, whether the name was found, and whether its account is active.\<close>

definition ap_update_record ::
  "'p platform_scheme \<Rightarrow> ap_user list \<Rightarrow> bytes \<Rightarrow> bytes \<Rightarrow>
   ('r env_scheme, unit, ap_user list \<times> bool \<times> bool) io" where
  "ap_update_record P users username new_password =
     (if users = [] then raise ()
      else case auth_find_user users username of
        None \<Rightarrow> ret (users, False, False)
      | Some i \<Rightarrow>
          if u_deleted (users ! i) = 0 then ret (users, True, True)
          else bind_io (rand_bytes () AUTH_SALT_LEN) (\<lambda>salt.
            bind_io (ap_pbkdf2 P new_password salt) (\<lambda>hash.
            ret (users[i := (users ! i)\<lparr>u_salt := salt, u_hash := hash, u_must_change := 1,
                                       u_deleted := 0\<rparr>], True, False))))"

definition ap_append_user ::
  "'p platform_scheme \<Rightarrow> ap_user list \<Rightarrow> bytes \<Rightarrow> bytes \<Rightarrow> ('r env_scheme, unit, ap_user list) io" where
  "ap_append_user P users username new_password =
     then_io (lib_calls 2 ())
     (bind_io (rand_bytes () AUTH_SALT_LEN) (\<lambda>salt.
      bind_io (ap_pbkdf2 P new_password salt) (\<lambda>hash.
      ret (users @ [\<lparr>u_username = username, u_must_change = 1, u_deleted = 0, u_salt = salt,
                     u_hash = hash\<rparr>]))))"

text \<open>\<open>main\<close>: the exit code is 0 for a completed run (\<open>Inr\<close>) and 1 for every refusal (\<open>Inl\<close>).\<close>

definition ap_register ::
  "'p platform_scheme \<Rightarrow> bytes \<Rightarrow> bytes \<Rightarrow> ('r env_scheme, unit, unit) io" where
  "ap_register P username new_password =
     (if username = [] \<or> colon \<in> set username then raise ()
      else bind_io ap_load_db (\<lambda>users.
      bind_io (ap_update_record P users username new_password) (\<lambda>(users, was_found, was_active).
      if was_active then raise ()
      else bind_io (if \<not> was_found then ap_append_user P users username new_password else ret users)
        (\<lambda>users. ap_write_db_atomic users))))"

definition ap_main ::
  "'p platform_scheme \<Rightarrow> bytes list \<Rightarrow> 'r env_scheme \<Rightarrow> int \<times> 'r env_scheme" where
  "ap_main P argv s =
     (if length argv \<noteq> 4 \<or> argv ! 1 \<noteq> ascii ''register'' then (1, s)
      else case ap_register P (argv ! 2) (argv ! 3) s of
        (Inl _, t) \<Rightarrow> (1, t) | (Inr _, t) \<Rightarrow> (0, t))"

section \<open>The copies agree\<close>

lemma ap_parse_bool_eq: "ap_parse_bool = auth_parse_bool"
  by (rule ext) (simp only: ap_parse_bool_def auth_parse_bool_def)

lemma ap_parse_line_eq: "ap_parse_line = auth_parse_db_line"
  by (rule ext) (simp only: ap_parse_line_def auth_parse_db_line_def ap_parse_bool_eq)

lemma ap_pbkdf2_eq: "ap_pbkdf2 = auth_pbkdf2"
  by (intro ext) (simp add: ap_pbkdf2_def auth_pbkdf2_def)

lemma ap_write_users_eq: "ap_write_users tmp us = auth_write_users tmp us"
  by (induction us) (simp_all add: auth_print_user_def)

end
