(* ===== verification/ProvisionProps.thy ===== *)
theory ProvisionProps
  imports Provision ServerProps
begin

text \<open>
  The properties of the provisioning tool: what a registration leaves in the database, exactly
  when it succeeds, and that the server then accepts the new password.
\<close>

section \<open>Loading\<close>

lemma ap_load_skip: "ap_load_lines (filter (\<lambda>l. l \<noteq> []) ls) = ap_load_lines ls"
  by (induction ls) (auto intro!: ext cong: if_cong)

lemma ap_load_lines_ok:
  assumes "ap_load_lines ls us cap s = (Inr us', t)" and "\<forall>u \<in> set us. user_ok u"
    and "\<forall>l \<in> set ls. newline \<notin> set l \<and> 0 \<notin> set l \<and> length l < AUTH_LINE_MAX"
  shows "\<forall>u \<in> set us'. user_ok u"
  using assms
proof (induction ls us cap arbitrary: s rule: ap_load_lines.induct)
  case (1 us cap)
  then show ?case by (simp add: io_inv)
next
  case (2 l ls us cap)
  show ?case
  proof (cases "l = []")
    case True
    with 2 show ?thesis by simp
  next
    case False
    with 2(3) obtain u s1 cap' s2 where u: "auth_parse_db_line l s = (Inr u, s1)"
      and l: "ap_load_lines ls (us @ [u]) cap' s2 = (Inr us', t)"
      by (auto simp: ap_parse_line_eq io_inv)
    have "user_ok u" using parse_db_line_ok [OF u] 2(5) by simp
    with 2(2) [OF False l] 2(4,5) show ?thesis by simp
  qed
qed

lemma parse_user_line_Inr:
  assumes "user_ok u" and "auth_parse_db_line (user_line u) s = (Inr x, t)"
  shows "x = u"
proof -
  have "auth_hex_decode (hex_pairs (u_salt u)) AUTH_SALT_LEN = Some (u_salt u)"
    "auth_hex_decode (hex_pairs (u_hash u)) AUTH_HASH_LEN = Some (u_hash u)"
    using assms(1) by (auto simp: user_ok_def auth_hex_decode_def)
  moreover have "auth_parse_bool (show_int (u_must_change u)) = Some (u_must_change u)"
    "auth_parse_bool (show_int (u_deleted u)) = Some (u_deleted u)"
    using assms(1) by (auto simp: user_ok_def intro: parse_flag)
  ultimately show ?thesis
    using assms by (auto simp: auth_parse_db_line_def user_line_tokens [OF assms(1)] io_inv split: if_splits)
qed

lemma ap_load_lines_text:
  assumes "ap_load_lines (map user_line vs) us cap s = (Inr us', t)" and "\<forall>u \<in> set vs. user_ok u"
  shows "us' = us @ vs"
  using assms
proof (induction vs arbitrary: us cap s)
  case Nil
  then show ?case by (simp add: io_inv)
next
  case (Cons v vs)
  have "user_line v \<noteq> []" using user_line_chars(3) Cons.prems(2) by simp
  with Cons.prems(1) obtain u s1 cap' s2 where u: "auth_parse_db_line (user_line v) s = (Inr u, s1)"
    and l: "ap_load_lines (map user_line vs) (us @ [u]) cap' s2 = (Inr us', t)"
    by (auto simp: ap_parse_line_eq io_inv)
  have "u = v" using parse_user_line_Inr [OF _ u] Cons.prems(2) by simp
  with Cons.IH [OF l] Cons.prems(2) show ?case by simp
qed

lemma open_read_Inr: "open_read e p s = (Inr c, t) \<Longrightarrow> file_at s p = Some c"
  by (auto simp: open_read_def lib_call_def io_def split: if_splits option.splits)

lemma ap_load_db_Inr:
  assumes "ap_load_db s = (Inr us, t)"
  shows "\<forall>u \<in> set us. user_ok u"
    and "file_at s AP_DB_PATH = Some (db_text vs) \<Longrightarrow> \<forall>u \<in> set vs. user_ok u \<Longrightarrow> us = vs"
proof -
  from assms obtain c u v where c: "open_read () AP_DB_PATH s = (Inr c, u)"
    and l: "ap_load_lines (read_lines (AP_LINE_MAX - 2) c) [] 0 u = (Inr us, v)"
    by (auto simp: ap_load_db_def io_inv)
  have m: "AP_LINE_MAX - 2 = AUTH_LINE_MAX - 2" by (simp add: AP_LINE_MAX_def AUTH_LINE_MAX_def)
  have "newline \<notin> set x \<and> 0 \<notin> set x \<and> length x < AUTH_LINE_MAX"
    if "x \<in> set (read_lines (AUTH_LINE_MAX - 2) c)" for x
    using read_lines_chars [OF that] by (auto simp: AUTH_LINE_MAX_def)
  with ap_load_lines_ok [OF l [unfolded m]] show "\<forall>u \<in> set us. user_ok u" by simp
  show "us = vs" if "file_at s AP_DB_PATH = Some (db_text vs)" "\<forall>u \<in> set vs. user_ok u"
  proof -
    have "c = db_text vs" using open_read_Inr [OF c] that(1) by simp
    then have "ap_load_lines (map user_line vs) [] 0 u = (Inr us, v)"
      using l ap_load_skip [THEN fun_cong, THEN fun_cong, THEN fun_cong, of "read_lines (AUTH_LINE_MAX - 2) c" "[]" 0 u]
      by (simp only: m read_db_text [OF that(2)])
    from ap_load_lines_text [OF this that(2)] show ?thesis by simp
  qed
qed

section \<open>Writing\<close>

lemma mkstemp_Inr:
  assumes "mkstemp stem s = (Inr p, t)"
  shows "\<exists>x k q. p = stem @ x \<and> length x = 6 \<and> t = set_file p [] (s\<lparr>w_tick := k, w_rpos := q\<rparr>)"
proof -
  from assms obtain x u where x: "rand_bytes () 6 s = (Inr x, u)" and t: "t = set_file p [] u" "p = stem @ x"
    by (auto simp: mkstemp_def io_inv split: if_splits)
  from rand_bytes_run [OF x] rand_bytes_length [OF x] t show ?thesis by blast
qed

lemma mkstemp_Inl: "mkstemp stem s = (Inl e, t) \<Longrightarrow> file_at t q = file_at s q"
  by (auto simp: mkstemp_def io_inv dest!: rand_bytes_run split: if_splits)

lemma stem_not_db: "ascii ''server/res/users.db.tmp'' @ x \<noteq> AP_DB_PATH"
  by (simp add: AP_DB_PATH_def ascii_def)

lemma ap_write_Inl:
  assumes "ap_write_db_atomic us s = (Inl e, t)"
  shows "file_at t AP_DB_PATH = file_at s AP_DB_PATH"
proof (cases "fst (mkstemp (ascii ''server/res/users.db.tmp'') s :: (unit + bytes) \<times> _)")
  case (Inl e')
  with assms mkstemp_Inl show ?thesis
    by (auto simp: ap_write_db_atomic_def io_inv split: prod.splits)
next
  case (Inr p)
  then obtain s1 where p: "mkstemp (ascii ''server/res/users.db.tmp'') s = (Inr p, s1)"
    by (metis prod.collapse)
  from mkstemp_Inr [OF p] have n: "p \<noteq> AP_DB_PATH" and s1: "file_at s1 AP_DB_PATH = file_at s AP_DB_PATH"
    using stem_not_db by (auto simp: eq_commute [of AP_DB_PATH])
  let ?keep = "\<lambda>s. file_at s AP_DB_PATH"
  have prim: "preserves ?keep (unlink () p)" "preserves ?keep (file_close () p)"
    "preserves ?keep (lib_calls m f)" "preserves ?keep (lib_call f)" "preserves ?keep (ap_write_users p us)" for m f
    using n write_users_other [OF n] by (auto intro!: prims simp: ap_write_users_eq)
  have 1: "preserves ?keep (on_error (lib_call ()) (unlink () p))"
    and 2: "preserves ?keep (on_error (then_io (ap_write_users p us) (lib_calls 2 ()))
         (then_io (try_io (file_close () p)) (unlink () p)))"
    and 3: "preserves ?keep (on_error (file_close () p) (unlink () p))"
    by (intro same_file_intros prim)+
  have ren: "on_error (rename () p AP_DB_PATH) (unlink () p) u = (Inl f, v) \<Longrightarrow> ?keep v = ?keep u" for f u v
    by (auto simp: io_inv preserves_snd [OF prim(1)] dest!: rename_Inl)
  from assms p show ?thesis
    unfolding ap_write_db_atomic_def
    by (auto simp: bind_io_Inl p then_io_Inl s1 dest!: preservesD [OF 1] preservesD [OF 2] preservesD [OF 3] ren)
qed

lemma ap_write_Inr:
  assumes "ap_write_db_atomic us s = (Inr x, t)"
    and "\<forall>u \<in> set us. length (u_salt u) = AUTH_SALT_LEN \<and> length (u_hash u) = AUTH_HASH_LEN"
  shows "file_at t AP_DB_PATH = Some (db_text us)"
proof -
  from assms(1) obtain p s1 s2 s3 s4 s5 where p: "mkstemp (ascii ''server/res/users.db.tmp'') s = (Inr p, s1)"
    and s2: "lib_call () s1 = (Inr (), s2)" and s3: "ap_write_users p us s2 = (Inr (), s3)"
    and s4: "lib_calls 2 () s3 = (Inr (), s4)" and s5: "file_close () p s4 = (Inr (), s5)"
    and ren: "rename () p AP_DB_PATH s5 = (Inr x, t)"
    by (auto simp: ap_write_db_atomic_def io_inv simp del: lib_calls.simps)
  have "file_at s2 p = Some []" using mkstemp_Inr [OF p] lib_call_run [OF s2] by auto
  from write_users_contents [OF s3 [unfolded ap_write_users_eq] assms(2) this]
  have "file_at s5 p = Some (db_text us)" using lib_calls_run [OF s4] file_close_Inr [OF s5] by auto
  with rename_Inr [OF ren] show ?thesis by auto
qed

section \<open>Registering\<close>

text \<open>The accounts after a registration with a given salt and hash.\<close>

definition registered :: "auth_user list \<Rightarrow> bytes \<Rightarrow> bytes \<Rightarrow> bytes \<Rightarrow> auth_user list" where
  "registered us name salt hash = (case auth_find_user us name of
     None \<Rightarrow> us @ [\<lparr>u_username = name, u_must_change = 1, u_deleted = 0, u_salt = salt, u_hash = hash\<rparr>]
   | Some i \<Rightarrow> us[i := (us ! i)\<lparr>u_salt := salt, u_hash := hash, u_must_change := 1, u_deleted := 0\<rparr>])"

definition may_register :: "auth_user list \<Rightarrow> bytes \<Rightarrow> bool" where
  "may_register us name \<longleftrightarrow> us \<noteq> [] \<and>
     (case auth_find_user us name of None \<Rightarrow> True | Some i \<Rightarrow> u_deleted (us ! i) \<noteq> 0)"

lemma ap_pbkdf2_Inr: "ap_pbkdf2 P pw salt s = (Inr h, t) \<Longrightarrow> h = pbkdf2 P (cstr pw) salt AUTH_PBKDF2_ITERS AUTH_HASH_LEN"
  by (auto simp: ap_pbkdf2_def io_inv)

text \<open>Reading the database draws nothing from the random source, and writing it moves the source on.\<close>

definition source_at :: "'r env_scheme \<Rightarrow> (nat \<Rightarrow> byte) \<times> nat" where
  "source_at s = (w_tape s, w_rpos s)"

interpretation source: env_frame "\<lambda>s t. source_at s = source_at t"
  by unfold_locales (auto simp: source_at_def)

interpretation source_on: env_frame "\<lambda>s t. w_rpos s \<le> w_rpos t"
  by unfold_locales auto

lemma ap_load_source:
  assumes "ap_load_db s = (r, t)"
  shows "w_tape t = w_tape s" and "w_rpos t = w_rpos s"
proof -
  have l: "within (\<lambda>s t. source_at s = source_at t) (ap_parse_line x)" for x
    unfolding ap_parse_line_def
    by (intro frame_same.within_case_option frame_same.within_case_prod frame_same.within_if frame_same.within_raise
        frame_same.within_then source.within_lib_call frame_same.within_ret)
  have "within (\<lambda>s t. source_at s = source_at t) (ap_load_lines ls vs cap)" for ls vs cap
    by (induction ls vs cap rule: ap_load_lines.induct)
       (auto intro!: frame_same.within_bind l source.within_lib_call simp: Let_def)
  then have "within (\<lambda>s t. source_at s = source_at t) ap_load_db"
    unfolding ap_load_db_def
    by (intro frame_same.within_bind frame_same.within_then source.within_open_read source.within_lib_calls
        frame_same.within_ret)
  from withinD [OF this assms] show "w_tape t = w_tape s" and "w_rpos t = w_rpos s" by (simp_all add: source_at_def)
qed

lemma file_source [simp]:
  "w_rpos (set_file p c s) = w_rpos s" "w_rpos (del_file p s) = w_rpos s"
  by (simp_all add: set_file_def del_file_def)

lemma ap_write_source: "ap_write_db_atomic us s = (r, t) \<Longrightarrow> w_rpos s \<le> w_rpos t"
proof (erule withinD [rotated])
  have u: "within (\<lambda>s t. w_rpos s \<le> w_rpos t) (ap_write_users tmp us)" for tmp
    by (induction us) (auto intro!: source_on.within_bind source_on.within_then prims)
  have r: "within (\<lambda>s t. w_rpos s \<le> w_rpos t) (rand_bytes () n)" for n
    by (auto simp: within_def rand_bytes_def lib_call_def io_def)
  show "within (\<lambda>s t. w_rpos s \<le> w_rpos t) (ap_write_db_atomic us)"
    unfolding ap_write_db_atomic_def mkstemp_def
    by (intro source_on.within_bind source_on.within_then source_on.within_if source_on.within_raise
        source_on.within_ret source_on.within_get source_on.within_put source_on.within_on_error
        source_on.within_try source_on.within_lib_call source_on.within_lib_calls prims u r) simp_all
qed

lemma ap_pbkdf2_source: "ap_pbkdf2 P pw salt s = (r, t) \<Longrightarrow> w_rpos t = w_rpos s"
  by (cases r) (auto simp: ap_pbkdf2_def io_inv dest!: lib_call_run)

lemma ap_register_Inr:
  assumes "ap_register P name pw s = (Inr x, t)" and P: "pbkdf2_spec P"
  shows "\<exists>us v salt. name \<noteq> [] \<and> colon \<notin> set name \<and> ap_load_db s = (Inr us, v) \<and> may_register us name \<and>
    length salt = AUTH_SALT_LEN \<and> drawn s (w_rpos t) salt \<and> file_at t AP_DB_PATH =
      Some (db_text (registered us name salt (pbkdf2 P (cstr pw) salt AUTH_PBKDF2_ITERS AUTH_HASH_LEN)))"
proof -
  from assms(1) obtain us v us2 fnd w us3 w2 where
    n: "name \<noteq> []" "colon \<notin> set name" and l: "ap_load_db s = (Inr us, v)" and
    u: "ap_update_record P us name pw v = (Inr (us2, fnd, False), w)" and
    a: "(if \<not> fnd then ap_append_user P us2 name pw else ret us2) w = (Inr us3, w2)" and
    wr: "ap_write_db_atomic us3 w2 = (Inr x, t)"
    by (auto simp: ap_register_def io_inv split: if_splits prod.splits)
  have ok: "\<forall>u \<in> set us. user_ok u" using ap_load_db_Inr(1) [OF l] .
  have ne: "us \<noteq> []" using u by (auto simp: ap_update_record_def io_inv)
  let ?h = "\<lambda>salt. pbkdf2 P (cstr pw) salt AUTH_PBKDF2_ITERS AUTH_HASH_LEN"
  note v = ap_load_source [OF l]
  have "may_register us name \<and> (\<exists>salt. length salt = AUTH_SALT_LEN \<and> drawn v (w_rpos w2) salt \<and>
      us3 = registered us name salt (?h salt))"
  proof (cases "auth_find_user us name")
    case None
    then have "us2 = us" "\<not> fnd" "w = v" using u ne by (auto simp: ap_update_record_def io_inv)
    with a obtain salt v0 v2 h where v0: "lib_calls 2 () v = (Inr (), v0)"
      and s: "rand_bytes () AUTH_SALT_LEN v0 = (Inr salt, v2)"
      and h: "ap_pbkdf2 P pw salt v2 = (Inr h, w2)"
      and us3: "us3 = us @ [\<lparr>u_username = name, u_must_change = 1, u_deleted = 0, u_salt = salt, u_hash = h\<rparr>]"
      by (auto simp: ap_append_user_def io_inv simp del: lib_calls.simps)
    from rand_bytes_drawn [OF s] lib_calls_run [OF v0] ap_pbkdf2_source [OF h] have "drawn v (w_rpos w2) salt"
      by (auto simp: drawn_def)
    with rand_bytes_length [OF s] ap_pbkdf2_Inr [OF h] None ne us3 show ?thesis
      by (auto simp: registered_def may_register_def)
  next
    case (Some i)
    with u ne obtain salt v2 h v3 where del: "u_deleted (us ! i) \<noteq> 0" and
      s: "rand_bytes () AUTH_SALT_LEN v = (Inr salt, v2)" and h: "ap_pbkdf2 P pw salt v2 = (Inr h, v3)" and
      us2: "us2 = us[i := (us ! i)\<lparr>u_salt := salt, u_hash := h, u_must_change := 1, u_deleted := 0\<rparr>]" "fnd" "w = v3"
      by (auto simp: ap_update_record_def io_inv split: if_splits)
    have "us3 = us2" "w2 = v3" using a us2(2,3) by (simp_all add: io_inv)
    with rand_bytes_drawn [OF s] ap_pbkdf2_source [OF h] have "drawn v (w_rpos w2) salt" by (auto simp: drawn_def)
    with \<open>us3 = us2\<close> rand_bytes_length [OF s] ap_pbkdf2_Inr [OF h] Some ne del us2(1) show ?thesis
      by (auto simp: registered_def may_register_def)
  qed
  then obtain salt where r: "may_register us name" "length salt = AUTH_SALT_LEN" "us3 = registered us name salt (?h salt)"
    and d: "drawn v (w_rpos w2) salt" by blast
  have "drawn s (w_rpos t) salt" using drawn_cong [OF d v ap_write_source [OF wr]] .
  have "length (?h salt) = AUTH_HASH_LEN" using P by (simp add: pbkdf2_spec_def)
  then have "\<forall>u \<in> set us3. length (u_salt u) = AUTH_SALT_LEN \<and> length (u_hash u) = AUTH_HASH_LEN"
    using ok r(2,3) set_update_subset_insert [of us]
    by (fastforce simp: registered_def user_ok_def split: option.splits)
  from ap_write_Inr [OF wr this] n l r \<open>drawn s _ _\<close> show ?thesis by blast
qed

text \<open>Reading the database and drawing salts leave the files alone.\<close>

interpretation reading: env_frame "\<lambda>s t. file_at s q = file_at t q" for q
  by unfold_locales auto

lemma provisioning_reads:
  "within (\<lambda>s t. file_at s q = file_at t q) ap_load_db"
  "within (\<lambda>s t. file_at s q = file_at t q) (ap_update_record P us name pw)"
  "within (\<lambda>s t. file_at s q = file_at t q) (ap_append_user P us name pw)"
proof -
  have r: "within (\<lambda>s t. file_at s q = file_at t q) (rand_bytes () n)" for n
    by (intro rand_bytes_within) simp
  have p: "within (\<lambda>s t. file_at s q = file_at t q) (ap_pbkdf2 P pw salt)" for salt
    unfolding ap_pbkdf2_def by (intro frame_same.within_then reading.within_lib_call frame_same.within_ret)
  have l: "within (\<lambda>s t. file_at s q = file_at t q) (ap_parse_line x)" for x
    unfolding ap_parse_line_def
    by (intro frame_same.within_case_option frame_same.within_case_prod frame_same.within_if frame_same.within_raise
        frame_same.within_then reading.within_lib_call frame_same.within_ret)
  have "within (\<lambda>s t. file_at s q = file_at t q) (ap_load_lines ls vs cap)" for ls vs cap
    by (induction ls vs cap rule: ap_load_lines.induct)
       (auto intro!: frame_same.within_bind l reading.within_lib_call simp: Let_def)
  then show "within (\<lambda>s t. file_at s q = file_at t q) ap_load_db"
    unfolding ap_load_db_def
    by (intro frame_same.within_bind frame_same.within_then reading.within_open_read reading.within_lib_calls
        frame_same.within_ret)
  show "within (\<lambda>s t. file_at s q = file_at t q) (ap_update_record P us name pw)"
    unfolding ap_update_record_def
    by (intro frame_same.within_if frame_same.within_raise frame_same.within_case_option frame_same.within_bind
        frame_same.within_ret r p)
  show "within (\<lambda>s t. file_at s q = file_at t q) (ap_append_user P us name pw)"
    unfolding ap_append_user_def
    by (intro frame_same.within_then frame_same.within_bind frame_same.within_ret reading.within_lib_calls r p)
qed

lemma ap_register_Inl:
  assumes "ap_register P name pw s = (Inl e, t)"
  shows "file_at t AP_DB_PATH = file_at s AP_DB_PATH"
proof (cases "name = [] \<or> colon \<in> set name")
  case True
  with assms show ?thesis by (auto simp: ap_register_def io_inv)
next
  case False
  from assms False show ?thesis
    by (auto simp: ap_register_def io_inv split: if_splits prod.splits
        dest!: withinD [OF provisioning_reads(1) [where q = AP_DB_PATH]] withinD [OF provisioning_reads(2) [where q = AP_DB_PATH]]
          withinD [OF provisioning_reads(3) [where q = AP_DB_PATH]] ap_write_Inl)
qed

text \<open>In a working environment.\<close>

lemma ap_load_lines_calm:
  assumes "calm s" and "\<forall>u \<in> set vs. user_ok u" and "length us + length vs < 2 ^ 62"
    and "length us \<le> cap" and "cap \<le> max 8 (2 * length us)"
  shows "\<exists>k. ap_load_lines (map user_line vs) us cap s = (Inr (us @ vs), s\<lparr>w_tick := k\<rparr>)"
  using assms
proof (induction vs arbitrary: us cap s)
  case Nil
  then show ?case by (auto simp: ret_run intro: exI [of _ "w_tick s"])
next
  case (Cons v vs)
  let ?s1 = "s\<lparr>w_tick := Suc (w_tick s)\<rparr>"
  have p: "ap_parse_line (user_line v) s = (Inr v, ?s1)"
    using Cons.prems by (simp add: ap_parse_line_eq parse_user_line)
  have ne: "user_line v \<noteq> []" using user_line_chars(3) Cons.prems(2) by simp
  have small: "cap * 2 mod 18446744073709551616 = cap * 2" using Cons.prems(3,5) by simp
  define cap' where "cap' = (if length us = cap then (if cap = 0 then 8 else cap * 2) else cap)"
  have "\<exists>k. (if length us = cap
           then let new_cap = (if cap = 0 then 8 else (cap * 2) mod 2 ^ 64) in
             if new_cap < cap then raise () else then_io (lib_call ()) (ret new_cap)
           else ret cap) ?s1 = (Inr cap', s\<lparr>w_tick := k\<rparr>)"
    using Cons.prems(1) small by (cases "length us = cap"; cases "cap = 0") (auto simp: cap'_def io_def Let_def)
  then obtain k where "(if length us = cap
           then let new_cap = (if cap = 0 then 8 else (cap * 2) mod 2 ^ 64) in
             if new_cap < cap then raise () else then_io (lib_call ()) (ret new_cap)
           else ret cap) ?s1 = (Inr cap', s\<lparr>w_tick := k\<rparr>)" by blast
  with p ne have "ap_load_lines (map user_line (v # vs)) us cap s =
      ap_load_lines (map user_line vs) (us @ [v]) cap' (s\<lparr>w_tick := k\<rparr>)"
    by (simp add: io_def)
  moreover have "\<exists>k'. ap_load_lines (map user_line vs) (us @ [v]) cap' (s\<lparr>w_tick := k\<rparr>) =
      (Inr ((us @ [v]) @ vs), s\<lparr>w_tick := k\<rparr>\<lparr>w_tick := k'\<rparr>)"
    using Cons.prems by (intro Cons.IH) (auto simp: cap'_def)
  ultimately show ?case by simp
qed

lemma ap_load_db_calm:
  assumes "calm s" and "file_at s AP_DB_PATH = Some (db_text us)" and "\<forall>u \<in> set us. user_ok u" and "length us < 2 ^ 62"
  shows "\<exists>k. ap_load_db s = (Inr us, s\<lparr>w_tick := k\<rparr>)"
proof -
  let ?ls = "read_lines (AP_LINE_MAX - 2) (db_text us)"
  have o: "open_read () AP_DB_PATH s = (Inr (db_text us), s\<lparr>w_tick := Suc (w_tick s)\<rparr>)"
    using assms(1,2) by (simp add: open_read_def io_def)
  obtain k where "ap_load_lines (map user_line us) [] 0 (s\<lparr>w_tick := Suc (w_tick s)\<rparr>) = (Inr us, s\<lparr>w_tick := k\<rparr>)"
    using ap_load_lines_calm [of "s\<lparr>w_tick := Suc (w_tick s)\<rparr>" us "[]" 0] assms by auto
  moreover have "AP_LINE_MAX - 2 = AUTH_LINE_MAX - 2" by (simp add: AP_LINE_MAX_def AUTH_LINE_MAX_def)
  then have "ap_load_lines ?ls [] 0 v = ap_load_lines (map user_line us) [] 0 v" for v :: "'a env_scheme"
    using ap_load_skip [of ?ls, THEN fun_cong, THEN fun_cong, THEN fun_cong, of "[]" 0 v]
    by (simp only: read_db_text [OF assms(3)])
  ultimately show ?thesis
    using o assms(1) by (simp add: ap_load_db_def io_def del: lib_calls.simps)
qed

lemma ap_write_calm:
  assumes "calm s" and "\<forall>u \<in> set us. length (u_salt u) = AUTH_SALT_LEN \<and> length (u_hash u) = AUTH_HASH_LEN"
    and "\<And>x. \<not> path_exists s (ascii ''server/res/users.db.tmp'' @ x)"
  shows "\<exists>t. ap_write_db_atomic us s = (Inr (), t)"
proof -
  define x where "x = map (w_tape s) [w_rpos s ..< w_rpos s + 6]"
  define p where "p = ascii ''server/res/users.db.tmp'' @ x"
  let ?s1 = "s\<lparr>w_tick := Suc (w_tick s), w_rpos := w_rpos s + 6\<rparr>"
  have px: "path_exists ?s1 p = path_exists s p" by (simp add: path_exists_def)
  have m: "mkstemp (ascii ''server/res/users.db.tmp'') s = (Inr p, set_file p [] ?s1)"
    using assms(1) assms(3) [of x] px by (simp add: mkstemp_def rand_bytes_calm io_def p_def x_def)
  let ?s2 = "(set_file p [] ?s1)\<lparr>w_tick := Suc (w_tick (set_file p [] ?s1))\<rparr>"
  have c2: "calm ?s2" using assms(1) by simp
  obtain s3 where s3: "ap_write_users p us ?s2 = (Inr (), s3)" "calm s3"
    using auth_write_users_calm [OF c2 assms(2), of p] by (metis prod.collapse ap_write_users_eq)
  have f: "file_at s3 p = Some ([] @ db_text us)"
    by (rule write_users_contents [OF s3(1) [unfolded ap_write_users_eq] assms(2)]) simp
  have c: "file_close () p v = (Inr (), v\<lparr>w_tick := Suc (w_tick v)\<rparr>)" if "calm v" for v :: "'a env_scheme"
    using that by (simp add: file_close_def Let_def calm_def)
  have r: "\<exists>w. rename () p AP_DB_PATH v = (Inr (), w)"
    if "calm v" "file_at v p = Some d" for v :: "'a env_scheme" and d
    using that by (simp add: rename_def io_def)
  let ?s4 = "s3\<lparr>w_tick := Suc (w_tick s3 + 2)\<rparr>"
  obtain w where w: "rename () p AP_DB_PATH ?s4 = (Inr (), w)" using r [of ?s4] s3(2) f by auto
  show ?thesis
    using m c2 s3 c w
    by (simp add: ap_write_db_atomic_def io_def del: lib_calls.simps)
qed

lemma ap_register_calm:
  assumes "calm s" and P: "pbkdf2_spec P" and "file_at s AP_DB_PATH = Some (db_text us)"
    and ok: "\<forall>u \<in> set us. user_ok u" and "length us < 2 ^ 62"
    and tmp: "\<And>x. \<not> path_exists s (ascii ''server/res/users.db.tmp'' @ x)"
    and "name \<noteq> []" and "colon \<notin> set name" and "may_register us name"
  shows "\<exists>t. ap_register P name pw s = (Inr (), t)"
proof -
  obtain k where l: "ap_load_db s = (Inr us, s\<lparr>w_tick := k\<rparr>)" using ap_load_db_calm [OF assms(1,3,4,5)] by blast
  let ?v = "s\<lparr>w_tick := k\<rparr>"
  have cv: "calm ?v" and ne: "us \<noteq> []" using assms(1,9) by (simp_all add: may_register_def)
  obtain us' b v w k' q where up: "ap_update_record P us name pw ?v = (Inr (v, b, False), w)"
    and ap: "(if \<not> b then ap_append_user P v name pw else ret v) w = (Inr us', s\<lparr>w_tick := k', w_rpos := q\<rparr>)"
    and len: "\<forall>u \<in> set us'. length (u_salt u) = AUTH_SALT_LEN \<and> length (u_hash u) = AUTH_HASH_LEN"
  proof -
    define salt where "salt = map (w_tape s) [w_rpos s ..< w_rpos s + AUTH_SALT_LEN]"
    have sl: "length salt = AUTH_SALT_LEN" by (simp add: salt_def)
    have pl: "length (pbkdf2 P pw' salt' it n) = n" for pw' salt' it n using P by (simp add: pbkdf2_spec_def)
    have old: "\<forall>u \<in> set us. length (u_salt u) = AUTH_SALT_LEN \<and> length (u_hash u) = AUTH_HASH_LEN"
      using ok by (simp add: user_ok_def)
    show thesis
    proof (cases "auth_find_user us name")
      case None
      let ?u = "\<lparr>u_username = name, u_must_change = 1, u_deleted = 0, u_salt = salt,
        u_hash = pbkdf2 P (cstr pw) salt AUTH_PBKDF2_ITERS AUTH_HASH_LEN\<rparr>"
      have "ap_update_record P us name pw ?v = (Inr (us, False, False), ?v)"
        using None ne by (simp add: ap_update_record_def io_def)
      moreover have "ap_append_user P us name pw ?v = (Inr (us @ [?u]), s\<lparr>w_tick := k + 2 + 2, w_rpos := w_rpos s + AUTH_SALT_LEN\<rparr>)"
        using cv assms(1) by (simp add: ap_append_user_def ap_pbkdf2_def rand_bytes_calm io_def salt_def del: lib_calls.simps)
      ultimately show ?thesis using old sl pl by (intro that [of us False ?v "us @ [?u]"]) auto
    next
      case (Some i)
      then have del: "u_deleted (us ! i) \<noteq> 0" using assms(9) by (simp add: may_register_def)
      let ?u = "(us ! i)\<lparr>u_salt := salt, u_hash := pbkdf2 P (cstr pw) salt AUTH_PBKDF2_ITERS AUTH_HASH_LEN,
        u_must_change := 1, u_deleted := 0\<rparr>"
      let ?w = "s\<lparr>w_tick := k + 2, w_rpos := w_rpos s + AUTH_SALT_LEN\<rparr>"
      have "ap_update_record P us name pw ?v = (Inr (us[i := ?u], True, False), ?w)"
        using Some ne del cv assms(1) by (simp add: ap_update_record_def ap_pbkdf2_def rand_bytes_calm io_def salt_def)
      moreover have "\<forall>u \<in> set (us[i := ?u]). length (u_salt u) = AUTH_SALT_LEN \<and> length (u_hash u) = AUTH_HASH_LEN"
        using old sl pl set_update_subset_insert [of us i ?u] by auto
      ultimately show ?thesis by (intro that [of "us[i := ?u]" True ?w "us[i := ?u]"]) (auto simp: io_def)
    qed
  qed
  have "\<And>x. \<not> path_exists (s\<lparr>w_tick := k', w_rpos := q\<rparr>) (ascii ''server/res/users.db.tmp'' @ x)"
    using tmp by (simp add: path_exists_def)
  from ap_write_calm [OF _ len this] assms(1) obtain t where
    "ap_write_db_atomic us' (s\<lparr>w_tick := k', w_rpos := q\<rparr>) = (Inr (), t)" by auto
  then show ?thesis
    using l up ap assms(7,8) by (simp add: ap_register_def io_def)
qed

lemma registered_wf:
  assumes "\<forall>u \<in> set us. user_ok u" and "distinct (map u_username us)"
    and "name \<noteq> []" and "colon \<notin> set name" and "newline \<notin> set name" and "0 \<notin> set name"
    and "length name + 102 < AUTH_LINE_MAX" and "length salt = AUTH_SALT_LEN" and "length hash = AUTH_HASH_LEN"
  shows "\<forall>u \<in> set (registered us name salt hash). user_ok u" and "distinct (map u_username (registered us name salt hash))"
    and "length (registered us name salt hash) \<le> Suc (length us)"
    and "\<exists>i. auth_find_user (registered us name salt hash) name = Some i \<and>
      registered us name salt hash ! i =
        \<lparr>u_username = name, u_must_change = 1, u_deleted = 0, u_salt = salt, u_hash = hash\<rparr>"
    and "\<And>u. u \<in> set us \<Longrightarrow> u_username u \<noteq> name \<Longrightarrow> u \<in> set (registered us name salt hash)"
proof -
  let ?u = "\<lparr>u_username = name, u_must_change = 1, u_deleted = 0, u_salt = salt, u_hash = hash\<rparr>"
  have ok: "user_ok ?u" using assms(3-9) by (simp add: user_ok_def)
  obtain i where i: "i < length (registered us name salt hash)" "registered us name salt hash ! i = ?u"
    and all: "set (registered us name salt hash) \<subseteq> insert ?u (set us)"
    and d: "distinct (map u_username (registered us name salt hash))"
    and l: "length (registered us name salt hash) \<le> Suc (length us)"
    and o': "\<And>u. u \<in> set us \<Longrightarrow> u_username u \<noteq> name \<Longrightarrow> u \<in> set (registered us name salt hash)"
  proof (cases "auth_find_user us name")
    case None
    have "registered us name salt hash = us @ [?u]" by (simp add: registered_def None)
    moreover have "name \<notin> u_username ` set us" using None by (simp add: auth_find_user_None)
    ultimately show ?thesis using assms(2) by (intro that [of "length us"]) auto
  next
    case (Some i)
    note f = auth_find_user_Some [OF Some]
    have r: "registered us name salt hash = us[i := ?u]"
      using f Some by (cases "us ! i") (simp add: registered_def)
    have m: "map u_username (us[i := ?u]) = map u_username us"
      using f by (simp add: map_update list_update_same_conv)
    have "u \<in> set (us[i := ?u])" if u: "u \<in> set us" "u_username u \<noteq> name" for u
    proof -
      obtain j where "j < length us" "us ! j = u" using u(1) by (metis in_set_conv_nth)
      with u(2) f show ?thesis by (metis length_list_update nth_list_update_neq nth_mem)
    qed
    with f r m assms(2) set_update_subset_insert [of us i ?u] show ?thesis by (intro that [of i]) auto
  qed
  show "\<forall>u \<in> set (registered us name salt hash). user_ok u" using all ok assms(1) by blast
  show "distinct (map u_username (registered us name salt hash))" by (rule d)
  show "length (registered us name salt hash) \<le> Suc (length us)" by (rule l)
  show "\<exists>i. auth_find_user (registered us name salt hash) name = Some i \<and> registered us name salt hash ! i = ?u"
    using auth_find_user_distinct [OF d i(1)] i(2) by auto
  show "\<And>u. u \<in> set us \<Longrightarrow> u_username u \<noteq> name \<Longrightarrow> u \<in> set (registered us name salt hash)" by (rule o')
qed

lemma ap_main_cases:
  "ap_main P argv s = (code, t) \<Longrightarrow> code = 0 \<and> length argv = 4 \<and> argv ! 1 = ascii ''register'' \<and>
      ap_register P (argv ! 2) (argv ! 3) s = (Inr (), t) \<or>
    code = 1 \<and> (t = s \<or> ap_register P (argv ! 2) (argv ! 3) s = (Inl (), t))"
  by (auto simp: ap_main_def split: if_splits prod.splits sum.splits)

section \<open>Properties\<close>

text \<open>C17: A registration is all or nothing.  Whatever the arguments, the database and the failing
  library calls, either the tool returns 1 and the database file is as it was, or it returns 0 and
  the file holds the old accounts with the one account added or, if it carried a tombstone,
  reset, under a salt drawn from the random source during the run (which no later call can draw
  again) and with a forced password change; an active account is never changed.\<close>

theorem registration_is_atomic:
  assumes "pbkdf2_spec P" and "ap_main P argv s = (code, t)"
  shows "code = 1 \<and> file_at t AP_DB_PATH = file_at s AP_DB_PATH \<or>
    code = 0 \<and> (\<exists>us v salt. ap_load_db s = (Inr us, v) \<and> may_register us (argv ! 2) \<and>
      length salt = AUTH_SALT_LEN \<and> drawn s (w_rpos t) salt \<and>
      file_at t AP_DB_PATH = Some (db_text (registered us (argv ! 2) salt
        (pbkdf2 P (cstr (argv ! 3)) salt AUTH_PBKDF2_ITERS AUTH_HASH_LEN))))"
  using ap_main_cases [OF assms(2)] ap_register_Inr [OF _ assms(1)] ap_register_Inl by fastforce

text \<open>C18: When a registration succeeds.  In a working environment with a well-formed database, the tool
  returns 0 exactly when the user name is not empty and has no colon, the account does not exist
  or carries a tombstone, and the database is not empty: on an empty database, which the tool's
  purpose is to fill, \<open>ap_update_record\<close> refuses the null table and no account can be registered.\<close>

theorem registration_succeeds_iff:
  assumes "calm s" and P: "pbkdf2_spec P" and db: "file_at s AP_DB_PATH = Some (db_text us)"
    and ok: "\<forall>u \<in> set us. user_ok u" and "length us < 2 ^ 62"
    and "\<forall>x. \<not> path_exists s (ascii ''server/res/users.db.tmp'' @ x)"
  shows "fst (ap_main P [prog, ascii ''register'', name, pw] s) = 0 \<longleftrightarrow>
    name \<noteq> [] \<and> colon \<notin> set name \<and> may_register us name"
proof -
  let ?argv = "[prog, ascii ''register'', name, pw]"
  obtain code t where m: "ap_main P ?argv s = (code, t)" by fastforce
  show ?thesis
  proof (cases "name \<noteq> [] \<and> colon \<notin> set name \<and> may_register us name")
    case True
    with ap_register_calm [OF assms(1) P db ok assms(5)] assms(6) obtain u where
      "ap_register P name pw s = (Inr (), u)" by blast
    with True show ?thesis by (simp add: ap_main_def)
  next
    case False
    have "code \<noteq> 0"
    proof
      assume "code = 0"
      with ap_main_cases [OF m] have "ap_register P name pw s = (Inr (), t)" by simp
      from ap_register_Inr [OF this P] obtain us' v where
        "name \<noteq> []" "colon \<notin> set name" and l: "ap_load_db s = (Inr us', v)" "may_register us' name" by blast
      with False ap_load_db_Inr(2) [OF l(1) db ok] show False by simp
    qed
    with False m show ?thesis by simp
  qed
qed

text \<open>C16: A registered account can log in.  Once the tool has returned 0 for a user name that fits a line
  of the database, a server that finds that file and loads it accepts the new password for that
  name, sees no tombstone and demands a password change, and every other account is as before.\<close>

theorem registered_account_can_log_in:
  assumes P: "pbkdf2_spec P" and db: "file_at s AP_DB_PATH = Some (db_text us)"
    and ok: "\<forall>u \<in> set us. user_ok u" and d: "distinct (map u_username us)" and len: "Suc (length us) < 2 ^ 62"
    and main: "ap_main P [prog, ascii ''register'', name, pw] s = (0, t)"
    and n: "newline \<notin> set name" "0 \<notin> set name" "length name + 102 < AUTH_LINE_MAX"
    and v: "calm v" "file_at v SERVER_DB = file_at t AP_DB_PATH"
  shows "\<exists>w w'. auth_load_db P (Some SERVER_DB) v = (Inr (), w) \<and>
    auth_verify_password P name pw w = (Inr (1, 0), w') \<and>
    (\<forall>u \<in> set us. u_username u \<noteq> name \<longrightarrow> u \<in> set (g_users w))"
proof -
  from ap_main_cases [OF main] have "ap_register P name pw s = (Inr (), t)" by simp
  from ap_register_Inr [OF this P] obtain us' v' salt where n': "name \<noteq> []" "colon \<notin> set name"
    and l: "ap_load_db s = (Inr us', v')" and salt: "length salt = AUTH_SALT_LEN" and
    t: "file_at t AP_DB_PATH = Some (db_text (registered us' name salt
      (pbkdf2 P (cstr pw) salt AUTH_PBKDF2_ITERS AUTH_HASH_LEN)))" by blast
  let ?h = "pbkdf2 P (cstr pw) salt AUTH_PBKDF2_ITERS AUTH_HASH_LEN"
  let ?us = "registered us name salt ?h"
  have us: "us' = us" using ap_load_db_Inr(2) [OF l db ok] .
  have "length ?h = AUTH_HASH_LEN" using P by (simp add: pbkdf2_spec_def)
  note r = registered_wf [OF ok d n' n salt this]
  have "length ?us < 2 ^ 62" using r(3) len by simp
  with auth_load_db_text [OF v(1) _ r(1,2)] t us v(2) obtain w where
    w: "auth_load_db P (Some SERVER_DB) v = (Inr (), w)" "g_users w = ?us" by auto
  have c: "calm w" using withinD [OF load_oracle.within_load_db w(1)] v(1) by (simp add: calm_def)
  from r(4) obtain i where "auth_find_user ?us name = Some i" "?us ! i =
      \<lparr>u_username = name, u_must_change = 1, u_deleted = 0, u_salt = salt, u_hash = ?h\<rparr>" by blast
  with c w(2) have "\<exists>w'. auth_verify_password P name pw w = (Inr (1, 0), w')"
    by (simp add: auth_verify_password_calm)
  with w r(5) show ?thesis by auto
qed

section \<open>Witnesses\<close>

definition sample_tool :: "env" where
  "sample_tool = sample_env [(AP_DB_PATH, db_text [sample_user])] []"

lemma sample_tool_facts:
  "calm sample_tool" "file_at sample_tool AP_DB_PATH = Some (db_text [sample_user])"
  "\<not> path_exists sample_tool (ascii ''server/res/users.db.tmp'' @ x)" "\<forall>u \<in> set [sample_user]. user_ok u"
  using stem_not_db sample_user_ok
  by (auto simp: sample_tool_def sample_env_def calm_def file_at_def path_exists_def)

lemma sample_registration:
  "\<exists>t. ap_main sample_platform [[], ascii ''register'', ascii ''eve'', ascii ''x''] sample_tool = (0, t)"
proof -
  have "\<exists>t. ap_register sample_platform (ascii ''eve'') (ascii ''x'') sample_tool = (Inr (), t)"
    by (rule ap_register_calm [OF sample_tool_facts(1) sample_pbkdf2_spec sample_tool_facts(2,4) _ sample_tool_facts(3)])
       (simp_all add: ascii_def may_register_def sample_user_def)
  then show ?thesis by (auto simp: ap_main_def)
qed

theorem registration_is_atomic_witness:
  "\<exists>t salt u. ap_main sample_platform [[], ascii ''register'', ascii ''eve'', ascii ''x''] sample_tool = (0, t) \<and>
     drawn sample_tool (w_rpos t) salt \<and> file_at t AP_DB_PATH = Some (db_text [sample_user,
       \<lparr>u_username = ascii ''eve'', u_must_change = 1, u_deleted = 0, u_salt = salt,
        u_hash = pbkdf2 sample_platform (ascii ''x'') salt AUTH_PBKDF2_ITERS AUTH_HASH_LEN\<rparr>]) \<and>
     ap_main sample_platform [[], ascii ''register'', ascii ''bob'', ascii ''x''] sample_tool = (1, u) \<and>
     file_at u AP_DB_PATH = Some (db_text [sample_user])"
proof -
  let ?eve = "[[], ascii ''register'', ascii ''eve'', ascii ''x'']" let ?bob = "[[], ascii ''register'', ascii ''bob'', ascii ''x'']"
  obtain t where t: "ap_main sample_platform ?eve sample_tool = (0, t)" using sample_registration by blast
  have l: "ap_load_db sample_tool = (Inr us, v) \<Longrightarrow> us = [sample_user]" for us v
    using ap_load_db_Inr(2) [OF _ sample_tool_facts(2,4)] by blast
  from registration_is_atomic [OF sample_pbkdf2_spec t] obtain us v salt where
    s: "ap_load_db sample_tool = (Inr us, v)" "drawn sample_tool (w_rpos t) salt" and
    f: "file_at t AP_DB_PATH = Some (db_text (registered us (ascii ''eve'') salt
        (pbkdf2 sample_platform (cstr (ascii ''x'')) salt AUTH_PBKDF2_ITERS AUTH_HASH_LEN)))" by auto
  have "auth_find_user [sample_user] (ascii ''eve'') = None" by (simp add: sample_user_def ascii_def)
  then have f': "file_at t AP_DB_PATH = Some (db_text [sample_user,
       \<lparr>u_username = ascii ''eve'', u_must_change = 1, u_deleted = 0, u_salt = salt,
        u_hash = pbkdf2 sample_platform (ascii ''x'') salt AUTH_PBKDF2_ITERS AUTH_HASH_LEN\<rparr>])"
    using f l [OF s(1)] by (simp add: registered_def cstr_def ascii_def)
  obtain code u where u: "ap_main sample_platform ?bob sample_tool = (code, u)" by fastforce
  have "\<not> may_register [sample_user] (ascii ''bob'')" by (simp add: may_register_def sample_user_def)
  with registration_is_atomic [OF sample_pbkdf2_spec u] have "code = 1" "file_at u AP_DB_PATH = Some (db_text [sample_user])"
    using sample_tool_facts(2) by (auto dest: l)
  with t s(2) f' u show ?thesis by blast
qed

theorem registration_succeeds_iff_witness:
  "fst (ap_main sample_platform [[], ascii ''register'', ascii ''eve'', ascii ''x''] sample_tool) = 0 \<and>
   fst (ap_main sample_platform [[], ascii ''register'', ascii ''bob'', ascii ''x''] sample_tool) \<noteq> 0"
proof -
  have l: "length [sample_user] < 2 ^ 62" by simp
  have x: "\<forall>x. \<not> path_exists sample_tool (ascii ''server/res/users.db.tmp'' @ x)" using sample_tool_facts(3) by simp
  note i = registration_succeeds_iff [OF sample_tool_facts(1) sample_pbkdf2_spec sample_tool_facts(2,4) l x]
  show ?thesis
    unfolding i by (simp add: may_register_def sample_user_def ascii_def)
qed

theorem registered_account_can_log_in_witness:
  "\<exists>t w w'. ap_main sample_platform [[], ascii ''register'', ascii ''eve'', ascii ''x''] sample_tool = (0, t) \<and>
     auth_load_db sample_platform (Some SERVER_DB) (sample_auth\<lparr>w_files := w_files t\<rparr>) = (Inr (), w) \<and>
     auth_verify_password sample_platform (ascii ''eve'') (ascii ''x'') w = (Inr (1, 0), w')"
proof -
  let ?argv = "[[], ascii ''register'', ascii ''eve'', ascii ''x'']"
  obtain t where m: "ap_main sample_platform ?argv sample_tool = (0, t)" using sample_registration by blast
  let ?v = "sample_auth\<lparr>w_files := w_files t\<rparr>"
  have v: "calm ?v" "file_at ?v SERVER_DB = file_at t AP_DB_PATH"
    using sample_auth_ok(2) by (simp_all add: calm_def file_at_def SERVER_DB_def AP_DB_PATH_def)
  have n: "newline \<notin> set (ascii ''eve'')" "0 \<notin> set (ascii ''eve'')" "length (ascii ''eve'') + 102 < AUTH_LINE_MAX"
    "distinct (map u_username [sample_user])" "Suc (length [sample_user]) < 2 ^ 62"
    by (simp_all add: ascii_def AUTH_LINE_MAX_def)
  from registered_account_can_log_in [OF sample_pbkdf2_spec sample_tool_facts(2,4) n(4,5) m n(1-3) v] m
  show ?thesis by blast
qed

end
