(* ===== verification/Spec2Isabelle.thy ===== *)
theory Spec2Isabelle
  imports KeyAgreement Phases KeyLife FirstStart Dialogue ProvisionProps
begin

text \<open>
  \<^bold>\<open>The program.\<close>  A document signing service in C.  A server (\<^verbatim>\<open>src/server\<close>) keeps a table of
  accounts in the text file \<^verbatim>\<open>server/res/users.db\<close> and, for every user, an RSA key pair in two files
  under \<^verbatim>\<open>server/res/keystore\<close>, the private half encrypted under a key derived from the user's
  password.  An interactive client (\<^verbatim>\<open>src/client/main.c\<close>) connects, agrees on two session keys in a
  handshake in which the server signs both public keys, and then sends encrypted requests: log in,
  change the password, create keys, sign a document, fetch a public key, delete the keys, log out.
  An offline tool (\<^verbatim>\<open>src/tools/account_provision.c\<close>) registers accounts by rewriting the database.
  Deleting keys leaves a tombstone on the account that only the tool can lift.

  \<^bold>\<open>How the code is written here.\<close>  A C function that reads or writes state and returns an error
  code is a function from the state to a result (\<open>Inl\<close> the error, \<open>Inr\<close> the outputs) and the new
  state (\<open>io\<close> in Prelude); an early return is a \<open>raise\<close>, a cleanup block an \<open>on_error\<close>.  Structs
  are records, enumerations datatypes, the integers of packets and headers words of their width,
  buffers and C strings lists of bytes.  Records extend one another as the code's layers do: \<open>env\<close>
  (files, directories, the connected socket, randomness, the fault oracle), \<open>auth_env\<close> (the globals
  of \<^verbatim>\<open>auth.c\<close>), \<open>server_env\<close> (the locals of the server's \<open>main\<close>) and \<open>client_env\<close>.

  \<^bold>\<open>What is a parameter.\<close>  OpenSSL is not part of the repository: AES-GCM, ECDH, signatures, PEM, PBKDF2
  and HKDF are the fields of the record \<open>platform\<close>, with the byte order of the host and the OpenSSL
  version the code is compiled for.  What a theorem needs of them is a hypothesis: \<open>gcm_spec\<close>
  (decryption inverts encryption and keeps the length), \<open>ecdh_spec\<close> (both sides compute the same
  secret), \<open>signature_pair\<close> (what one key signs the other accepts), \<open>pbkdf2_spec\<close> (as many bytes as
  asked for), \<open>hkdf_spec\<close> (OpenSSL 3 implements RFC 5869) and \<open>pem_spec\<close>.
  \<open>sample_platform\<close> satisfies them and computes; the witnesses run the model on it.
  Every library and system call that can fail consults the oracle \<open>w_fault\<close>, and a failing write
  leaves a prefix \<open>w_part\<close> chooses, so a theorem about an arbitrary state is about every
  combination of failing calls; a theorem about a \<open>calm\<close> state is about a working library.
  How the socket delivers and accepts bytes is a list of events; how name resolution, \<open>socket\<close>,
  \<open>connect\<close> and \<open>accept\<close> answer is an argument.
\<close>

text \<open>
  \<^bold>\<open>The theories and the code.\<close>

  \<^item> Prelude, World, CLib: the vocabulary above; the system calls; \<open>fgets\<close>, \<open>strtok\<close>, \<open>strtol\<close>,
    \<open>strcmp\<close> and the printing of numbers, as the C standard describes them.  Prelude declares
    \<open>state_frame\<close>, the contract ``every step of the program stays in the relation R'', which
    \<open>env_frame\<close>, \<open>file_frame\<close>, \<open>net_frame\<close>, \<open>loading_frame\<close>, \<open>auth_frame\<close>, \<open>server_frame\<close>, \<open>connection\<close>,
    \<open>prompt_frame\<close>, \<open>client_io\<close> and \<open>client_frame\<close> extend, one per layer: a fact of the form
    ``this never changes that'' is one interpretation.
  \<^item> Net and Tcp (\<^verbatim>\<open>common/net.c\<close>): \<open>send_all\<close>, \<open>recv_all\<close>; \<open>tcp_connect\<close>, \<open>tcp_listen\<close>, \<open>tcp_accept\<close>.
    \<open>byte_source\<close> is what a reader of exactly \<open>n\<close> bytes promises the packet layer.
  \<^item> Dsspacket (\<^verbatim>\<open>common/dsspacket.[ch]\<close>): headers, additional data, sending and receiving packets.
    \<open>framed\<close> is the contract of a self-delimiting format; packets, handshake frames and server
    hellos are its three instances.
  \<^item> Replay (\<^verbatim>\<open>common/replay.[ch]\<close>): the ring of nonces and the bounded queue it implements.
  \<^item> Securechan (\<^verbatim>\<open>common/securechan.[ch]\<close>), Handshake (\<^verbatim>\<open>common/handshake.[ch]\<close>).
  \<^item> Hex, Auth, AuthDB, AuthOps, AuthProps (\<^verbatim>\<open>server/auth.[ch]\<close>): the codec and the operations; the text
    format and its inverse; what the operations do to the table; the properties.
  \<^item> Storage, KeyStore (\<^verbatim>\<open>server/storage.[ch]\<close>): the operations of the key store; their properties.
  \<^item> Server (\<^verbatim>\<open>server/main.c\<close>): the session, one \<open>op_\<close> function per opcode, \<open>server_handle\<close> (the gate
    in front of them), \<open>server_step\<close> (one iteration of the loop), \<open>server_loop\<close>, \<open>server_main\<close>.
    Access: what each operation may change.  Sessions: what a session means and the contract of
    an invariant of a connection.  Machine: the abstract machine the loop refines, with a step for
    every request and status; Phases: the refinement.  ServerProps, KeyLife, FirstStart, ServerRun:
    properties.
  \<^item> Client (\<^verbatim>\<open>client/main.c\<close>): reading lines and passwords, requests, the handshake, one \<open>cmd_\<close>
    function per command, the loop, \<open>client_main\<close>.  ClientProps: a whole run.
  \<^item> Exchange, KeyAgreement, Agreement, Dialogue: client and server together: one request and its
    response; the handshake; what the client believes of its login against the server's session,
    over one command and over a whole dialogue.
  \<^item> Provision, ProvisionProps (\<^verbatim>\<open>tools/account_provision.c\<close>), with the server reading the result.
\<close>

text \<open>
  \<^bold>\<open>What is shown.\<close>

  \<^item> The protocol.  Client and server derive the same keys (\<open>handshake_agrees\<close>); the client goes on
    only with a transcript the server has signed; a response the client accepts is the answer the
    operation gave (\<open>exchange_is_faithful\<close>); in every dialogue in which no library call fails, what
    the client believes of its login is what the server's session says (\<open>dialogues_agree\<close>); packets
    and hellos round trip whatever way the stream is cut; the cache is a bounded queue of the last
    nonces.
  \<^item> The session.  The loop refines a machine of the accounts and of a session in one of four phases,
    anonymous, restricted to a password change, active and deleted: the requests received, with the
    statuses they are answered with, are a run of it (\<open>loop_refines_phases\<close>); a login needs the
    password; only an active session writes, and only its own user's data; a session always belongs
    to an account and, when it says deleted, to one with a tombstone (\<open>loop_keeps_sessions\<close>).
  \<^item> Tombstones.  Deletion marks the account in memory and on disk before a file goes, no request
    brings the account back, and no key is made or used while the mark is there.
  \<^item> The database.  Writing is atomic under every failure, loading reads back what was written, and
    only well-formed tables load; the seed of a first start and the tool's registrations arrive.
  \<^item> Keys.  What is signed is signed with the key whose public half is published, also after a
    password change, which re-encrypts the private key under the key of the new password when the
    key file can be read.
  \<^item> Endings.  The loop answers at most one request for every 24 bytes received; the server and the
    client end, with no descriptor open and no session, key or terminal setting left behind.
  \<^item> Weaknesses, as theorems: a replayed request is executed again although the cache recognises
    it; a response is accepted whatever request it answers (\<open>stale_response_is_accepted\<close>); a password
    change whose database write fails leaves the private key under the key of the new password,
    which only the table in memory knows of; one whose key file cannot be read leaves it under
    the old key; a login whose answer cannot be allocated succeeds at the server and fails at
    the client (lemma \<open>login_without_answer\<close>); a key file of version 1 does not survive a password
    change; a failed allocation at the start deletes the database; the tool cannot register into an
    empty database.

  \<^bold>\<open>Termination and bounds.\<close>  There is no fuel.  The loops over the socket end because every round
  consumes events or bytes (\<open>rx_size\<close> is the measure of \<open>server_loop\<close>), the client's because every
  round consumes standard input; the ring buffer, database and seed loops recurse over lists.
  Waiting in \<open>accept\<close> without a client is the value \<open>None\<close>.  The buffer sizes of the source are
  kept (lines of 1024 bytes, payloads of 10 MB, 64 KB of response data, paths of 4096 bytes),
  \<open>size_t\<close> has 64 bits, and \<open>int\<close> and \<open>long\<close> the widths of 64-bit Linux.

  \<^bold>\<open>Not modelled.\<close>  The messages on stderr with \<open>opcode_name\<close> and \<open>status_name\<close>, which nothing else
  reads; \<open>free\<close> and the wiping of buffers, which do not affect a later value; crashes between two
  system calls and other processes writing the same files, so that a theorem on atomicity is
  about failing calls and not about power loss; the insides of OpenSSL.  The server handles one client and exits, as
  the code does, so there is no concurrency to model.
\<close>

end
